(* ===== verification/Prelude.thy ===== *)
theory Prelude
  imports Main "HOL-Library.Word" "HOL-Library.Monad_Syntax"
begin

text \<open>
  Shared vocabulary of the development: the constants of \<^verbatim>\<open>include/common.h\<close>, the two
  mutating idioms every linked list of the program uses (update the first matching node in
  place, unlink the first matching node), C integers as wrapped \<open>int\<close> values, and the lemma
  collections of the component proofs.

  Undefined behaviour of C (a write past the end of a buffer, a read of an unterminated
  string) is a value of the model: an operation that can run into it returns an \<open>option\<close>,
  and \<open>None\<close> is "the C program has no defined behaviour here".
\<close>

named_theorems list_node_simps \<open>lookups in a linked list after an update or an unlink\<close>
named_theorems cstring_simps \<open>scanning and tokenising C strings\<close>

section \<open>Constants of common.h and data_structures.h\<close>

abbreviation BUFFER_SIZE :: nat where "BUFFER_SIZE \<equiv> 4096"
abbreviation MAX_FILENAME_LEN :: nat where "MAX_FILENAME_LEN \<equiv> 256"
abbreviation MAX_USERNAME_LEN :: nat where "MAX_USERNAME_LEN \<equiv> 256"
abbreviation MAX_IP_LEN :: nat where "MAX_IP_LEN \<equiv> 16"
abbreviation MAX_PATH_LEN :: nat where "MAX_PATH_LEN \<equiv> 1024"
abbreviation HT_SIZE :: nat where "HT_SIZE \<equiv> 1024"

section \<open>C integers\<close>

text \<open>
  An \<open>int\<close> of the program is a mathematical integer kept in the 32-bit range by
  \<open>wrap32\<close>, a \<open>long\<close> one kept in the 64-bit range by \<open>clamp64\<close> (the saturation of
  \<^verbatim>\<open>strtol\<close>).
\<close>

type_synonym c_int = int
type_synonym c_long = int

definition wrap32 :: "int \<Rightarrow> c_int" where
  "wrap32 n = signed_take_bit 31 n"

definition clamp64 :: "int \<Rightarrow> c_long" where
  "clamp64 n = max (- (2 ^ 63)) (min (2 ^ 63 - 1) n)"

definition is_int32 :: "int \<Rightarrow> bool" where
  "is_int32 n \<longleftrightarrow> - (2 ^ 31) \<le> n \<and> n < 2 ^ 31"

definition is_int64 :: "int \<Rightarrow> bool" where
  "is_int64 n \<longleftrightarrow> - (2 ^ 63) \<le> n \<and> n < 2 ^ 63"

lemma wrap32_id [simp]: "is_int32 n \<Longrightarrow> wrap32 n = n"
  unfolding wrap32_def is_int32_def by (simp add: signed_take_bit_int_eq_self)

lemma is_int32_wrap32 [simp]: "is_int32 (wrap32 n)"
  unfolding wrap32_def is_int32_def
  using signed_take_bit_int_greater_eq_minus_exp [of 31 n] signed_take_bit_int_less_exp [of 31 n]
  by simp

lemma clamp64_id [simp]: "is_int64 n \<Longrightarrow> clamp64 n = n"
  unfolding clamp64_def is_int64_def by simp

lemma is_int64_clamp64 [simp]: "is_int64 (clamp64 n)"
  unfolding clamp64_def is_int64_def by auto

lemma is_int32_imp_64: "is_int32 n \<Longrightarrow> is_int64 n"
  unfolding is_int32_def is_int64_def by simp

section \<open>Linked lists\<close>

text \<open>
  The lists of the program are walked from the head with \<open>curr\<close> (and \<open>prev\<close> where a node is
  unlinked). \<open>List.find\<close> is the walk that stops at the first match.
\<close>

fun update_first :: "('a \<Rightarrow> bool) \<Rightarrow> ('a \<Rightarrow> 'a) \<Rightarrow> 'a list \<Rightarrow> 'a list" where
  "update_first P f [] = []"
| "update_first P f (x # xs) = (if P x then f x # xs else x # update_first P f xs)"

fun remove_first :: "('a \<Rightarrow> bool) \<Rightarrow> 'a list \<Rightarrow> 'a list" where
  "remove_first P [] = []"
| "remove_first P (x # xs) = (if P x then xs else x # remove_first P xs)"

lemma update_first_none [simp]: "\<not> (\<exists>x\<in>set xs. P x) \<Longrightarrow> update_first P f xs = xs"
  by (induction xs) auto

lemma remove_first_none [simp]: "\<not> (\<exists>x\<in>set xs. P x) \<Longrightarrow> remove_first P xs = xs"
  by (induction xs) auto

lemma length_update_first [simp]: "length (update_first P f xs) = length xs"
  by (induction xs) auto

lemma length_remove_first:
  "length (remove_first P xs) = (if \<exists>x\<in>set xs. P x then length xs - 1 else length xs)"
proof (induction xs)
  case (Cons x xs)
  then show ?case by (cases xs) auto
qed simp

lemma set_remove_first_subset: "set (remove_first P xs) \<subseteq> set xs"
  by (induction xs) auto

lemma set_remove_firstD [dest]: "x \<in> set (remove_first P xs) \<Longrightarrow> x \<in> set xs"
  using set_remove_first_subset by fastforce

lemma update_first_mem:
  "x \<in> set (update_first P f xs) \<Longrightarrow> x \<in> set xs \<or> (\<exists>y\<in>set xs. P y \<and> x = f y)"
  by (induction xs) (auto split: if_splits)

lemma map_update_first_key [simp]:
  "(\<And>x. key (f x) = key x) \<Longrightarrow> map key (update_first P f xs) = map key xs"
  by (induction xs) auto

lemma distinct_map_remove_first [simp]:
  "distinct (map key xs) \<Longrightarrow> distinct (map key (remove_first P xs))"
  by (induction xs) auto

lemma distinct_remove_first [simp]: "distinct xs \<Longrightarrow> distinct (remove_first P xs)"
  by (induction xs) auto

lemma remove_first_append:
  "remove_first P (xs @ ys) =
     (if \<exists>x\<in>set xs. P x then remove_first P xs @ ys else xs @ remove_first P ys)"
  by (induction xs) auto

lemma map_remove_first_key:
  "map key (remove_first (\<lambda>x. key x = k) xs) = remove1 k (map key xs)"
  by (induction xs) auto

lemma image_remove_first:
  "distinct (map key xs) \<Longrightarrow> key ` set (remove_first (\<lambda>x. key x = k) xs) = key ` set xs - {k}"
  using map_remove_first_key [of key k xs] set_remove1_eq [of "map key xs" k]
  by (metis set_map)

lemma find_key_None:
  "List.find (\<lambda>x. key x = k) xs = None \<longleftrightarrow> k \<notin> key ` set xs"
  by (auto simp: find_None_iff)

lemma find_key_SomeD:
  "List.find (\<lambda>x. key x = k) xs = Some y \<Longrightarrow> y \<in> set xs \<and> key y = k"
  by (induction xs) (auto split: if_splits)

lemma find_distinct_key:
  "distinct (map key xs) \<Longrightarrow> x \<in> set xs \<Longrightarrow> List.find (\<lambda>y. key y = key x) xs = Some x"
  by (induction xs) (auto simp: image_iff)

lemma find_update_first [list_node_simps]:
  assumes "\<And>x. key (f x) = key x"
  shows "List.find (\<lambda>x. key x = k') (update_first (\<lambda>x. key x = k) f xs) =
    (if k' = k then map_option f (List.find (\<lambda>x. key x = k) xs)
     else List.find (\<lambda>x. key x = k') xs)"
  by (induction xs) (auto simp: assms)

lemma update_first_twice:
  "(\<And>x. P x \<Longrightarrow> P (f x)) \<Longrightarrow> update_first P g (update_first P f xs) = update_first P (\<lambda>x. g (f x)) xs"
  by (induction xs) auto

lemma update_first_fixed: "List.find P xs = Some y \<Longrightarrow> f y = y \<Longrightarrow> update_first P f xs = xs"
  by (induction xs) (auto split: if_splits)

lemma find_remove_first_other [list_node_simps]:
  "k' \<noteq> k \<Longrightarrow> List.find (\<lambda>x. key x = k') (remove_first (\<lambda>x. key x = k) xs) =
     List.find (\<lambda>x. key x = k') xs"
  by (induction xs) auto

lemma find_remove_first_same [list_node_simps]:
  "distinct (map key xs) \<Longrightarrow> List.find (\<lambda>x. key x = k) (remove_first (\<lambda>x. key x = k) xs) = None"
  by (induction xs) (auto simp: find_key_None image_iff)

section \<open>Lists\<close>

lemma takeWhile_append_stop:
  "(\<And>x. x \<in> set xs \<Longrightarrow> P x) \<Longrightarrow> (ys = [] \<or> \<not> P (hd ys)) \<Longrightarrow> takeWhile P (xs @ ys) = xs"
  by (cases ys) (auto simp: takeWhile_append2)

lemma dropWhile_append_stop:
  "(\<And>x. x \<in> set xs \<Longrightarrow> P x) \<Longrightarrow> (ys = [] \<or> \<not> P (hd ys)) \<Longrightarrow> dropWhile P (xs @ ys) = ys"
  by (cases ys) (auto simp: dropWhile_append2)

lemma takeWhile_all: "(\<And>x. x \<in> set xs \<Longrightarrow> P x) \<Longrightarrow> takeWhile P xs = xs"
  by (simp add: takeWhile_eq_all_conv)

lemma dropWhile_all: "(\<And>x. x \<in> set xs \<Longrightarrow> P x) \<Longrightarrow> dropWhile P xs = []"
  by simp

lemma dropWhile_hd_stop: "xs = [] \<or> \<not> P (hd xs) \<Longrightarrow> dropWhile P xs = xs"
  by (cases xs) auto

lemma set_dropWhile_subset: "set (dropWhile P xs) \<subseteq> set xs"
  using set_dropWhileD by fastforce

section \<open>Runs\<close>

text \<open>A sequence of steps that may be undefined, with the outputs in order.\<close>

fun run_steps :: "('s \<Rightarrow> 'e \<Rightarrow> ('s \<times> 'o list) option) \<Rightarrow> 's \<Rightarrow> 'e list \<Rightarrow> ('s \<times> 'o list) option" where
  "run_steps step s [] = Some (s, [])"
| "run_steps step s (e # es) =
     (case step s e of
        None \<Rightarrow> None
      | Some (s', outs) \<Rightarrow> map_option (\<lambda>(s'', outs'). (s'', outs @ outs')) (run_steps step s' es))"

end
