(* ===== verification/C_Strings.thy ===== *)
theory C_Strings
  imports Prelude
begin

text \<open>
  \<^verbatim>\<open>src/common/common.c\<close> and the string functions of the C library the program uses.
  A C string is the list of its bytes before the terminating NUL; a \<open>char\<close> is a byte, signed
  where the code widens it to \<open>int\<close> (x86-64 Linux, the platform of the README). Allocation
  succeeds.

  The lemmas: what \<open>split_string\<close> returns on a text built from separators (the program's
  messages and records), and that \<open>atol\<close> and \<open>atoi\<close> read back what \<^verbatim>\<open>%ld\<close> and
  \<^verbatim>\<open>%d\<close> print.
\<close>

section \<open>Bytes\<close>

definition isspace :: "char \<Rightarrow> bool" where
  "isspace c \<longleftrightarrow> c = CHR '' '' \<or> c = CHR 0x09 \<or> c = CHR 0x0A \<or> c = CHR 0x0B \<or>
     c = CHR 0x0C \<or> c = CHR 0x0D"

definition isdigit :: "char \<Rightarrow> bool" where
  "isdigit c \<longleftrightarrow> 48 \<le> (of_char c :: nat) \<and> (of_char c :: nat) \<le> 57"

definition signed_char :: "char \<Rightarrow> int" where
  "signed_char c = (if (of_char c :: int) < 128 then of_char c else of_char c - 256)"

text \<open>A buffer of bytes, read as a C string: the bytes before the first NUL.\<close>

definition cstr :: "string \<Rightarrow> string" where
  "cstr s = takeWhile (\<lambda>c. c \<noteq> CHR 0x00) s"

lemma cstr_id [simp]: "CHR 0x00 \<notin> set s \<Longrightarrow> cstr s = s"
  unfolding cstr_def by (auto simp: takeWhile_eq_all_conv)

lemma nul_notin_cstr [simp]: "CHR 0x00 \<notin> set (cstr s)"
  unfolding cstr_def by (auto dest: set_takeWhileD)

lemma signed_char_range: "-128 \<le> signed_char c \<and> signed_char c < 128"
proof -
  have "(of_char c :: int) < 256" "0 \<le> (of_char c :: int)"
    using of_char_mod_256 [of c, where 'a=int] by (metis pos_mod_bound zero_less_numeral)
      (metis of_char_mod_256 pos_mod_sign zero_less_numeral)
  then show ?thesis unfolding signed_char_def by simp
qed

section \<open>Copying into fixed buffers\<close>

text \<open>
  \<open>strncpy_zeroed n src\<close> is the string in a zero-filled array after
  \<open>strncpy(array, src, n)\<close> (the array has more than \<open>n\<close> bytes): at most \<open>n\<close> bytes.
  Into memory that was not zeroed (\<open>malloc\<close>, a local array) a source of \<open>n\<close> bytes or more
  leaves no terminator, and reading the array as a string is undefined: \<open>strncpy_raw\<close> is
  \<open>None\<close> there.
\<close>

definition strncpy_zeroed :: "nat \<Rightarrow> string \<Rightarrow> string" where
  "strncpy_zeroed n src = take n src"

definition strncpy_raw :: "nat \<Rightarrow> string \<Rightarrow> string option" where
  "strncpy_raw n src = (if length src < n then Some src else None)"

text \<open>
  \<open>snprintf\<close> into a buffer of \<open>n\<close> bytes keeps \<open>n - 1\<close> bytes; \<open>strcat\<close> onto a string in a
  buffer of \<open>n\<close> bytes does not check: it overflows when there is no room for the terminator.
\<close>

definition snprintf :: "nat \<Rightarrow> string \<Rightarrow> string" where
  "snprintf n s = take (n - 1) s"

definition strcat :: "nat \<Rightarrow> string \<Rightarrow> string \<Rightarrow> string option" where
  "strcat n dst src = (if length dst + length src < n then Some (dst @ src) else None)"

text \<open>\<open>strncmp(s, p, strlen(p)) == 0\<close>.\<close>

definition starts_with :: "string \<Rightarrow> string \<Rightarrow> bool" where
  "starts_with p s \<longleftrightarrow> take (length p) s = p"

lemma strncpy_zeroed_id [simp]: "length s \<le> n \<Longrightarrow> strncpy_zeroed n s = s"
  by (simp add: strncpy_zeroed_def)

lemma length_strncpy_zeroed [simp]: "length (strncpy_zeroed n s) \<le> n"
  by (simp add: strncpy_zeroed_def)

lemma set_strncpy_zeroed: "set (strncpy_zeroed n s) \<subseteq> set s"
  by (simp add: strncpy_zeroed_def set_take_subset)

lemma strncpy_raw_Some [simp]: "strncpy_raw n s = Some t \<longleftrightarrow> t = s \<and> length s < n"
  by (auto simp: strncpy_raw_def)

lemma snprintf_id [simp]: "length s < n \<Longrightarrow> snprintf n s = s"
  by (simp add: snprintf_def)

lemma length_snprintf [simp]: "0 < n \<Longrightarrow> length (snprintf n s) < n"
  by (simp add: snprintf_def)

lemma strcat_Some [simp]: "strcat n d s = Some t \<longleftrightarrow> t = d @ s \<and> length t < n"
  by (auto simp: strcat_def)

section \<open>trim_newline\<close>

definition trim_newline :: "string \<Rightarrow> string" where
  "trim_newline s = takeWhile (\<lambda>c. c \<noteq> CHR 0x0D \<and> c \<noteq> CHR 0x0A) s"

lemma trim_newline_append [simp]:
  "CHR 0x0A \<notin> set s \<Longrightarrow> CHR 0x0D \<notin> set s \<Longrightarrow> trim_newline (s @ CHR 0x0A # t) = s"
  unfolding trim_newline_def by (subst takeWhile_append_stop) auto

lemma trim_newline_id [simp]:
  "CHR 0x0A \<notin> set s \<Longrightarrow> CHR 0x0D \<notin> set s \<Longrightarrow> trim_newline s = s"
  unfolding trim_newline_def by (auto simp: takeWhile_eq_all_conv)

section \<open>split_string\<close>

text \<open>
  One turn of the loop is one \<open>strtok_r\<close>: skip the delimiters, take the bytes up to the next
  one, and resume behind it. Consecutive delimiters make no empty token.
\<close>

function split_string :: "string \<Rightarrow> string \<Rightarrow> string list" where
  "split_string delim s =
     (let s' = dropWhile (\<lambda>c. c \<in> set delim) s
      in if s' = [] then []
         else takeWhile (\<lambda>c. c \<notin> set delim) s' #
              split_string delim (drop 1 (dropWhile (\<lambda>c. c \<notin> set delim) s')))"
  by pat_completeness auto

termination
proof (relation "measure (\<lambda>(delim, s). length s)", goal_cases)
  case (2 delim s s')
  have "length (dropWhile (\<lambda>c. c \<notin> set delim) s') \<le> length s'" "length s' \<le> length s"
    using 2 by (simp_all add: length_dropWhile_le)
  moreover have "0 < length s'" using 2 by simp
  ultimately show ?case by (simp only: in_measure prod.case length_drop)
qed simp

declare split_string.simps [simp del]

lemma split_string_Nil [simp]: "split_string d [] = []"
  by (simp add: split_string.simps)

lemma split_string_skip [simp, cstring_simps]: "c \<in> set d \<Longrightarrow> split_string d (c # s) = split_string d s"
  by (subst (1 2) split_string.simps) simp

lemma split_string_all_delims: "set s \<subseteq> set d \<Longrightarrow> split_string d s = []"
  by (induction s) auto

lemma split_string_not_Nil: "\<exists>c\<in>set s. c \<notin> set d \<Longrightarrow> split_string d s \<noteq> []"
proof (induction s)
  case (Cons c s)
  then show ?case
    by (cases "c \<in> set d") (simp, subst split_string.simps, simp)
qed simp

lemma split_string_token:
  assumes "t \<noteq> []" "set t \<inter> set d = {}" "s = [] \<or> hd s \<in> set d"
  shows "split_string d (t @ s) = t # split_string d s"
proof -
  have hd: "hd t \<notin> set d" using assms(1,2) by (cases t) auto
  have drop: "dropWhile (\<lambda>c. c \<in> set d) (t @ s) = t @ s"
    using assms(1) hd by (cases t) auto
  have tk: "takeWhile (\<lambda>c. c \<notin> set d) (t @ s) = t"
    using assms(2,3) by (intro takeWhile_append_stop) auto
  have dr: "dropWhile (\<lambda>c. c \<notin> set d) (t @ s) = s"
    using assms(2,3) by (intro dropWhile_append_stop) auto
  have "split_string d (drop 1 s) = split_string d s"
    using assms(3) by (cases s) auto
  then show ?thesis
    using assms(1) by (subst split_string.simps) (simp add: drop tk dr)
qed

lemma split_string_field [cstring_simps]:
  "t \<noteq> [] \<Longrightarrow> set t \<inter> set d = {} \<Longrightarrow> c \<in> set d \<Longrightarrow>
     split_string d (t @ c # s) = t # split_string d s"
  by (subst split_string_token) auto

lemma split_string_last [cstring_simps]:
  "t \<noteq> [] \<Longrightarrow> set t \<inter> set d = {} \<Longrightarrow> split_string d t = [t]"
  using split_string_token [of t d "[]"] by simp

text \<open>Every token is non-empty and has no delimiter.\<close>

lemma split_string_tokens:
  "t \<in> set (split_string d s) \<Longrightarrow> t \<noteq> [] \<and> set t \<inter> set d = {} \<and> set t \<subseteq> set s"
proof (induction d s rule: split_string.induct)
  case (1 d s)
  define s' where "s' = dropWhile (\<lambda>c. c \<in> set d) s"
  define u where "u = drop 1 (dropWhile (\<lambda>c. c \<notin> set d) s')"
  have sub': "set s' \<subseteq> set s" unfolding s'_def by (rule set_dropWhile_subset)
  have subu: "set u \<subseteq> set s'" unfolding u_def
    by (meson order_trans set_drop_subset set_dropWhile_subset)
  have eq: "split_string d s =
      (if s' = [] then [] else takeWhile (\<lambda>c. c \<notin> set d) s' # split_string d u)"
    by (subst split_string.simps) (simp only: Let_def s'_def u_def)
  from 1(2) eq have ne: "s' \<noteq> []" by auto
  then have hd: "hd s' \<notin> set d"
    using hd_dropWhile [of "\<lambda>c. c \<in> set d" s] unfolding s'_def by blast
  from 1(2) ne eq have "t = takeWhile (\<lambda>c. c \<notin> set d) s' \<or> t \<in> set (split_string d u)"
    by simp
  then show ?case
  proof
    assume t: "t = takeWhile (\<lambda>c. c \<notin> set d) s'"
    have "t \<noteq> []" using ne hd unfolding t by (cases s') auto
    moreover have "set t \<inter> set d = {}" unfolding t by (auto dest: set_takeWhileD)
    moreover have "set t \<subseteq> set s" unfolding t using sub' by (auto dest: set_takeWhileD)
    ultimately show ?thesis by simp
  next
    assume "t \<in> set (split_string d u)"
    with 1(1) [OF s'_def ne] have "t \<noteq> [] \<and> set t \<inter> set d = {} \<and> set t \<subseteq> set u"
      by (simp add: u_def)
    then show ?thesis using subu sub' by auto
  qed
qed

text \<open>Splitting behind a delimiter splits the two parts.\<close>

lemma split_string_append:
  assumes "s2 = [] \<or> hd s2 \<in> set d"
  shows "split_string d (s1 @ s2) = split_string d s1 @ split_string d s2"
proof (induction "length s1" arbitrary: s1 rule: less_induct)
  case less
  show ?case
  proof (cases s1)
    case Nil
    then show ?thesis by simp
  next
    case (Cons c cs)
    show ?thesis
    proof (cases "c \<in> set d")
      case True
      then show ?thesis using less [of cs] Cons by simp
    next
      case False
      let ?t = "takeWhile (\<lambda>c. c \<notin> set d) s1" and ?r = "dropWhile (\<lambda>c. c \<notin> set d) s1"
      have t: "?t \<noteq> []" "set ?t \<inter> set d = {}"
        using False Cons by (auto dest: set_takeWhileD)
      have r: "?r = [] \<or> hd ?r \<in> set d"
        using hd_dropWhile [of "\<lambda>c. c \<notin> set d" s1] by blast
      have r2: "?r @ s2 = [] \<or> hd (?r @ s2) \<in> set d" using r assms by (metis append_Nil hd_append)
      have len: "length ?r < length s1" using False Cons
        by (simp add: le_imp_less_Suc length_dropWhile_le)
      have "split_string d (s1 @ s2) = split_string d (?t @ (?r @ s2))"
        by (simp only: append_assoc [symmetric] takeWhile_dropWhile_id)
      also have "\<dots> = ?t # split_string d (?r @ s2)" using t r2 by (rule split_string_token)
      also have "\<dots> = ?t # split_string d ?r @ split_string d s2" using less [OF len] by simp
      finally have "split_string d (s1 @ s2) = (?t # split_string d ?r) @ split_string d s2" by simp
      moreover have "?t # split_string d ?r = split_string d s1"
        using split_string_token [OF t r] by simp
      ultimately show ?thesis by simp
    qed
  qed
qed

lemma split_string_sep:
  "c \<in> set d \<Longrightarrow> split_string d (s1 @ c # s2) = split_string d s1 @ split_string d s2"
  by (subst split_string_append) auto

text \<open>A list of proper tokens, each followed by a separator, splits back into the list.\<close>

lemma split_string_concat:
  assumes "\<And>t. t \<in> set ts \<Longrightarrow> t \<noteq> [] \<and> set t \<inter> set d = {}" "c \<in> set d"
  shows "split_string d (concat (map (\<lambda>t. t @ [c]) ts)) = ts"
  using assms by (induction ts) (auto simp: split_string_field)

text \<open>A list joined by a separator, and split again.\<close>

fun sep_by :: "char \<Rightarrow> string list \<Rightarrow> string" where
  "sep_by c [] = []"
| "sep_by c [x] = x"
| "sep_by c (x # y # ys) = x @ c # sep_by c (y # ys)"

lemma set_sep_by: "set (sep_by c xs) \<subseteq> insert c (\<Union> (set ` set xs))"
  by (induction c xs rule: sep_by.induct) auto

lemma split_string_sep_by:
  "\<forall>x\<in>set xs. x \<noteq> [] \<and> c \<notin> set x \<Longrightarrow> split_string [c] (sep_by c xs) = xs"
  by (induction c xs rule: sep_by.induct) (auto simp: split_string_field split_string_last)

lemma sep_by_snoc: "sep_by c (xs @ [x]) = (if xs = [] then x else sep_by c xs @ c # x)"
  by (induction c xs rule: sep_by.induct) auto

lemma length_sep_by: "length (sep_by c xs) = sum_list (map length xs) + (length xs - 1)"
  by (induction c xs rule: sep_by.induct) auto

section \<open>Decimal numbers: %d, %ld, atoi, atol\<close>

fun show_nat :: "nat \<Rightarrow> string" where
  "show_nat n = (if n < 10 then [char_of (48 + n)] else show_nat (n div 10) @ [char_of (48 + n mod 10)])"

declare show_nat.simps [simp del]

definition show_int :: "int \<Rightarrow> string" where
  "show_int n = (if n < 0 then CHR ''-'' # show_nat (nat (- n)) else show_nat (nat n))"

definition digits_value :: "string \<Rightarrow> int" where
  "digits_value s = foldl (\<lambda>a c. 10 * a + (of_char c - 48)) 0 (takeWhile isdigit s)"

definition strtol :: "string \<Rightarrow> int" where
  "strtol s = (case dropWhile isspace s of
      [] \<Rightarrow> 0
    | c # r \<Rightarrow> if c = CHR ''-'' then - digits_value r
               else if c = CHR ''+'' then digits_value r
               else digits_value (c # r))"

definition atol :: "string \<Rightarrow> c_long" where
  "atol s = clamp64 (strtol s)"

definition atoi :: "string \<Rightarrow> c_int" where
  "atoi s = wrap32 (atol s)"

lemma isdigit_char_of [simp]: "d < 10 \<Longrightarrow> isdigit (char_of (48 + d :: nat))"
  by (simp add: isdigit_def of_char_of)

lemma of_char_digit: "d < 10 \<Longrightarrow> (of_char (char_of (48 + d :: nat)) :: int) = 48 + int d"
proof -
  assume d: "d < 10"
  have "(of_char (char_of (48 + d)) :: int) = int (of_char (char_of (48 + d)))"
    by (simp only: of_nat_of_char)
  also have "\<dots> = int ((48 + d) mod 256)" by (simp add: of_char_of)
  finally show ?thesis using d by simp
qed

lemma show_nat_digits: "\<forall>c\<in>set (show_nat n). isdigit c"
proof (induction n rule: show_nat.induct)
  case (1 n)
  then show ?case by (subst show_nat.simps) auto
qed

lemma show_nat_not_Nil [simp]: "show_nat n \<noteq> []"
  by (subst show_nat.simps) simp

lemma show_nat_value: "foldl (\<lambda>a c. 10 * a + (of_char c - 48)) 0 (show_nat n) = int n"
proof (induction n rule: show_nat.induct)
  case (1 n)
  show ?case
  proof (cases "n < 10")
    case True
    then show ?thesis by (subst show_nat.simps) (simp add: of_char_digit)
  next
    case False
    then have "foldl (\<lambda>a c. 10 * a + (of_char c - 48)) 0 (show_nat n) =
        10 * int (n div 10) + int (n mod 10)"
      using 1 by (subst show_nat.simps) (simp add: of_char_digit)
    then show ?thesis using mult_div_mod_eq [of 10 n] by linarith
  qed
qed

lemma digits_value_show_nat:
  "s = [] \<or> \<not> isdigit (hd s) \<Longrightarrow> digits_value (show_nat n @ s) = int n"
proof -
  assume "s = [] \<or> \<not> isdigit (hd s)"
  then have "takeWhile isdigit (show_nat n @ s) = show_nat n"
    using show_nat_digits by (intro takeWhile_append_stop) auto
  then show ?thesis by (simp add: digits_value_def show_nat_value)
qed

lemma isdigit_not_special:
  assumes "isdigit c"
  shows "\<not> isspace c" "c \<noteq> CHR ''-''" "c \<noteq> CHR ''+''" "c \<noteq> CHR '' ''" "c \<noteq> CHR ''|''" "c \<noteq> CHR '';''"
    "c \<noteq> CHR '',''" "c \<noteq> CHR '':''" "c \<noteq> CHR 0x0A" "c \<noteq> CHR 0x0D" "c \<noteq> CHR 0x00"
  using assms by (auto simp: isdigit_def isspace_def)

lemma show_int_chars: "c \<in> set (show_int n) \<Longrightarrow> isdigit c \<or> c = CHR ''-''"
  using show_nat_digits by (auto simp: show_int_def split: if_splits)

lemma show_int_not_Nil [simp]: "show_int n \<noteq> []"
  by (simp add: show_int_def)

text \<open>A printed number has none of the separators of the program's records and messages.\<close>

lemma show_int_no_separator [simp]:
  "CHR '' '' \<notin> set (show_int n)" "CHR ''|'' \<notin> set (show_int n)" "CHR '';'' \<notin> set (show_int n)"
  "CHR '','' \<notin> set (show_int n)" "CHR '':'' \<notin> set (show_int n)"
  "CHR 0x0A \<notin> set (show_int n)" "CHR 0x0D \<notin> set (show_int n)" "CHR 0x00 \<notin> set (show_int n)"
  by (auto dest!: show_int_chars simp: isdigit_def)

lemma strtol_show_int: "s = [] \<or> \<not> isdigit (hd s) \<Longrightarrow> strtol (show_int n @ s) = n"
proof -
  assume s: "s = [] \<or> \<not> isdigit (hd s)"
  show ?thesis
  proof (cases "n < 0")
    case True
    have "\<not> isspace (CHR ''-'')" by (simp add: isspace_def)
    then show ?thesis using True s digits_value_show_nat [of s "nat (- n)"]
      by (simp add: strtol_def show_int_def)
  next
    case False
    obtain c r where cr: "show_nat (nat n) = c # r" by (cases "show_nat (nat n)") auto
    then have "isdigit c" using show_nat_digits [of "nat n"] by simp
    then show ?thesis using False s digits_value_show_nat [of s "nat n"] cr
      by (simp add: strtol_def show_int_def isdigit_not_special)
  qed
qed

text \<open>
  Reading back a printed number, also when other text follows it.
\<close>

lemma atol_show_int [simp]: "is_int64 n \<Longrightarrow> atol (show_int n) = n"
  using strtol_show_int [of "[]" n] by (simp add: atol_def)

lemma atoi_show_int [simp]: "is_int32 n \<Longrightarrow> atoi (show_int n) = n"
  by (simp add: atoi_def is_int32_imp_64)

lemma is_int32_atoi [simp]: "is_int32 (atoi s)"
  by (simp add: atoi_def)

lemma is_int64_atol [simp]: "is_int64 (atol s)"
  by (simp add: atol_def)

end
