(* ===== verification/Sockets.thy ===== *)
theory Sockets
  imports C_Strings
begin

text \<open>
  \<^verbatim>\<open>send_message\<close> and \<^verbatim>\<open>recv_message\<close> of \<^verbatim>\<open>src/common/common.c\<close> over a connected TCP stream. The
  stream is the bytes sent and not yet received; a receive takes a non-empty piece of them, of a
  size the network chooses, at most \<open>BUFFER_SIZE - 1\<close>. There is no framing: \<open>byte_stream\<close> is all
  a reader may rely on, the bytes and their order.
\<close>

section \<open>The code\<close>

text \<open>\<open>send(sock, message, strlen(message), 0)\<close>.\<close>

definition send_message :: "string \<Rightarrow> string \<Rightarrow> string" where
  "send_message stream message = stream @ cstr message"

text \<open>\<open>recv_message\<close> when \<open>k\<close> bytes are there to be taken (at least one, or none at all when the
  peer has closed): what it leaves in the buffer, and the rest of the stream.\<close>

definition recv_message :: "nat \<Rightarrow> string \<Rightarrow> string \<times> string" where
  "recv_message k stream =
     (let n = min (max 1 k) (BUFFER_SIZE - 1) in (take n stream, drop n stream))"

text \<open>A loop \<open>while (recv_message(sock, buffer) > 0)\<close> on a stream whose sender has closed: \<open>sizes\<close>
  are the sizes the network chooses, full buffers once they run out.\<close>

function recv_all :: "nat list \<Rightarrow> string \<Rightarrow> string list" where
  "recv_all sizes stream =
     (case recv_message (case sizes of [] \<Rightarrow> BUFFER_SIZE | k # _ \<Rightarrow> k) stream of
        (m, rest) \<Rightarrow> if m = [] then [] else m # recv_all (tl sizes) rest)"
  by pat_completeness auto
termination
  by (relation "measure (\<lambda>(sizes, stream). length stream)") (auto simp: recv_message_def Let_def)

declare recv_all.simps [simp del]

section \<open>The interface\<close>

locale byte_stream =
  fixes send :: "'s \<Rightarrow> string \<Rightarrow> 's" and recv :: "nat list \<Rightarrow> 's \<Rightarrow> string list"
    and bytes :: "'s \<Rightarrow> string"
  assumes bytes_send: "bytes (send s m) = bytes s @ cstr m"
    and concat_recv: "concat (recv ks s) = bytes s"
begin

text \<open>What the reader gets in all is what the writer sent in all, however the network cuts it.\<close>

lemma bytes_send_all: "bytes (foldl send s ms) = bytes s @ concat (map cstr ms)"
  by (induction ms arbitrary: s) (simp_all add: bytes_send)

lemma received_all: "concat (recv ks (foldl send s ms)) = bytes s @ concat (map cstr ms)"
  by (simp add: concat_recv bytes_send_all)

lemma cut_independent: "concat (recv ks s) = concat (recv js s)"
  by (simp add: concat_recv)

end

lemma concat_recv_all: "concat (recv_all sizes stream) = stream"
proof (induction sizes stream rule: recv_all.induct)
  case (1 sizes stream)
  show ?case
    by (subst recv_all.simps, cases stream)
      (use 1 in \<open>auto simp: recv_message_def Let_def split: list.splits\<close>)
qed

lemma recv_all_pieces: "m \<in> set (recv_all sizes stream) \<Longrightarrow> m \<noteq> [] \<and> length m < BUFFER_SIZE"
proof (induction sizes stream rule: recv_all.induct)
  case (1 sizes stream)
  show ?case
    using 1(2) by (subst (asm) recv_all.simps)
      (use 1(1) in \<open>auto simp: recv_message_def Let_def split: if_splits list.splits\<close>)
qed

interpretation tcp: byte_stream send_message recv_all "\<lambda>s. s"
  by unfold_locales (simp_all add: send_message_def concat_recv_all)

text \<open>Every cut into pieces of at most a buffer is possible.\<close>

lemma recv_all_cut:
  "\<forall>m\<in>set ms. m \<noteq> [] \<and> length m < BUFFER_SIZE \<Longrightarrow> recv_all (map length ms) (concat ms) = ms"
proof (induction ms)
  case Nil
  show ?case by (subst recv_all.simps) (simp add: recv_message_def Let_def)
next
  case (Cons m ms)
  then have "0 < length m" "length m < BUFFER_SIZE" by auto
  then have "min (max 1 (length m)) (BUFFER_SIZE - 1) = length m" by (cases m) auto
  then show ?case using Cons
    by (subst recv_all.simps) (simp add: recv_message_def Let_def)
qed

lemma recv_all_Nil [simp]: "recv_all sizes [] = []"
  by (subst recv_all.simps) (simp add: recv_message_def Let_def)

end
