(* ===== verification/Client.thy ===== *)
theory Client
  imports Sockets
begin

text \<open>
  The client program (\<^verbatim>\<open>src/client/client.c\<close>, \<^verbatim>\<open>client_net.c\<close>): the command loop, the dispatch
  between name server and storage server, and the four sessions with a storage server. A
  function returns what the client does, in order, and the standard input it has not read; the
  messages \<open>perror\<close> adds are left out.

  \<open>ClientEnv\<close> is the world outside during one command: which messages the name server answers
  with, which addresses accept a connection, and the messages a storage server answers with,
  given all messages sent on the connection so far.
\<close>

section \<open>The environment\<close>

record ClientEnv =
  ce_nm :: "string \<Rightarrow> string list"
  ce_connect :: "string \<Rightarrow> c_int \<Rightarrow> bool"
  ce_ss :: "string \<Rightarrow> c_int \<Rightarrow> string list \<Rightarrow> string list"

datatype client_act = Print string | Warn string | SendNM string | SendSS string

record Client =
  cl_username :: string

definition client_create :: "string \<Rightarrow> Client option" where
  "client_create user = map_option (\<lambda>u. \<lparr>cl_username = u\<rparr>) (strncpy_raw (MAX_USERNAME_LEN - 1) user)"

section \<open>Storage server sessions\<close>

text \<open>The address the name server gave, and the connection to it.\<close>

definition client_connect :: "ClientEnv \<Rightarrow> string \<Rightarrow> (client_act list, string \<times> c_int) sum" where
  "client_connect env ss_addr =
     (let parts = split_string '':'' ss_addr
      in if length parts \<noteq> 2
         then Inl [Warn (''Invalid SS address from NM: '' @ ss_addr @ [CHR 0x0A])]
         else if \<not> ce_connect env (parts ! 0) (atoi (parts ! 1))
         then Inl [Warn (''Failed to connect to Storage Server.'' @ [CHR 0x0A])]
         else Inr (parts ! 0, atoi (parts ! 1)))"

text \<open>The messages a loop \<open>while (recv_message(...) > 0)\<close> sees.\<close>

definition until_closed :: "string list \<Rightarrow> string list" where
  "until_closed ms = takeWhile (\<lambda>m. m \<noteq> []) ms"

definition client_handle_read :: "ClientEnv \<Rightarrow> string \<Rightarrow> string \<Rightarrow> client_act list" where
  "client_handle_read env ss_addr filename =
     (case client_connect env ss_addr of
        Inl acts \<Rightarrow> acts
      | Inr (ip, port) \<Rightarrow>
          let req = snprintf BUFFER_SIZE (''READ '' @ filename)
          in SendSS req # map (\<lambda>m. Print (cstr m)) (until_closed (ce_ss env ip port [req])) @ [Print [CHR 0x0A]])"

definition client_handle_stream :: "ClientEnv \<Rightarrow> string \<Rightarrow> string \<Rightarrow> client_act list" where
  "client_handle_stream env ss_addr filename =
     (case client_connect env ss_addr of
        Inl acts \<Rightarrow> acts
      | Inr (ip, port) \<Rightarrow>
          let req = snprintf BUFFER_SIZE (''STREAM '' @ filename)
          in SendSS req # map (\<lambda>m. Print (cstr m)) (until_closed (ce_ss env ip port [req])) @ [Print [CHR 0x0A]])"

text \<open>One receive: the \<open>n\<close>-th message, nothing when the connection is closed before it.\<close>

definition nth_message :: "nat \<Rightarrow> string list \<Rightarrow> string" where
  "nth_message n ms = (if n < length ms then ms ! n else [])"

text \<open>The interactive loop over the standard input: what it does, and the input left. Every line goes
  to the server, the end mark included.\<close>

fun write_loop :: "string list \<Rightarrow> client_act list \<times> string list" where
  "write_loop [] = ([Print ''WRITE > ''], [])"
| "write_loop (l # ls) =
     (let line = trim_newline (cstr l)
      in if line = []
         then (case write_loop ls of (acts, rest) \<Rightarrow> (Print ''WRITE > '' # acts, rest))
         else if line = ''ETIRW'' then ([Print ''WRITE > '', SendSS line], ls)
         else (case write_loop ls of (acts, rest) \<Rightarrow> (Print ''WRITE > '' # SendSS line # acts, rest)))"

text \<open>The messages on the storage server connection.\<close>

fun sent_to_ss :: "client_act list \<Rightarrow> string list" where
  "sent_to_ss [] = []"
| "sent_to_ss (SendSS m # acts) = m # sent_to_ss acts"
| "sent_to_ss (Print m # acts) = sent_to_ss acts"
| "sent_to_ss (Warn m # acts) = sent_to_ss acts"
| "sent_to_ss (SendNM m # acts) = sent_to_ss acts"

definition write_banner :: "c_int \<Rightarrow> string" where
  "write_banner sent_num =
     ''Entering WRITE mode for sentence '' @ show_int sent_num @ ''. Type '' @ [CHR 0x27] @
     ''<word_idx> <content>'' @ [CHR 0x27] @ '' or '' @ [CHR 0x27] @ ''ETIRW'' @ [CHR 0x27] @
     '' to finish.'' @ [CHR 0x0A]"

definition client_handle_write ::
  "ClientEnv \<Rightarrow> string \<Rightarrow> string \<Rightarrow> c_int \<Rightarrow> string list \<Rightarrow> client_act list \<times> string list" where
  "client_handle_write env ss_addr filename sent_num stdin =
     (case client_connect env ss_addr of
        Inl acts \<Rightarrow> (acts, stdin)
      | Inr (ip, port) \<Rightarrow>
          let req = snprintf BUFFER_SIZE (''WRITE '' @ filename @ '' '' @ show_int sent_num);
              ack = nth_message 0 (ce_ss env ip port [req])
          in if ack = []
             then ([SendSS req, Warn (''SS disconnected or failed to send ACK.'' @ [CHR 0x0A])], stdin)
             else if \<not> starts_with ''202 ACK_WRITE'' (cstr ack)
             then ([SendSS req, Print (cstr ack @ [CHR 0x0A])], stdin)
             else case write_loop stdin of (acts, rest) \<Rightarrow>
               let final = nth_message 1 (ce_ss env ip port (req # sent_to_ss acts))
               in (SendSS req #
                   Print (write_banner sent_num) #
                   acts @
                   [if final \<noteq> [] then Print (cstr final @ [CHR 0x0A])
                    else Warn (''Failed to get final response from SS.'' @ [CHR 0x0A])], rest))"

definition client_handle_undo :: "ClientEnv \<Rightarrow> string \<Rightarrow> string \<Rightarrow> client_act list" where
  "client_handle_undo env ss_addr filename =
     (case client_connect env ss_addr of
        Inl acts \<Rightarrow> acts
      | Inr (ip, port) \<Rightarrow>
          let req = snprintf BUFFER_SIZE (''UNDO '' @ filename);
              reply = nth_message 0 (ce_ss env ip port [req])
          in SendSS req # (if reply \<noteq> [] then [Print (cstr reply @ [CHR 0x0A])] else []))"

section \<open>One command\<close>

text \<open>The loop of EXEC over the name server's messages.\<close>

fun exec_loop :: "string list \<Rightarrow> client_act list" where
  "exec_loop [] = []"
| "exec_loop (m # ms) =
     (let nm_response = cstr m
      in if m = [] then []
         else if starts_with ''201 OK: Execution finished.'' nm_response then []
         else if list_ex (\<lambda>code. starts_with code nm_response) [''400'', ''401'', ''404'', ''500'', ''503'']
         then [Print (nm_response @ [CHR 0x0A])]
         else Print nm_response # exec_loop ms)"

text \<open>\<open>NameServerGone\<close> is \<open>exit(1)\<close>.\<close>

datatype client_status = Continue | NameServerGone

definition client_parse_and_execute ::
  "ClientEnv \<Rightarrow> string \<Rightarrow> string list \<Rightarrow> client_act list \<times> string list \<times> client_status" where
  "client_parse_and_execute env input stdin =
     (let args = split_string '' '' input; cmd = args ! 0
      in if args = [] then ([], stdin, Continue)
         else if cmd = ''READ'' \<or> cmd = ''STREAM'' \<or> cmd = ''WRITE'' \<or> cmd = ''UNDO'' then
           if length args < 2
           then ([Print (''Usage: '' @ cmd @ '' <filename> [args...]'' @ [CHR 0x0A])], stdin, Continue)
           else
             let reply = nth_message 0 (ce_nm env input); nm_response = cstr reply; filename = args ! 1
             in if reply = []
                then ([SendNM input, Warn (''Name Server disconnected.'' @ [CHR 0x0A])], stdin, NameServerGone)
                else if starts_with ''202 OK'' nm_response then
                  let ss_addr = drop 7 nm_response
                  in if cmd = ''READ''
                     then (SendNM input # client_handle_read env ss_addr filename, stdin, Continue)
                     else if cmd = ''STREAM''
                     then (SendNM input # client_handle_stream env ss_addr filename, stdin, Continue)
                     else if cmd = ''WRITE'' then
                       (if length args < 3
                        then ([SendNM input, Print (''Usage: WRITE <filename> <sentence_number>'' @ [CHR 0x0A])],
                              stdin, Continue)
                        else case client_handle_write env ss_addr filename (atoi (args ! 2)) stdin of
                               (acts, rest) \<Rightarrow> (SendNM input # acts, rest, Continue))
                     else (SendNM input # client_handle_undo env ss_addr filename, stdin, Continue)
                else ([SendNM input, Print (nm_response @ [CHR 0x0A])], stdin, Continue)
         else if cmd = ''EXEC'' then (SendNM input # exec_loop (ce_nm env input), stdin, Continue)
         else
           let reply = nth_message 0 (ce_nm env input)
           in if reply = []
              then ([SendNM input, Warn (''Name Server disconnected.'' @ [CHR 0x0A])], stdin, NameServerGone)
              else ([SendNM input, Print (cstr reply @ [CHR 0x0A])], stdin, Continue))"

section \<open>The loop and the program\<close>

lemma write_loop_rest: "length (snd (write_loop ls)) \<le> length ls"
  by (induction ls) (auto simp: Let_def split: prod.splits)

lemma client_handle_write_rest: "length (snd (client_handle_write env a f n ls)) \<le> length ls"
  using write_loop_rest [of ls]
  by (auto simp: client_handle_write_def Let_def split: sum.splits prod.splits)

lemma client_parse_rest: "length (fst (snd (client_parse_and_execute env input ls))) \<le> length ls"
  using client_handle_write_rest
  by (auto simp: client_parse_and_execute_def Let_def split: prod.splits) (metis snd_conv)+

definition loop_prompt :: "Client \<Rightarrow> client_act" where
  "loop_prompt client = Print (''LangOS ('' @ cl_username client @ '') > '')"

text \<open>\<open>stdin\<close> is the list of pieces \<open>fgets\<close> reads, \<open>env k\<close> the world during the \<open>k\<close>-th command.\<close>

function client_command_loop ::
  "(nat \<Rightarrow> ClientEnv) \<Rightarrow> nat \<Rightarrow> Client \<Rightarrow> string list \<Rightarrow> client_act list \<times> client_status" where
  "client_command_loop env k client stdin =
     (case stdin of
        [] \<Rightarrow> ([loop_prompt client], Continue)
      | l # ls \<Rightarrow>
          let input = trim_newline (cstr l)
          in if input = [] then
               (case client_command_loop env k client ls of (acts, st) \<Rightarrow> (loop_prompt client # acts, st))
             else if input = ''exit'' \<or> input = ''quit'' then ([loop_prompt client], Continue)
             else (case client_parse_and_execute (env k) input ls of
                 (acts, rest, NameServerGone) \<Rightarrow> (loop_prompt client # acts, NameServerGone)
               | (acts, rest, Continue) \<Rightarrow>
                   (case client_command_loop env (k + 1) client rest of
                      (acts', st) \<Rightarrow> (loop_prompt client # acts @ acts', st))))"
  by pat_completeness auto
termination
  by (relation "measure (\<lambda>(env, k, client, stdin). length stdin)")
    (auto simp: less_Suc_eq_le, metis client_parse_rest fst_conv snd_conv)

declare client_command_loop.simps [simp del]

text \<open>\<open>connected\<close>: whether the connection to the name server is made.\<close>

definition client_run :: "bool \<Rightarrow> (nat \<Rightarrow> ClientEnv) \<Rightarrow> Client \<Rightarrow> string \<Rightarrow> string list \<Rightarrow> client_act list" where
  "client_run connected env client nm_ip stdin =
     (if \<not> connected
      then [Warn (''Failed to connect to Name Server at '' @ nm_ip @ '':8000.'' @ [CHR 0x0A])]
      else [SendNM (snprintf BUFFER_SIZE (''INIT_CLIENT '' @ cl_username client)),
            Print (''Connected to Name Server as '' @ [CHR 0x27] @ cl_username client @ [CHR 0x27] @ ''.'' @ [CHR 0x0A])] @
           fst (client_command_loop env 0 client stdin))"

text \<open>The program: the user name is the first piece of the input, of at most 255 bytes.\<close>

definition client_main :: "bool \<Rightarrow> (nat \<Rightarrow> ClientEnv) \<Rightarrow> string \<Rightarrow> string list \<Rightarrow> (client_act list \<times> c_int) option" where
  "client_main connected env nm_ip stdin =
     (case stdin of
        [] \<Rightarrow> Some ([Print ''Enter your username: ''], 1)
      | l # ls \<Rightarrow>
          let username = trim_newline (cstr l)
          in if username = []
             then Some ([Print ''Enter your username: '', Warn (''Username cannot be empty.'' @ [CHR 0x0A])], 1)
             else map_option (\<lambda>client. (Print ''Enter your username: '' # client_run connected env client nm_ip ls,
                  if connected \<and> snd (client_command_loop env 0 client ls) = NameServerGone then 1 else 0))
                (client_create username))"

end
