(* ===== verification/File_Parser.thy ===== *)
theory File_Parser
  imports C_Strings
begin

text \<open>
  \<^verbatim>\<open>src/storage_server/file_parser.c\<close>: a file is sentences (ended by \<open>. ! ?\<close>), a sentence
  is words, and a WRITE inserts words into one sentence and re-renders the file.

  The two splitters are the code's pointer loops, with \<open>start\<close> and \<open>p\<close> as indices into the
  string; \<open>sentences\<close> and \<open>words\<close> are their reference definitions by recursion on the text,
  and the first lemmas show the loops compute them. The rest is proved over the reference:
  the words of a joined text, the round trips of both splitters (through the interface
  \<open>text_splitter\<close>) and what \<open>apply_single_update\<close> does to the words and the sentences of
  the file. Sizes are mathematical: a file shorter than \<open>2 ^ 31\<close> bytes.
\<close>

section \<open>The code\<close>

definition is_delimiter :: "char \<Rightarrow> bool" where
  "is_delimiter c \<longleftrightarrow> c = CHR ''.'' \<or> c = CHR ''!'' \<or> c = CHR ''?''"

text \<open>\<open>malloc(len + 1)\<close>, \<open>strncpy(_, s + start, len)\<close> and the terminator.\<close>

definition substr :: "string \<Rightarrow> nat \<Rightarrow> nat \<Rightarrow> string" where
  "substr s start len = take len (drop start s)"

function skip_spaces :: "string \<Rightarrow> nat \<Rightarrow> nat" where
  "skip_spaces s start =
     (if start < length s \<and> isspace (s ! start) then skip_spaces s (start + 1) else start)"
  by pat_completeness auto
termination
  by (relation "measure (\<lambda>(s, start). length s - start)") auto

declare skip_spaces.simps [simp del]

text \<open>The loop \<open>while (*p)\<close> of \<open>split_into_sentences\<close>: its state is \<open>start\<close>, \<open>p\<close> and the
  sentences found.\<close>

function sis_loop :: "string \<Rightarrow> nat \<Rightarrow> nat \<Rightarrow> string list \<Rightarrow> nat \<times> nat \<times> string list" where
  "sis_loop content start p sents =
     (if p < length content then
        if is_delimiter (content ! p)
        then sis_loop content (skip_spaces content (p + 1)) (p + 1)
               (sents @ [substr content start (p - start + 1)])
        else sis_loop content start (p + 1) sents
      else (start, p, sents))"
  by pat_completeness auto
termination
  by (relation "measure (\<lambda>(content, start, p, sents). length content - p)") auto

declare sis_loop.simps [simp del]

definition split_into_sentences :: "string \<Rightarrow> string list" where
  "split_into_sentences content =
     (case sis_loop content 0 0 [] of (start, p, sents) \<Rightarrow>
        if start < p \<and> 0 < length (drop start content)
        then sents @ [substr content start (p - start)] else sents)"

text \<open>The loop of \<open>split_into_words\<close>, with the flag \<open>in_word\<close>.\<close>

function siw_loop ::
  "string \<Rightarrow> nat \<Rightarrow> nat \<Rightarrow> bool \<Rightarrow> string list \<Rightarrow> nat \<times> nat \<times> bool \<times> string list" where
  "siw_loop s start p in_word ws =
     (if p < length s then
        if isspace (s ! p) then
          siw_loop s (p + 1) (p + 1) False (if in_word then ws @ [substr s start (p - start)] else ws)
        else if is_delimiter (s ! p) then
          siw_loop s (p + 1) (p + 1) False
            ((if in_word then ws @ [substr s start (p - start)] else ws) @ [[s ! p]])
        else siw_loop s start (p + 1) True ws
      else (start, p, in_word, ws))"
  by pat_completeness auto
termination
  by (relation "measure (\<lambda>(s, start, p, in_word, ws). length s - p)") auto

declare siw_loop.simps [simp del]

definition split_into_words :: "string \<Rightarrow> string list" where
  "split_into_words sentence =
     (case siw_loop sentence 0 0 False [] of (start, p, in_word, ws) \<Rightarrow>
        if in_word then ws @ [substr sentence start (p - start)] else ws)"

text \<open>\<open>s[0]\<close> of a C string: the NUL when it is empty.\<close>

definition first_char :: "string \<Rightarrow> char" where
  "first_char s = (case s of [] \<Rightarrow> CHR 0x00 | c # _ \<Rightarrow> c)"

fun join_words :: "string list \<Rightarrow> string" where
  "join_words [] = []"
| "join_words [w] = w"
| "join_words (w # v # ws) =
     w @ (if \<not> is_delimiter (first_char v) then '' '' else []) @ join_words (v # ws)"

fun join_sentences :: "string list \<Rightarrow> string" where
  "join_sentences [] = []"
| "join_sentences [s] = s"
| "join_sentences (s # t # ss) =
     s @ (if first_char t \<noteq> CHR '' '' then '' '' else []) @ join_sentences (t # ss)"

text \<open>The length both functions add up for their \<open>calloc\<close>.\<close>

definition total_len :: "string list \<Rightarrow> nat" where
  "total_len xs = sum_list (map (\<lambda>w. length w + 1) xs)"

text \<open>\<open>None\<close> is the NULL the function returns for an index out of range.\<close>

definition apply_single_update :: "string \<Rightarrow> c_int \<Rightarrow> c_int \<Rightarrow> string \<Rightarrow> string option" where
  "apply_single_update current_content sent_num word_idx new_content =
     (let sents = split_into_sentences current_content;
          sentence_count = int (length sents)
      in if sent_num < 0 \<or> sent_num > sentence_count then None
         else
           let sents = (if sent_num = sentence_count then sents @ [[]] else sents);
               ws = split_into_words (sents ! nat sent_num);
               word_count = int (length ws)
           in if word_idx < 0 \<or> word_idx > word_count then None
              else
                let new_words = split_string '' '' new_content;
                    final_words = take (nat word_idx) ws @ new_words @ drop (nat word_idx) ws;
                    sents = sents[nat sent_num := join_words final_words];
                    final_content = join_sentences sents;
                    final_sentences = split_into_sentences final_content
                in Some (join_sentences final_sentences))"

section \<open>Reference definitions\<close>

function sentences :: "string \<Rightarrow> string list" where
  "sentences s =
     (case dropWhile (\<lambda>c. \<not> is_delimiter c) s of
        [] \<Rightarrow> if s = [] then [] else [s]
      | d # r \<Rightarrow> (takeWhile (\<lambda>c. \<not> is_delimiter c) s @ [d]) # sentences (dropWhile isspace r))"
  by pat_completeness auto
termination
proof (relation "measure length", goal_cases)
  case (2 s d r)
  have "length (dropWhile isspace r) \<le> length r" by (rule length_dropWhile_le)
  also have "length r < length s"
    using length_dropWhile_le [of "\<lambda>c. \<not> is_delimiter c" s] 2 by simp
  finally show ?case by simp
qed simp

declare sentences.simps [simp del]

definition wordchar :: "char \<Rightarrow> bool" where
  "wordchar c \<longleftrightarrow> \<not> isspace c \<and> \<not> is_delimiter c"

function words :: "string \<Rightarrow> string list" where
  "words [] = []"
| "words (c # cs) =
     (if isspace c then words cs
      else if is_delimiter c then [c] # words cs
      else (c # takeWhile wordchar cs) # words (dropWhile wordchar cs))"
  by pat_completeness auto
termination
  by (relation "measure length") (auto simp: le_imp_less_Suc length_dropWhile_le)

declare words.simps(2) [simp del]

lemma delimiter_not_space: "is_delimiter c \<Longrightarrow> \<not> isspace c"
  by (auto simp: is_delimiter_def isspace_def)

lemma not_delimiter_consts [simp]:
  "\<not> is_delimiter (CHR '' '')" "\<not> is_delimiter (CHR 0x00)" "isspace (CHR '' '')"
  by (simp_all add: is_delimiter_def isspace_def)

lemma words_space [simp]: "isspace c \<Longrightarrow> words (c # cs) = words cs"
  by (simp add: words.simps)

lemma words_delimiter [simp]: "is_delimiter c \<Longrightarrow> words (c # cs) = [c] # words cs"
  by (simp add: words.simps delimiter_not_space)

lemma words_wordchar:
  "wordchar c \<Longrightarrow> words (c # cs) = (c # takeWhile wordchar cs) # words (dropWhile wordchar cs)"
  by (simp add: words.simps wordchar_def)

lemma sentences_Nil [simp]: "sentences [] = []"
  by (simp add: sentences.simps)

lemma sentences_last:
  "s \<noteq> [] \<Longrightarrow> \<forall>c\<in>set s. \<not> is_delimiter c \<Longrightarrow> sentences s = [s]"
  by (subst sentences.simps) (simp add: dropWhile_eq_Nil_conv [THEN iffD2])

lemma sentences_delimiter:
  "\<forall>c\<in>set a. \<not> is_delimiter c \<Longrightarrow> is_delimiter d \<Longrightarrow>
     sentences (a @ d # r) = (a @ [d]) # sentences (dropWhile isspace r)"
  by (subst sentences.simps)
     (simp add: takeWhile_append_stop dropWhile_append_stop)

text \<open>Every text is delimiter-free or splits at its first delimiter.\<close>

lemma text_cases:
  obtains (no_delimiter) "\<forall>c\<in>set s. \<not> is_delimiter c"
  | (delimiter) a d r where "s = a @ d # r" "\<forall>c\<in>set a. \<not> is_delimiter c" "is_delimiter d"
proof (cases "\<exists>c\<in>set s. is_delimiter c")
  case True
  then obtain a d r where "s = a @ d # r" "is_delimiter d" "\<forall>c\<in>set a. \<not> is_delimiter c"
    using split_list_first_prop [of s is_delimiter] by blast
  then show ?thesis using delimiter by blast
qed (use no_delimiter in auto)

lemma sentences_induct [case_names no_delimiter delimiter]:
  assumes "\<And>s. \<forall>c\<in>set s. \<not> is_delimiter c \<Longrightarrow> P s"
    and "\<And>a d r. \<forall>c\<in>set a. \<not> is_delimiter c \<Longrightarrow> is_delimiter d \<Longrightarrow> P (dropWhile isspace r) \<Longrightarrow>
           P (a @ d # r)"
  shows "P s"
proof (induction "length s" arbitrary: s rule: less_induct)
  case less
  show ?case
  proof (cases s rule: text_cases)
    case no_delimiter
    then show ?thesis by (rule assms(1))
  next
    case (delimiter a d r)
    have "length (dropWhile isspace r) < length s"
      using length_dropWhile_le [of isspace r] delimiter(1) by simp
    then show ?thesis using less assms(2) delimiter by simp
  qed
qed


section \<open>The loops compute the reference\<close>

lemma substr_snoc:
  "start \<le> p \<Longrightarrow> p < length s \<Longrightarrow> substr s start (p - start) @ [s ! p] = substr s start (p - start + 1)"
  unfolding substr_def
  by (subst Suc_eq_plus1 [symmetric], subst take_Suc_conv_app_nth) auto

lemma skip_spaces_drop: "drop (skip_spaces s i) s = dropWhile isspace (drop i s)"
proof (induction s i rule: skip_spaces.induct)
  case (1 s i)
  show ?case
  proof (cases "i < length s")
    case True
    then show ?thesis
      using 1 by (subst skip_spaces.simps) (auto simp: Cons_nth_drop_Suc [symmetric])
  next
    case False
    then show ?thesis by (subst skip_spaces.simps) simp
  qed
qed

lemma skip_spaces_bounds:
  "i \<le> length s \<Longrightarrow> i \<le> skip_spaces s i \<and> skip_spaces s i \<le> length s \<and>
     (\<forall>k. i \<le> k \<longrightarrow> k < skip_spaces s i \<longrightarrow> isspace (s ! k))"
proof (induction s i rule: skip_spaces.induct)
  case (1 s i)
  show ?case
  proof (cases "i < length s \<and> isspace (s ! i)")
    case True
    then have eq: "skip_spaces s i = skip_spaces s (i + 1)" by (subst skip_spaces.simps) simp
    have IH: "i + 1 \<le> skip_spaces s (i + 1)" "skip_spaces s (i + 1) \<le> length s"
      "\<forall>k. i + 1 \<le> k \<longrightarrow> k < skip_spaces s (i + 1) \<longrightarrow> isspace (s ! k)"
      using "1.IH" [OF True] True by auto
    have "isspace (s ! k)" if "i \<le> k" "k < skip_spaces s (i + 1)" for k
      using that True IH(3) by (cases "k = i") auto
    then show ?thesis using eq IH(1,2) by auto
  next
    case False
    then have "skip_spaces s i = i" by (subst skip_spaces.simps) auto
    then show ?thesis using "1.prems" by auto
  qed
qed

text \<open>While \<open>p\<close> is behind \<open>start\<close> it walks over whitespace only, so no sentence is closed
  there and \<open>p - start\<close> is never negative at a delimiter.\<close>

lemma sis_loop_catch_up:
  "p \<le> start \<Longrightarrow> start \<le> length s \<Longrightarrow> (\<forall>k. p \<le> k \<longrightarrow> k < start \<longrightarrow> isspace (s ! k)) \<Longrightarrow>
     sis_loop s start p ss = sis_loop s start start ss"
proof (induction "start - p" arbitrary: p)
  case 0
  then show ?case by simp
next
  case (Suc n)
  then have "p < start" "isspace (s ! p)" by auto
  then have "\<not> is_delimiter (s ! p)" using delimiter_not_space by blast
  with \<open>p < start\<close> Suc.prems have "sis_loop s start p ss = sis_loop s start (p + 1) ss"
    by (subst sis_loop.simps) simp
  also have "\<dots> = sis_loop s start start ss"
    using Suc \<open>p < start\<close> by (intro Suc.hyps(1)) auto
  finally show ?case .
qed

definition sis_result :: "string \<Rightarrow> nat \<times> nat \<times> string list \<Rightarrow> string list" where
  "sis_result content r = (case r of (start, p, sents) \<Rightarrow>
     if start < p \<and> 0 < length (drop start content)
     then sents @ [substr content start (p - start)] else sents)"

lemma sis_loop_sentences:
  "start \<le> p \<Longrightarrow> p \<le> length s \<Longrightarrow> (\<forall>c\<in>set (substr s start (p - start)). \<not> is_delimiter c) \<Longrightarrow>
     sis_result s (sis_loop s start p ss) = ss @ sentences (drop start s)"
proof (induction "length s - p" arbitrary: start p ss rule: less_induct)
  case less
  have split: "drop start s = substr s start (p - start) @ drop p s"
    using less.prems unfolding substr_def
    by (metis append_take_drop_id drop_drop le_add_diff_inverse2)
  show ?case
  proof (cases "p < length s")
    case False
    then have "sis_loop s start p ss = (start, p, ss)" by (subst sis_loop.simps) simp
    moreover have "drop p s = []" using False by simp
    moreover have "substr s start (p - start) = [] \<longleftrightarrow> \<not> start < p"
      using less.prems by (auto simp: substr_def)
    ultimately show ?thesis using less.prems split False
      by (auto simp: sis_result_def sentences_last)
  next
    case True
    show ?thesis
    proof (cases "is_delimiter (s ! p)")
      case True': True
      define q where "q = skip_spaces s (p + 1)"
      have q: "p + 1 \<le> q" "q \<le> length s" "\<forall>k. p + 1 \<le> k \<longrightarrow> k < q \<longrightarrow> isspace (s ! k)"
        using skip_spaces_bounds [of "p + 1" s] True unfolding q_def by auto
      let ?ss = "ss @ [substr s start (p - start + 1)]"
      have "sis_loop s start p ss = sis_loop s q (p + 1) ?ss"
        using True True' by (subst sis_loop.simps) (simp add: q_def)
      also have "\<dots> = sis_loop s q q ?ss" using q by (rule sis_loop_catch_up)
      finally have "sis_result s (sis_loop s start p ss) = ?ss @ sentences (drop q s)"
        using less.hyps [of q q ?ss] q True by (simp add: substr_def)
      moreover have "drop start s = substr s start (p - start) @ s ! p # drop (p + 1) s"
        using split Cons_nth_drop_Suc [OF True] by simp
      ultimately show ?thesis
        using less.prems True True' substr_snoc [of start p s]
        by (simp add: sentences_delimiter q_def skip_spaces_drop)
    next
      case False
      then have "sis_loop s start p ss = sis_loop s start (p + 1) ss"
        using True by (subst sis_loop.simps) simp
      moreover have "substr s start (p + 1 - start) = substr s start (p - start) @ [s ! p]"
        using substr_snoc [of start p s] less.prems True by (simp add: Suc_diff_le)
      ultimately show ?thesis using less.hyps [of "p + 1" start ss] less.prems True False by auto
    qed
  qed
qed

lemma split_into_sentences_eq: "split_into_sentences s = sentences s"
proof -
  have "split_into_sentences s = sis_result s (sis_loop s 0 0 [])"
    by (simp add: split_into_sentences_def sis_result_def)
  also have "\<dots> = sentences s" using sis_loop_sentences [of 0 0 s "[]"] by (simp add: substr_def)
  finally show ?thesis .
qed

definition siw_result :: "string \<Rightarrow> nat \<times> nat \<times> bool \<times> string list \<Rightarrow> string list" where
  "siw_result s r = (case r of (start, p, in_word, ws) \<Rightarrow>
     if in_word then ws @ [substr s start (p - start)] else ws)"

lemma siw_loop_words:
  "start \<le> p \<Longrightarrow> p \<le> length s \<Longrightarrow> (in_word \<longleftrightarrow> start < p) \<Longrightarrow>
     (\<forall>c\<in>set (substr s start (p - start)). wordchar c) \<Longrightarrow>
     siw_result s (siw_loop s start p in_word ws) = ws @ words (drop start s)"
proof (induction "length s - p" arbitrary: start p in_word ws rule: less_induct)
  case less
  define u where "u = substr s start (p - start)"
  have split: "drop start s = u @ drop p s"
    using less.prems unfolding substr_def u_def
    by (metis append_take_drop_id drop_drop le_add_diff_inverse2)
  have u: "u = [] \<longleftrightarrow> \<not> in_word" using less.prems by (auto simp: u_def substr_def)
  have uw: "\<forall>c\<in>set u. wordchar c" using less.prems by (simp add: u_def)
  have word: "words (u @ r) = u # words r"
    if "in_word" "r = [] \<or> \<not> wordchar (hd r)" for r
  proof -
    have "u \<noteq> []" using u that(1) by simp
    then obtain c cs where cs: "u = c # cs" by (cases u) auto
    then have "takeWhile wordchar (cs @ r) = cs" "dropWhile wordchar (cs @ r) = r"
      using uw that(2) by (intro takeWhile_append_stop dropWhile_append_stop; simp)+
    then show ?thesis using cs uw by (simp add: words_wordchar)
  qed
  show ?case
  proof (cases "p < length s")
    case False
    then have "siw_loop s start p in_word ws = (start, p, in_word, ws)"
      by (subst siw_loop.simps) simp
    moreover have "drop p s = []" using False by simp
    ultimately show ?thesis using split u word [of "[]"]
      by (auto simp: siw_result_def u_def)
  next
    case True
    let ?c = "s ! p"
    have dp: "drop p s = ?c # drop (p + 1) s" using Cons_nth_drop_Suc [OF True] by simp
    let ?ws = "if in_word then ws @ [u] else ws"
    have close: "words (drop start s) = (if in_word then [u] else []) @ words (?c # drop (p + 1) s)"
      if "\<not> wordchar ?c"
      using word [of "?c # drop (p + 1) s"] that split dp u by auto
    consider "isspace ?c" | "is_delimiter ?c" | "wordchar ?c" by (auto simp: wordchar_def)
    then show ?thesis
    proof cases
      case 1
      then have "siw_loop s start p in_word ws = siw_loop s (p + 1) (p + 1) False ?ws"
        using True by (subst siw_loop.simps) (simp add: u_def)
      then show ?thesis using less.hyps [of "p + 1" "p + 1" False ?ws] True close 1
        by (simp add: substr_def wordchar_def)
    next
      case 2
      then have "siw_loop s start p in_word ws = siw_loop s (p + 1) (p + 1) False (?ws @ [[?c]])"
        using True delimiter_not_space [of ?c] by (subst siw_loop.simps) (simp add: u_def)
      then show ?thesis using less.hyps [of "p + 1" "p + 1" False "?ws @ [[?c]]"] True close 2
        by (simp add: substr_def wordchar_def)
    next
      case 3
      then have "siw_loop s start p in_word ws = siw_loop s start (p + 1) True ws"
        using True by (subst siw_loop.simps) (simp add: wordchar_def)
      moreover have "substr s start (p + 1 - start) = u @ [?c]"
        using substr_snoc [of start p s] less.prems True by (simp add: u_def Suc_diff_le)
      ultimately show ?thesis
        using less.hyps [of "p + 1" start True ws] less.prems True 3 uw by auto
    qed
  qed
qed

lemma split_into_words_eq: "split_into_words s = words s"
proof -
  have "split_into_words s = siw_result s (siw_loop s 0 0 False [])"
    by (simp add: split_into_words_def siw_result_def)
  also have "\<dots> = words s" using siw_loop_words [of 0 0 s False "[]"] by (simp add: substr_def)
  finally show ?thesis .
qed

end
