(* ===== verification/Text_Splitting.thy ===== *)
theory Text_Splitting
  imports File_Parser
begin

text \<open>
  The contract between a splitter and its joiner, as the interface \<open>text_splitter\<close>: splitting
  gives well-formed units, and joining well-formed units is undone by splitting. Its lemmas
  (re-splitting a rendered text changes nothing, rendering is idempotent) are proved once and
  hold of both levels of the file format: sentences of a file and words of a sentence.

  Below it, the words of a joined text and of the sentences of a text: the facts that make
  the WRITE operation an insertion into the word sequence of the file.
\<close>

section \<open>The interface\<close>

locale text_splitter =
  fixes split :: "string \<Rightarrow> string list"
    and join :: "string list \<Rightarrow> string"
    and wf :: "string list \<Rightarrow> bool"
  assumes split_wf: "wf (split s)"
    and split_join: "wf xs \<Longrightarrow> split (join xs) = xs"
begin

lemma resplit: "split (join (split s)) = split s"
  by (rule split_join [OF split_wf])

lemma render_idem: "join (split (join (split s))) = join (split s)"
  by (simp add: resplit)

lemma join_inject: "wf xs \<Longrightarrow> wf ys \<Longrightarrow> join xs = join ys \<longleftrightarrow> xs = ys"
  by (metis split_join)

lemma render_eq_iff: "join (split s) = join (split t) \<longleftrightarrow> split s = split t"
  by (rule join_inject [OF split_wf split_wf])

end

section \<open>Words\<close>

definition word_ok :: "string \<Rightarrow> bool" where
  "word_ok w \<longleftrightarrow> (w \<noteq> [] \<and> (\<forall>c\<in>set w. wordchar c)) \<or> (\<exists>d. w = [d] \<and> is_delimiter d)"

lemma word_ok_not_Nil: "word_ok w \<Longrightarrow> w \<noteq> []"
  by (auto simp: word_ok_def)

lemma words_word_ok: "w \<in> set (words s) \<Longrightarrow> word_ok w"
proof (induction s rule: words.induct)
  case (2 c cs)
  consider "isspace c" | "is_delimiter c" | "\<not> isspace c" "\<not> is_delimiter c" by blast
  then show ?case
  proof cases
    case 1
    then show ?thesis using 2 by simp
  next
    case 2
    then show ?thesis using "2.IH"(2) "2.prems" delimiter_not_space [OF 2]
      by (auto simp: word_ok_def)
  next
    case 3
    then have "wordchar c" by (simp add: wordchar_def)
    then have "w = c # takeWhile wordchar cs \<or> w \<in> set (words (dropWhile wordchar cs))"
      using "2.prems" by (simp add: words_wordchar)
    moreover have "word_ok (c # takeWhile wordchar cs)"
      unfolding word_ok_def using \<open>wordchar c\<close> by (auto dest: set_takeWhileD)
    ultimately show ?thesis using "2.IH"(3) [OF 3] by blast
  qed
qed simp

lemma words_wordchars: "\<forall>x\<in>set (c # cs). wordchar x \<Longrightarrow> words (c # cs) = [c # cs]"
  by (simp add: words_wordchar takeWhile_all dropWhile_all)

lemma words_of_word: "word_ok w \<Longrightarrow> words w = [w]"
  unfolding word_ok_def using words_wordchars by (cases w) auto

lemma words_append:
  "a = [] \<or> b = [] \<or> \<not> (wordchar (last a) \<and> wordchar (hd b)) \<Longrightarrow>
     words (a @ b) = words a @ words b"
proof (induction a rule: words.induct)
  case (2 c cs)
  show ?case
  proof (cases "wordchar c")
    case False
    then have "isspace c \<or> is_delimiter c" by (simp add: wordchar_def)
    moreover have "cs = [] \<or> b = [] \<or> \<not> (wordchar (last cs) \<and> wordchar (hd b))"
      using "2.prems" by (cases cs) auto
    ultimately show ?thesis using 2 delimiter_not_space [of c] by (cases "isspace c") auto
  next
    case c: True
    then have nc: "\<not> isspace c" "\<not> is_delimiter c" by (auto simp: wordchar_def)
    show ?thesis
    proof (cases "\<forall>x\<in>set cs. wordchar x")
      case True
      then have "wordchar (last (c # cs))" using c by (cases cs) auto
      then have "b = [] \<or> \<not> wordchar (hd b)" using "2.prems" by auto
      then have "takeWhile wordchar (cs @ b) = cs" "dropWhile wordchar (cs @ b) = b"
        using True by (intro takeWhile_append_stop dropWhile_append_stop; simp)+
      then show ?thesis using c True
        by (simp add: words_wordchar takeWhile_all dropWhile_all)
    next
      case False
      let ?r = "dropWhile wordchar cs"
      have tw: "takeWhile wordchar (cs @ b) = takeWhile wordchar cs"
        "dropWhile wordchar (cs @ b) = ?r @ b"
        using False by (auto simp: takeWhile_append1 dropWhile_append1)
      have "?r \<noteq> []" "cs \<noteq> []" using False by auto
      then have "last ?r = last (c # cs)"
        using last_appendR [of ?r "takeWhile wordchar cs"]
        by (simp only: takeWhile_dropWhile_id last.simps if_False not_False_eq_True)
      then have "?r = [] \<or> b = [] \<or> \<not> (wordchar (last ?r) \<and> wordchar (hd b))"
        using "2.prems" by auto
      then show ?thesis using "2.IH"(3) [OF nc] c tw by (simp add: words_wordchar)
    qed
  qed
qed simp

lemma words_lstrip [simp]: "words (dropWhile isspace s) = words s"
  by (induction s) auto

lemma words_space_sep: "words (a @ '' '' @ b) = words a @ words b"
  by (subst words_append) (auto simp: wordchar_def)

lemma hd_join_words: "v \<noteq> [] \<Longrightarrow> join_words (v # ws) \<noteq> [] \<and> hd (join_words (v # ws)) = hd v"
  by (cases ws) auto

lemma hd_join_sentences:
  "t \<noteq> [] \<Longrightarrow> join_sentences (t # ss) \<noteq> [] \<and> hd (join_sentences (t # ss)) = hd t"
  by (cases ss) auto

lemma first_char_eq: "first_char v = c \<Longrightarrow> c \<noteq> CHR 0x00 \<Longrightarrow> v \<noteq> [] \<and> hd v = c"
  by (auto simp: first_char_def split: list.splits)

text \<open>No joiner ever glues two words together.\<close>

lemma words_join_words: "words (join_words ws) = concat (map words ws)"
proof (induction ws rule: join_words.induct)
  case (3 w v ws)
  show ?case
  proof (cases "is_delimiter (first_char v)")
    case True
    then have "v \<noteq> []" "is_delimiter (hd v)" by (auto simp: first_char_def split: list.splits)
    then have "\<not> wordchar (hd (join_words (v # ws)))"
      using hd_join_words [of v ws] by (simp add: wordchar_def)
    then show ?thesis using 3 True by (simp add: words_append)
  next
    case False
    then show ?thesis using 3 words_space_sep [of w] by simp
  qed
qed simp_all

lemma words_join_sentences: "words (join_sentences ss) = concat (map words ss)"
proof (induction ss rule: join_sentences.induct)
  case (3 s t ss)
  show ?case
  proof (cases "first_char t = CHR '' ''")
    case True
    then have "t \<noteq> []" "hd t = CHR '' ''" by (auto dest: first_char_eq)
    then have "\<not> wordchar (hd (join_sentences (t # ss)))"
      using hd_join_sentences [of t ss] by (simp add: wordchar_def)
    then show ?thesis using 3 True by (simp add: words_append)
  next
    case False
    then show ?thesis using 3 words_space_sep [of s] by simp
  qed
qed simp_all

text \<open>Cutting a text into sentences, or at its blanks, cuts its word sequence.\<close>

lemma words_sentences: "concat (map words (sentences s)) = words s"
proof (induction s rule: sentences_induct)
  case (no_delimiter s)
  then show ?case by (cases "s = []") (auto simp: sentences_last)
next
  case (delimiter a d r)
  have "words ((a @ [d]) @ r) = words (a @ [d]) @ words r"
    using delimiter by (intro words_append) (simp add: wordchar_def)
  then show ?case using delimiter by (simp add: sentences_delimiter)
qed

lemma words_tokens: "concat (map words (split_string '' '' s)) = words s"
proof (induction "length s" arbitrary: s rule: less_induct)
  case less
  show ?case
  proof (cases s)
    case (Cons c cs)
    show ?thesis
    proof (cases "c = CHR '' ''")
      case True
      then show ?thesis using less [of cs] Cons by simp
    next
      case False
      let ?P = "\<lambda>c. c \<notin> set '' ''"
      let ?t = "takeWhile ?P s" and ?r = "dropWhile ?P s"
      have t: "?t \<noteq> []" "set ?t \<inter> set '' '' = {}" using False Cons by (auto dest: set_takeWhileD)
      have r: "?r = [] \<or> hd ?r \<in> set '' ''" using hd_dropWhile [of ?P s] by blast
      have "length ?r < length s" using False Cons by (simp add: le_imp_less_Suc length_dropWhile_le)
      then have "concat (map words (split_string '' '' (?t @ ?r))) = words ?t @ words ?r"
        using less split_string_token [OF t r] by simp
      also have "\<dots> = words (?t @ ?r)"
        using r by (intro words_append [symmetric]) (auto simp: wordchar_def)
      finally show ?thesis by (simp only: takeWhile_dropWhile_id)
    qed
  qed simp
qed

lemma concat_words_words: "concat (map words (words s)) = words s"
proof -
  have "map words (words s) = map (\<lambda>w. [w]) (words s)"
    by (rule map_cong) (auto simp: words_of_word words_word_ok)
  then show ?thesis by (simp only: concat_map_singleton list.map_ident)
qed

lemma concat_map_words_ok: "\<forall>w\<in>set ws. word_ok w \<Longrightarrow> concat (map words ws) = ws"
  by (induction ws) (auto simp: words_of_word)

section \<open>Sentences\<close>

text \<open>
  A sentence has its delimiter, if any, at the end; every sentence but the last has one; and
  only the first may start with whitespace.
\<close>

definition sentence_ok :: "string \<Rightarrow> bool" where
  "sentence_ok s \<longleftrightarrow> s \<noteq> [] \<and> (\<forall>c\<in>set (butlast s). \<not> is_delimiter c)"

definition terminated :: "string \<Rightarrow> bool" where
  "terminated s \<longleftrightarrow> s \<noteq> [] \<and> is_delimiter (last s)"

fun wf_sentences :: "string list \<Rightarrow> bool" where
  "wf_sentences [] = True"
| "wf_sentences [s] = sentence_ok s"
| "wf_sentences (s # t # ss) =
     (sentence_ok s \<and> terminated s \<and> \<not> isspace (hd t) \<and> wf_sentences (t # ss))"

lemma sentence_ok_not_Nil: "sentence_ok s \<Longrightarrow> s \<noteq> []"
  by (simp add: sentence_ok_def)

lemma wf_sentences_ok: "wf_sentences ss \<Longrightarrow> s \<in> set ss \<Longrightarrow> sentence_ok s"
  by (induction ss rule: wf_sentences.induct) auto

lemma hd_sentences:
  "s \<noteq> [] \<Longrightarrow> sentences s \<noteq> [] \<and> hd (sentences s) \<noteq> [] \<and> hd (hd (sentences s)) = hd s"
proof (cases s rule: text_cases)
  case (delimiter a d r)
  then have "sentences s = (a @ [d]) # sentences (dropWhile isspace r)"
    by (simp add: sentences_delimiter)
  then show ?thesis using delimiter(1) by (cases a) auto
qed (simp add: sentences_last)

lemma terminated_snoc [simp]: "is_delimiter d \<Longrightarrow> terminated (a @ [d])"
  by (simp add: terminated_def)

lemma hd_lstrip: "dropWhile isspace r \<noteq> [] \<Longrightarrow> \<not> isspace (hd (dropWhile isspace r))"
  using hd_dropWhile by blast

lemma wf_sentences_Cons:
  "sentence_ok s \<Longrightarrow> (ss = [] \<or> terminated s \<and> \<not> isspace (hd (hd ss)) \<and> wf_sentences ss) \<Longrightarrow>
     wf_sentences (s # ss)"
  by (cases ss) auto

lemma wf_sentences_sentences: "wf_sentences (sentences s)"
proof (induction s rule: sentences_induct)
  case (no_delimiter s)
  then show ?case
    by (cases "s = []") (auto simp: sentences_last sentence_ok_def dest: in_set_butlastD)
next
  case (delimiter a d r)
  let ?r = "dropWhile isspace r"
  have "sentence_ok (a @ [d])" using delimiter by (auto simp: sentence_ok_def)
  moreover have "sentences ?r = [] \<or> \<not> isspace (hd (hd (sentences ?r)))"
    using hd_sentences [of ?r] hd_lstrip [of r] sentences_Nil by metis
  ultimately show ?case using delimiter
    by (auto simp: sentences_delimiter intro!: wf_sentences_Cons)
qed

text \<open>A terminated first sentence is split off with the whitespace behind it.\<close>

lemma sentences_terminated:
  "sentence_ok s \<Longrightarrow> terminated s \<Longrightarrow> sentences (s @ r) = s # sentences (dropWhile isspace r)"
proof -
  assume "sentence_ok s" "terminated s"
  then have "s = butlast s @ [last s]" "\<forall>c\<in>set (butlast s). \<not> is_delimiter c" "is_delimiter (last s)"
    by (auto simp: sentence_ok_def terminated_def)
  then show ?thesis using sentences_delimiter [of "butlast s" "last s" r] by (metis append.assoc append_Cons append_Nil)
qed

lemma sentences_sentence: "sentence_ok s \<Longrightarrow> sentences s = [s]"
proof (cases "terminated s")
  case True
  then show "sentence_ok s \<Longrightarrow> ?thesis" using sentences_terminated [of s "[]"] by simp
next
  case False
  assume ok: "sentence_ok s"
  then have "s = butlast s @ [last s]" by (simp add: sentence_ok_def)
  then have "\<forall>c\<in>set s. \<not> is_delimiter c"
    using ok False unfolding sentence_ok_def terminated_def
    by (metis Un_iff empty_iff empty_set set_ConsD set_append)
  then show ?thesis using ok by (simp add: sentences_last sentence_ok_def)
qed

lemma sentences_join_sentences: "wf_sentences ss \<Longrightarrow> sentences (join_sentences ss) = ss"
proof (induction ss rule: join_sentences.induct)
  case (3 s t ss)
  have t: "t \<noteq> []" "\<not> isspace (hd t)" using 3 wf_sentences_ok [of "t # ss" t]
    by (auto simp: sentence_ok_def)
  then have "first_char t \<noteq> CHR '' ''" by (auto simp: first_char_def split: list.splits)
  moreover have "dropWhile isspace (join_sentences (t # ss)) = join_sentences (t # ss)"
    using hd_join_sentences [OF t(1)] t(2) by (simp add: dropWhile_hd_stop)
  ultimately show ?case using 3 by (simp add: sentences_terminated)
qed (simp_all add: sentences_sentence)

lemma words_join_ok: "\<forall>w\<in>set ws. word_ok w \<Longrightarrow> words (join_words ws) = ws"
  by (simp add: words_join_words concat_map_words_ok)

section \<open>Both levels of the file format\<close>

interpretation file_text: text_splitter split_into_sentences join_sentences wf_sentences
  by unfold_locales
    (simp_all add: split_into_sentences_eq wf_sentences_sentences sentences_join_sentences)

interpretation sentence_text: text_splitter split_into_words join_words "\<lambda>ws. \<forall>w\<in>set ws. word_ok w"
  by unfold_locales (auto simp: split_into_words_eq words_join_ok words_word_ok)

end
