(* ===== verification/File_Update.thy ===== *)
theory File_Update
  imports Text_Splitting
begin

text \<open>
  What \<open>apply_single_update\<close> (\<^verbatim>\<open>src/storage_server/file_parser.c\<close>) promises to a WRITE:
  which indices it refuses, that on the word sequence of the file it is an insertion, that the
  sentences around the edited one keep their text, and that the joiners stay inside the
  buffers they allocate.
\<close>

section \<open>The shape of a successful update\<close>

text \<open>The sentences the update works on (with the empty one appended), and the edited sentence.\<close>

definition target_sentences :: "string \<Rightarrow> c_int \<Rightarrow> string list" where
  "target_sentences content sent_num =
     (if sent_num = int (length (sentences content)) then sentences content @ [[]]
      else sentences content)"

definition edited_sentence :: "string \<Rightarrow> c_int \<Rightarrow> c_int \<Rightarrow> string \<Rightarrow> string" where
  "edited_sentence content sent_num word_idx new_content =
     (let ws = words (target_sentences content sent_num ! nat sent_num)
      in join_words (take (nat word_idx) ws @ split_string '' '' new_content @ drop (nat word_idx) ws))"

definition update_in_range :: "string \<Rightarrow> c_int \<Rightarrow> c_int \<Rightarrow> bool" where
  "update_in_range content sent_num word_idx \<longleftrightarrow>
     0 \<le> sent_num \<and> sent_num \<le> int (length (sentences content)) \<and> 0 \<le> word_idx \<and>
     word_idx \<le> int (length (words (target_sentences content sent_num ! nat sent_num)))"

lemma apply_single_update_eq:
  "apply_single_update content n w new =
     (if update_in_range content n w
      then Some (join_sentences (sentences (join_sentences
             ((target_sentences content n)[nat n := edited_sentence content n w new]))))
      else None)"
  unfolding apply_single_update_def update_in_range_def target_sentences_def edited_sentence_def
  by (simp add: split_into_sentences_eq split_into_words_eq Let_def)

lemma apply_single_update_Some:
  "apply_single_update content n w new = Some r \<Longrightarrow> update_in_range content n w \<and>
     r = join_sentences (sentences (join_sentences
           ((target_sentences content n)[nat n := edited_sentence content n w new])))"
  by (simp add: apply_single_update_eq split: if_splits)

lemma length_target_sentences:
  "update_in_range content n w \<Longrightarrow> nat n < length (target_sentences content n)"
  by (auto simp: update_in_range_def target_sentences_def)

lemma target_sentences_split:
  assumes "update_in_range content n w"
  defines "ss \<equiv> sentences content" and "s \<equiv> target_sentences content n ! nat n"
  shows "(target_sentences content n)[nat n := x] = take (nat n) ss @ [x] @ drop (Suc (nat n)) ss"
    "concat (map words ss) =
       concat (map words (take (nat n) ss)) @ words s @ concat (map words (drop (Suc (nat n)) ss))"
proof -
  let ?n = "nat n"
  have len: "?n < length (target_sentences content n)" using assms(1) by (rule length_target_sentences)
  show "(target_sentences content n)[?n := x] = take ?n ss @ [x] @ drop (Suc ?n) ss"
    using len unfolding target_sentences_def ss_def by (auto simp: upd_conv_take_nth_drop)
  show "concat (map words ss) =
      concat (map words (take ?n ss)) @ words s @ concat (map words (drop (Suc ?n) ss))"
  proof (cases "n = int (length ss)")
    case True
    then show ?thesis by (simp add: s_def target_sentences_def ss_def)
  next
    case False
    then have "s = ss ! ?n" "?n < length ss" using len
      by (simp_all add: s_def target_sentences_def ss_def)
    then have "ss = take ?n ss @ s # drop (Suc ?n) ss" by (simp add: id_take_nth_drop)
    then show ?thesis by (metis concat.simps(2) concat_append list.simps(9) map_append)
  qed
qed

lemma words_edited_sentence:
  "words (edited_sentence content n w new) =
     (let ws = words (target_sentences content n ! nat n)
      in take (nat w) ws @ words new @ drop (nat w) ws)"
proof -
  let ?ws = "words (target_sentences content n ! nat n)"
  have "\<forall>x\<in>set (take (nat w) ?ws). word_ok x" "\<forall>x\<in>set (drop (nat w) ?ws). word_ok x"
    by (auto dest!: in_set_takeD in_set_dropD simp: words_word_ok)
  then show ?thesis
    by (simp add: edited_sentence_def Let_def words_join_words concat_map_words_ok words_tokens)
qed

section \<open>On words, an update is an insertion\<close>

text \<open>The position of word \<open>word_idx\<close> of sentence \<open>sent_num\<close> in the word sequence of the file.\<close>

definition word_position :: "string \<Rightarrow> c_int \<Rightarrow> c_int \<Rightarrow> nat" where
  "word_position content sent_num word_idx =
     length (concat (map split_into_words (take (nat sent_num) (split_into_sentences content)))) +
     nat word_idx"

lemma word_position_eq:
  "word_position content n w = length (concat (map words (take (nat n) (sentences content)))) + nat w"
  by (simp add: word_position_def split_into_sentences_eq split_into_words_eq [abs_def])

lemma insert_at_middle:
  "k \<le> length b \<Longrightarrow> take (length a + k) (a @ b @ c) @ x @ drop (length a + k) (a @ b @ c) =
     a @ (take k b @ x @ drop k b) @ c"
  by simp

lemma update_words:
  assumes "apply_single_update content n w new = Some r"
  shows "words r = take (word_position content n w) (words content) @ words new @
    drop (word_position content n w) (words content)"
proof -
  let ?ss = "sentences content" and ?s = "target_sentences content n ! nat n"
  let ?A = "concat (map words (take (nat n) ?ss))" and ?C = "concat (map words (drop (Suc (nat n)) ?ss))"
  from apply_single_update_Some [OF assms] have rng: "update_in_range content n w"
    and r: "r = join_sentences (sentences (join_sentences
      ((target_sentences content n)[nat n := edited_sentence content n w new])))" by auto
  have W: "words content = ?A @ words ?s @ ?C"
    using target_sentences_split(2) [OF rng] words_sentences [of content] by simp
  have "words r = concat (map words
      ((target_sentences content n)[nat n := edited_sentence content n w new]))"
    by (simp add: r words_join_sentences words_sentences)
  also have "\<dots> = ?A @ (take (nat w) (words ?s) @ words new @ drop (nat w) (words ?s)) @ ?C"
    by (simp add: target_sentences_split(1) [OF rng] words_edited_sentence Let_def)
  also have "\<dots> = take (length ?A + nat w) (?A @ words ?s @ ?C) @ words new @
      drop (length ?A + nat w) (?A @ words ?s @ ?C)"
    using rng by (intro insert_at_middle [symmetric]) (auto simp: update_in_range_def)
  finally show ?thesis by (simp add: W word_position_eq)
qed

section \<open>The sentences around the edited one\<close>

lemma sentences_append_terminated:
  "terminated a \<Longrightarrow> sentences (a @ r) = sentences a @ sentences (dropWhile isspace r)"
proof (induction a rule: sentences_induct)
  case (no_delimiter s)
  then show ?case by (auto simp: terminated_def)
next
  case (delimiter a d q)
  show ?case
  proof (cases "q = []")
    case True
    then show ?thesis using delimiter by (simp add: sentences_delimiter)
  next
    case False
    then have lq: "is_delimiter (last q)" using delimiter.prems by (simp add: terminated_def)
    then have ex: "\<exists>x\<in>set q. \<not> isspace x" using False delimiter_not_space last_in_set by blast
    then have lst: "dropWhile isspace (q @ r) = dropWhile isspace q @ r"
      by (auto simp: dropWhile_append1)
    have ne: "dropWhile isspace q \<noteq> []" using ex by auto
    then have "last (dropWhile isspace q) = last q"
      using last_appendR [of "dropWhile isspace q" "takeWhile isspace q"] by simp
    then have "terminated (dropWhile isspace q)" using ne lq by (simp add: terminated_def)
    then show ?thesis using delimiter lst by (simp add: sentences_delimiter)
  qed
qed

lemma lstrip_sep [simp]: "dropWhile isspace ((if b then '' '' else []) @ s) = dropWhile isspace s"
  by simp

lemma lstrip_idem [simp]: "dropWhile isspace (dropWhile isspace s) = dropWhile isspace s"
  by (induction s) auto

lemma sentences_join_Cons:
  "terminated a \<Longrightarrow>
     sentences (join_sentences (a # ss)) = sentences a @ sentences (dropWhile isspace (join_sentences ss))"
  using sentences_append_terminated [of a "[]"]
  by (cases ss) (simp_all add: sentences_append_terminated)

lemma wf_sentences_tail_lstrip:
  assumes "wf_sentences (s # ss)"
  shows "sentences (dropWhile isspace (join_sentences ss)) = ss"
proof (cases ss)
  case (Cons t ts)
  with assms have t: "wf_sentences ss" "\<not> isspace (hd t)" "t \<noteq> []"
    using wf_sentences_ok [of ss t] by (auto simp: sentence_ok_def)
  then have "dropWhile isspace (join_sentences ss) = join_sentences ss"
    using hd_join_sentences [of t ts] Cons by (simp add: dropWhile_hd_stop)
  then show ?thesis using t by (simp add: sentences_join_sentences)
qed simp

text \<open>Complete sentences in front of any text stay as they are.\<close>

lemma sentences_join_prefix:
  assumes "wf_sentences ps" "\<forall>p\<in>set ps. terminated p" "ps \<noteq> []"
  shows "sentences (join_sentences (ps @ q)) = ps @ sentences (dropWhile isspace (join_sentences q))"
  using assms
proof (induction ps)
  case (Cons p ps)
  have ok: "sentences p = [p]" using Cons.prems wf_sentences_ok [of "p # ps" p]
    by (simp add: sentences_sentence)
  have eq: "sentences (join_sentences (p # ps @ q)) =
      p # sentences (dropWhile isspace (join_sentences (ps @ q)))"
    using Cons.prems ok by (simp add: sentences_join_Cons)
  show ?case
  proof (cases ps)
    case Nil
    then show ?thesis using eq by simp
  next
    case (Cons t ts)
    with Cons.prems have t: "wf_sentences ps" "\<not> isspace (hd t)" "t \<noteq> []"
      using wf_sentences_ok [of ps t] by (auto simp: sentence_ok_def)
    then have "dropWhile isspace (join_sentences (ps @ q)) = join_sentences (ps @ q)"
      using hd_join_sentences [of t "ts @ q"] Cons by (simp add: dropWhile_hd_stop)
    then show ?thesis using eq Cons.IH Cons.prems t Cons by simp
  qed
qed simp

lemma wf_sentences_Cons_iff:
  "wf_sentences (s # ss) \<longleftrightarrow> sentence_ok s \<and>
     (ss = [] \<or> terminated s \<and> \<not> isspace (hd (hd ss)) \<and> wf_sentences ss)"
  by (cases ss) auto

lemma wf_sentences_take: "wf_sentences ss \<Longrightarrow> wf_sentences (take n ss)"
proof (induction ss arbitrary: n)
  case (Cons s ss)
  show ?case
  proof (cases n)
    case (Suc m)
    then show ?thesis using Cons unfolding wf_sentences_Cons_iff take_Suc_Cons
      by (cases m) (auto intro!: wf_sentences_Cons simp: hd_take)
  qed simp
qed simp

lemma wf_sentences_drop: "wf_sentences ss \<Longrightarrow> wf_sentences (drop n ss)"
proof (induction ss arbitrary: n rule: wf_sentences.induct)
  case (3 s t ss)
  then show ?case by (cases n) auto
qed (auto simp: drop_Cons')

lemma wf_sentences_terminated:
  "wf_sentences ss \<Longrightarrow> i + 1 < length ss \<Longrightarrow> terminated (ss ! i)"
proof (induction ss arbitrary: i rule: wf_sentences.induct)
  case (3 s t ss)
  then show ?case by (cases i) auto
qed auto

lemma take_terminated:
  assumes "wf_sentences ss" "n < length ss"
  shows "\<forall>p\<in>set (take n ss). terminated p"
proof
  fix p assume "p \<in> set (take n ss)"
  then obtain i where "i < n" "p = ss ! i" using assms(2) by (auto simp: in_set_conv_nth)
  then show "terminated p" using wf_sentences_terminated [OF assms(1), of i] assms(2) by simp
qed


text \<open>The text of the edited sentence and everything behind it, as the re-parse sees it.\<close>

definition lstrip_if :: "bool \<Rightarrow> string \<Rightarrow> string" where
  "lstrip_if b s = (if b then dropWhile isspace s else s)"

lemma update_sentences:
  assumes "apply_single_update content n w new = Some r"
    and "nat n < length (sentences content)"
  shows "sentences r = take (nat n) (sentences content) @
    sentences (lstrip_if (0 < nat n)
      (join_sentences (edited_sentence content n w new # drop (Suc (nat n)) (sentences content))))"
proof -
  let ?ss = "sentences content" and ?e = "edited_sentence content n w new" and ?n = "nat n"
  let ?q = "?e # drop (Suc ?n) ?ss"
  from apply_single_update_Some [OF assms(1)] have rng: "update_in_range content n w"
    and r: "r = join_sentences (sentences (join_sentences (take ?n ?ss @ ?q)))"
    by (auto simp: target_sentences_split(1))
  have "sentences r = sentences (join_sentences (take ?n ?ss @ ?q))"
    unfolding r by (simp add: sentences_join_sentences wf_sentences_sentences)
  also have "\<dots> = take ?n ?ss @ sentences (lstrip_if (0 < ?n) (join_sentences ?q))"
  proof (cases "?n = 0")
    case False
    then have "take ?n ?ss \<noteq> []" using assms(2) by auto
    then show ?thesis using False
      by (simp add: lstrip_if_def sentences_join_prefix wf_sentences_take wf_sentences_sentences
          take_terminated [OF wf_sentences_sentences assms(2)])
  qed (simp add: lstrip_if_def)
  finally show ?thesis .
qed

lemma last_join_words: "ws \<noteq> [] \<Longrightarrow> last ws \<noteq> [] \<Longrightarrow> join_words ws \<noteq> [] \<and> last (join_words ws) = last (last ws)"
  by (induction ws rule: join_words.induct) auto

lemma last_words_terminated:
  assumes "terminated s"
  shows "words s \<noteq> [] \<and> last (words s) = [last s]"
proof -
  from assms have s: "s = butlast s @ [last s]" "is_delimiter (last s)" by (auto simp: terminated_def)
  have "words (butlast s @ [last s]) = words (butlast s) @ words [last s]"
    using s(2) by (intro words_append) (simp add: wordchar_def)
  then show ?thesis using s by (metis last_snoc snoc_eq_iff_butlast words.simps(1) words_delimiter)
qed

text \<open>An insertion in front of the closing delimiter leaves the sentence complete.\<close>

lemma terminated_edited_sentence:
  assumes "nat n < length (sentences content)" "0 \<le> n"
    and "terminated (sentences content ! nat n)"
    and "nat w < length (split_into_words (sentences content ! nat n))"
  shows "terminated (edited_sentence content n w new)"
proof -
  let ?s = "sentences content ! nat n"
  have t: "target_sentences content n ! nat n = ?s" using assms(1) by (auto simp: target_sentences_def)
  have w: "nat w < length (words ?s)" using assms(4) by (simp add: split_into_words_eq)
  let ?ws = "take (nat w) (words ?s) @ split_string '' '' new @ drop (nat w) (words ?s)"
  have "drop (nat w) (words ?s) \<noteq> []" using w by simp
  then have l: "?ws \<noteq> []" "last ?ws = [last ?s]"
    using last_words_terminated [OF assms(3)] w by auto
  then have "edited_sentence content n w new = join_words ?ws"
    by (simp add: edited_sentence_def t Let_def)
  then show ?thesis using last_join_words [OF l(1)] l(2) assms(3) by (simp add: terminated_def)
qed

lemma lstrip_terminated_append:
  assumes "terminated a"
  shows "dropWhile isspace (a @ r) = dropWhile isspace a @ r" "terminated (dropWhile isspace a)"
proof -
  have ex: "\<exists>x\<in>set a. \<not> isspace x"
    using assms delimiter_not_space last_in_set unfolding terminated_def by blast
  then show "dropWhile isspace (a @ r) = dropWhile isspace a @ r" by (auto simp: dropWhile_append1)
  have "dropWhile isspace a \<noteq> []" using ex by auto
  moreover from this have "last (dropWhile isspace a) = last a"
    using last_appendR [of "dropWhile isspace a" "takeWhile isspace a"] by simp
  ultimately show "terminated (dropWhile isspace a)" using assms by (simp add: terminated_def)
qed

lemma sentences_lstrip_join:
  assumes "terminated a"
  shows "sentences (lstrip_if b (join_sentences (a # ss))) =
    sentences (lstrip_if b a) @ sentences (dropWhile isspace (join_sentences ss))"
proof (cases ss)
  case Nil
  then show ?thesis by (cases b) (simp_all add: lstrip_if_def)
next
  case (Cons t ts)
  then show ?thesis
    by (cases b) (simp_all add: lstrip_if_def sentences_append_terminated assms
        lstrip_terminated_append)
qed

lemma sentences_terminated_not_Nil: "terminated s \<Longrightarrow> sentences (dropWhile isspace s) \<noteq> []"
proof -
  assume t: "terminated s"
  then have "\<exists>x\<in>set s. \<not> isspace x" using delimiter_not_space unfolding terminated_def by fastforce
  then have "dropWhile isspace s \<noteq> []" by simp
  then show ?thesis using hd_sentences by blast
qed


section \<open>Buffers of the joiners\<close>

lemma length_join_words: "length (join_words (w # ws)) < total_len (w # ws)"
proof (induction ws arbitrary: w)
  case (Cons v ws)
  then show ?case using Cons.IH [of v] by (auto simp: total_len_def intro: less_SucI)
qed (simp add: total_len_def)

lemma length_join_sentences: "length (join_sentences (s # ss)) < total_len (s # ss)"
proof (induction ss arbitrary: s)
  case (Cons t ss)
  then show ?case using Cons.IH [of t] by (auto simp: total_len_def intro: less_SucI)
qed (simp add: total_len_def)

lemma update_block:
  assumes "apply_single_update content sent_num word_idx new_content = Some r"
    and "nat sent_num < length (split_into_sentences content)"
    and "terminated (split_into_sentences content ! nat sent_num)"
    and "nat word_idx < length (split_into_words (split_into_sentences content ! nat sent_num))"
  shows "\<exists>mid. mid \<noteq> [] \<and>
    split_into_sentences r = take (nat sent_num) (split_into_sentences content) @ mid @
      drop (Suc (nat sent_num)) (split_into_sentences content) \<and>
    concat (map split_into_words mid) =
      (let ws = split_into_words (split_into_sentences content ! nat sent_num)
       in take (nat word_idx) ws @ split_into_words new_content @ drop (nat word_idx) ws)"
proof -
  let ?n = "nat sent_num" and ?ss = "sentences content"
  let ?e = "edited_sentence content sent_num word_idx new_content"
  let ?mid = "sentences (lstrip_if (0 < ?n) ?e)"
  have lt: "?n < length ?ss" using assms(2) by (simp add: split_into_sentences_eq)
  have pos: "0 \<le> sent_num" using apply_single_update_Some [OF assms(1)] by (simp add: update_in_range_def)
  have tm: "terminated ?e"
    using terminated_edited_sentence assms(3,4) lt pos by (simp add: split_into_sentences_eq)
  have tail: "sentences (dropWhile isspace (join_sentences (drop (Suc ?n) ?ss))) = drop (Suc ?n) ?ss"
    using wf_sentences_tail_lstrip [of "?ss ! ?n" "drop (Suc ?n) ?ss"]
      wf_sentences_drop [OF wf_sentences_sentences, of ?n content] Cons_nth_drop_Suc [OF lt] by simp
  have strip: "sentences (lstrip_if b (join_sentences (?e # q))) =
      sentences (lstrip_if b ?e) @ sentences (dropWhile isspace (join_sentences q))" for b q
    by (rule sentences_lstrip_join) (rule tm)
  have "sentences r = take ?n ?ss @ ?mid @ drop (Suc ?n) ?ss"
    using update_sentences [OF assms(1) lt] by (simp only: strip tail)
  moreover have "?mid \<noteq> []"
    using sentences_terminated_not_Nil [OF tm] hd_sentences [of ?e] tm
    by (auto simp: lstrip_if_def terminated_def)
  moreover have "concat (map words ?mid) = words ?e" by (simp add: words_sentences lstrip_if_def)
  moreover have "target_sentences content sent_num ! ?n = ?ss ! ?n"
    using lt by (auto simp: target_sentences_def)
  ultimately show ?thesis
    by (auto simp: split_into_sentences_eq split_into_words_eq [abs_def] words_edited_sentence)
qed

section \<open>Properties\<close>

text \<open>C7. A successful update of a file is an insertion on its word sequence: the words of the
  new content appear at the requested position and every word of the file is still there, in
  order. Neither the re-join nor the final re-parse loses, splits or merges a word.\<close>

theorem update_inserts_words:
  assumes "apply_single_update content sent_num word_idx new_content = Some r"
  shows "split_into_words r =
    take (word_position content sent_num word_idx) (split_into_words content) @
    split_into_words new_content @
    drop (word_position content sent_num word_idx) (split_into_words content)"
  using update_words [OF assms] by (simp add: split_into_words_eq)

theorem update_inserts_words_witness:
  "apply_single_update ''Hello world. Bye.'' 0 1 ''big.bad'' = Some ''Hello big. bad world. Bye.'' \<and>
   split_into_words ''Hello big. bad world. Bye.'' =
     take 1 (split_into_words ''Hello world. Bye.'') @ split_into_words ''big.bad'' @
     drop 1 (split_into_words ''Hello world. Bye.'')"
proof -
  have h: "apply_single_update ''Hello world. Bye.'' 0 1 ''big.bad'' = Some ''Hello big. bad world. Bye.''"
    by code_simp
  have k: "word_position ''Hello world. Bye.'' 0 1 = 1" by code_simp
  show ?thesis using update_inserts_words [OF h] h by (simp only: k conj_absorb simp_thms)
qed


text \<open>C8. Editing in front of the closing delimiter of a complete sentence leaves every other
  sentence of the file as it was: the sentences before it keep their index, those behind it are
  shifted as a block, and what replaces it carries its words with the new ones inserted.\<close>

theorem update_keeps_other_sentences:
  assumes "apply_single_update content sent_num word_idx new_content = Some r"
    and "nat sent_num < length (split_into_sentences content)"
    and "terminated (split_into_sentences content ! nat sent_num)"
    and "nat word_idx < length (split_into_words (split_into_sentences content ! nat sent_num))"
  shows "\<exists>mid. mid \<noteq> [] \<and>
    split_into_sentences r = take (nat sent_num) (split_into_sentences content) @ mid @
      drop (Suc (nat sent_num)) (split_into_sentences content) \<and>
    concat (map split_into_words mid) =
      (let ws = split_into_words (split_into_sentences content ! nat sent_num)
       in take (nat word_idx) ws @ split_into_words new_content @ drop (nat word_idx) ws)"
  by (rule update_block [OF assms])

theorem update_keeps_other_sentences_witness:
  "\<exists>mid. mid \<noteq> [] \<and>
    split_into_sentences ''One. Two now. more. Three.'' = [''One.''] @ mid @ [''Three.''] \<and>
    concat (map split_into_words mid) = [''Two'', ''now'', ''.'', ''more'', ''.'']"
proof -
  have h: "apply_single_update ''One. Two. Three.'' 1 1 ''now. more'' = Some ''One. Two now. more. Three.''"
    "split_into_sentences ''One. Two. Three.'' = [''One.'', ''Two.'', ''Three.'']"
    "split_into_words ''Two.'' = [''Two'', ''.'']" "split_into_words ''now. more'' = [''now'', ''.'', ''more'']"
    by code_simp+
  have "terminated ''Two.''" by code_simp
  then show ?thesis using update_keeps_other_sentences [OF h(1)] by (simp add: h numeral_2_eq_2)
qed

text \<open>C33. The two scanning loops compute their reference: the sentences are cut behind each
  delimiter with the whitespace that follows dropped, the words are the maximal runs between
  whitespace and delimiters, each delimiter a word of its own.\<close>

theorem parser_loops_reference:
  "split_into_sentences s = sentences s \<and> split_into_words s = words s"
  by (simp add: split_into_sentences_eq split_into_words_eq)

text \<open>C34. What the server renders it reads back: a re-rendered file splits into the same
  sentences, a re-rendered sentence into the same words, and a second rendering changes nothing.\<close>

theorem render_split_round_trip:
  "split_into_sentences (join_sentences (split_into_sentences s)) = split_into_sentences s \<and>
   split_into_words (join_words (split_into_words s)) = split_into_words s \<and>
   join_sentences (split_into_sentences (join_sentences (split_into_sentences s))) =
     join_sentences (split_into_sentences s)"
  by (simp only: file_text.resplit sentence_text.resplit conj_absorb simp_thms)

text \<open>C36. The buffers of the joiners are large enough for the text and its terminator: the
  \<open>calloc(total_len + 1)\<close> of \<open>join_words\<close> always, the \<open>calloc(total_len)\<close> of
  \<open>join_sentences\<close> for every non-empty list (an empty one takes the early return).\<close>

theorem joiners_fit_buffers:
  "length (join_words ws) < total_len ws + 1 \<and> length (join_sentences (s # ss)) < total_len (s # ss)"
  using length_join_words [of "hd ws" "tl ws"] length_join_sentences [of s ss]
  by (cases ws) (simp_all add: less_SucI)

end
