(* ===== verification/Undo_Handler.thy ===== *)
theory Undo_Handler
  imports C_Strings
begin

text \<open>
  The part of the operating system's file interface the storage server uses, and
  \<^verbatim>\<open>src/storage_server/undo_handler.c\<close> on top of it. A file system maps a path to the bytes
  of the file; \<open>fs_writable\<close> says which paths \<open>fopen\<close> can open for writing and \<open>rename\<close> can
  replace (the directory exists and permits it). Reads and writes of an open file succeed.

  \<open>undo_store\<close> is the contract of the backup: what a save and a restore do to the two paths,
  and that they touch no other.
\<close>

section \<open>The file system\<close>

record FileSystem =
  fs_files :: "string \<Rightarrow> string option"
  fs_writable :: "string \<Rightarrow> bool"

definition fs_write :: "FileSystem \<Rightarrow> string \<Rightarrow> string \<Rightarrow> FileSystem" where
  "fs_write fs path content = fs\<lparr>fs_files := (fs_files fs)(path \<mapsto> content)\<rparr>"

definition fs_unlink :: "FileSystem \<Rightarrow> string \<Rightarrow> FileSystem" where
  "fs_unlink fs path = fs\<lparr>fs_files := (fs_files fs)(path := None)\<rparr>"

text \<open>\<open>None\<close>: the call failed.\<close>

definition fs_rename :: "FileSystem \<Rightarrow> string \<Rightarrow> string \<Rightarrow> FileSystem option" where
  "fs_rename fs old new =
     (case fs_files fs old of
        None \<Rightarrow> None
      | Some content \<Rightarrow>
          if \<not> fs_writable fs new then None
          else if old = new then Some fs
          else Some (fs\<lparr>fs_files := (fs_files fs)(old := None, new \<mapsto> content)\<rparr>))"

text \<open>
  A loop \<open>while ((bytes = fread(buffer, 1, n, f)) > 0)\<close> sees the file in pieces of \<open>n\<close> bytes,
  the last one shorter.
\<close>

function chunks :: "nat \<Rightarrow> string \<Rightarrow> string list" where
  "chunks n s = (if s = [] \<or> n = 0 then [] else take n s # chunks n (drop n s))"
  by pat_completeness auto
termination by (relation "measure (\<lambda>(n, s). length s)") auto

declare chunks.simps [simp del]

lemma concat_chunks [simp]: "0 < n \<Longrightarrow> concat (chunks n s) = s"
proof (induction n s rule: chunks.induct)
  case (1 n s)
  then show ?case by (subst chunks.simps) auto
qed

lemma length_chunk: "c \<in> set (chunks n s) \<Longrightarrow> c \<noteq> [] \<and> length c \<le> n"
proof (induction n s rule: chunks.induct)
  case (1 n s)
  then show ?case by (subst (asm) chunks.simps) (auto split: if_splits)
qed

section \<open>The code\<close>

definition create_undo_backup :: "FileSystem \<Rightarrow> string \<Rightarrow> string \<Rightarrow> FileSystem \<times> bool" where
  "create_undo_backup fs filepath undo_filepath =
     (let fs = fs_unlink fs undo_filepath
      in case fs_files fs filepath of
           None \<Rightarrow> (fs, True)
         | Some src \<Rightarrow>
             if \<not> fs_writable fs undo_filepath then (fs, False)
             else (fs_write fs undo_filepath (foldl (@) [] (chunks BUFFER_SIZE src)), True))"

definition perform_undo :: "FileSystem \<Rightarrow> string \<Rightarrow> string \<Rightarrow> FileSystem \<times> bool" where
  "perform_undo fs filepath undo_filepath =
     (if fs_files fs undo_filepath = None then (fs, False)
      else case fs_rename fs undo_filepath filepath of
             None \<Rightarrow> (fs, False)
           | Some fs' \<Rightarrow> (fs', True))"

lemma foldl_append_concat: "foldl (@) a xs = a @ concat xs"
  by (induction xs arbitrary: a) auto

lemma create_undo_backup_eq:
  assumes "filepath \<noteq> undo_filepath" "fs_writable fs undo_filepath"
  shows "create_undo_backup fs filepath undo_filepath =
    (fs\<lparr>fs_files := (fs_files fs)(undo_filepath := fs_files fs filepath)\<rparr>, True)"
  using assms
  by (simp add: create_undo_backup_def Let_def fs_unlink_def fs_write_def foldl_append_concat
      split: option.splits)

section \<open>The contract of the backup\<close>

locale undo_store =
  fixes save :: "FileSystem \<Rightarrow> string \<Rightarrow> string \<Rightarrow> FileSystem \<times> bool"
    and restore :: "FileSystem \<Rightarrow> string \<Rightarrow> string \<Rightarrow> FileSystem \<times> bool"
  assumes save_frame: "p \<noteq> u \<Longrightarrow> fs_files (fst (save fs f u)) p = fs_files fs p"
    and save_copy: "f \<noteq> u \<Longrightarrow> fs_writable fs u \<Longrightarrow> fs_files (fst (save fs f u)) u = fs_files fs f"
    and save_writable: "fs_writable (fst (save fs f u)) = fs_writable fs"
    and restore_none: "fs_files fs u = None \<Longrightarrow> restore fs f u = (fs, False)"
    and restore_some: "fs_files fs u = Some c \<Longrightarrow> fs_writable fs f \<Longrightarrow> f \<noteq> u \<Longrightarrow>
      restore fs f u = (fs\<lparr>fs_files := (fs_files fs)(u := None, f \<mapsto> c)\<rparr>, True)"
begin

text \<open>Whatever is written to the file after a save, a restore brings the saved bytes back, and
  there is nothing to restore after that.\<close>

lemma save_restore:
  assumes "f \<noteq> u" "fs_writable fs u" "fs_writable fs f" "fs_files fs f = Some c"
    and fs'_def: "fs' = fst (restore (fs_write (fst (save fs f u)) f c') f u)"
  shows "fs_files fs' f = Some c" "fs_files fs' u = None" "restore fs' f u = (fs', False)"
    "p \<noteq> u \<Longrightarrow> fs_files fs' p = fs_files fs p"
proof -
  let ?w = "fs_write (fst (save fs f u)) f c'"
  have u: "fs_files ?w u = Some c" using assms save_copy [of f u fs] by (simp add: fs_write_def)
  have "fs_writable ?w f" using assms(3) save_writable by (simp add: fs_write_def)
  then have fs': "fs' = ?w\<lparr>fs_files := (fs_files ?w)(u := None, f \<mapsto> c)\<rparr>"
    using restore_some [OF u _ assms(1)] by (simp only: fs'_def fst_conv)
  then show "fs_files fs' f = Some c" "fs_files fs' u = None" using assms(1) by simp_all
  then show "restore fs' f u = (fs', False)" by (intro restore_none)
  show "p \<noteq> u \<Longrightarrow> fs_files fs' p = fs_files fs p"
    using assms(4) save_frame [of p u fs f] by (simp add: fs' fs_write_def)
qed

text \<open>A first write of a file that did not exist leaves nothing to undo.\<close>

lemma save_missing:
  assumes "f \<noteq> u" "fs_writable fs u" "fs_files fs f = None"
  shows "restore (fs_write (fst (save fs f u)) f c') f u = (fs_write (fst (save fs f u)) f c', False)"
  using assms save_copy [of f u fs] by (intro restore_none) (simp add: fs_write_def)

end

interpretation undo: undo_store create_undo_backup perform_undo
proof unfold_locales
  show "p \<noteq> u \<Longrightarrow> fs_files (fst (create_undo_backup fs f u)) p = fs_files fs p" for p u fs f
    by (simp add: create_undo_backup_def Let_def fs_unlink_def fs_write_def split: option.splits)
  show "fs_writable (fst (create_undo_backup fs f u)) = fs_writable fs" for fs f u
    by (simp add: create_undo_backup_def Let_def fs_unlink_def fs_write_def split: option.splits)
  show "fs_files fs u = Some c \<Longrightarrow> fs_writable fs f \<Longrightarrow> f \<noteq> u \<Longrightarrow>
      perform_undo fs f u = (fs\<lparr>fs_files := (fs_files fs)(u := None, f \<mapsto> c)\<rparr>, True)" for fs u c f
    by (auto simp: perform_undo_def fs_rename_def)
qed (simp_all add: create_undo_backup_eq perform_undo_def)

end
