(* ===== verification/Storage_Locks.thy ===== *)
theory Storage_Locks
  imports Undo_Handler
begin

text \<open>
  The shared state of a storage server and the operations on it that
  \<^verbatim>\<open>src/storage_server/storage_server.c\<close> runs under \<open>internal_locks_mutex\<close>: the modification
  log, the per-file commit locks and the sentence locks. Each operation is one atomic step.
  \<open>None\<close> is undefined behaviour: a file name of 255 bytes or more is copied into a malloc'ed
  node without a terminator. Log ids and shifts are mathematical integers: fewer than
  \<open>2 ^ 31\<close> commits.

  \<open>sentence_lock_table\<close> is what a WRITE session relies on.
\<close>

section \<open>The state\<close>

text \<open>\<open>fl_holder\<close> is the thread that holds the pthread mutex of the node, if any.\<close>

record FileLockNode =
  fl_filename :: string
  fl_holder :: "nat option"

record SentenceLockNode =
  sl_filename :: string
  sl_sentence_num :: c_int

record ModificationLogNode =
  ml_id :: c_int
  ml_filename :: string
  ml_original_sentence_index :: c_int
  ml_sentence_delta :: c_int

record StorageServer =
  ss_storage_path :: string
  ss_client_port :: c_int
  ss_file_locks :: "FileLockNode list"
  ss_sentence_locks :: "SentenceLockNode list"
  ss_mod_log :: "ModificationLogNode list"
  ss_next_log_id :: c_int
  ss_fs :: FileSystem

definition ss_create :: "string \<Rightarrow> c_int \<Rightarrow> FileSystem \<Rightarrow> StorageServer" where
  "ss_create path client_port fs =
     \<lparr>ss_storage_path = strncpy_zeroed (MAX_PATH_LEN - 1) path, ss_client_port = client_port,
      ss_file_locks = [], ss_sentence_locks = [], ss_mod_log = [], ss_next_log_id = 0, ss_fs = fs\<rparr>"

section \<open>The modification log\<close>

definition log_modification :: "StorageServer \<Rightarrow> string \<Rightarrow> c_int \<Rightarrow> c_int \<Rightarrow> StorageServer option" where
  "log_modification ss filename index delta =
     (if delta = 0 then Some ss
      else case strncpy_raw (MAX_FILENAME_LEN - 1) filename of
             None \<Rightarrow> None
           | Some fname \<Rightarrow>
               let new_node = \<lparr>ml_id = ss_next_log_id ss, ml_filename = fname,
                               ml_original_sentence_index = index, ml_sentence_delta = delta\<rparr>
               in Some (ss\<lparr>ss_next_log_id := ss_next_log_id ss + 1,
                           ss_mod_log := ss_mod_log ss @ [new_node]\<rparr>))"

definition get_current_log_id :: "StorageServer \<Rightarrow> c_int" where
  "get_current_log_id ss = ss_next_log_id ss"

fun sentence_shift_loop :: "string \<Rightarrow> c_int \<Rightarrow> c_int \<Rightarrow> ModificationLogNode list \<Rightarrow> c_int \<Rightarrow> c_int" where
  "sentence_shift_loop filename original_index start_log_id [] shift = shift"
| "sentence_shift_loop filename original_index start_log_id (node # rest) shift =
     sentence_shift_loop filename original_index start_log_id rest
       (if ml_id node \<ge> start_log_id then
          if ml_filename node = filename then
            if ml_original_sentence_index node < original_index
            then shift + ml_sentence_delta node else shift
          else shift
        else shift)"

definition get_sentence_shift :: "StorageServer \<Rightarrow> string \<Rightarrow> c_int \<Rightarrow> c_int \<Rightarrow> c_int" where
  "get_sentence_shift ss filename original_index start_log_id =
     sentence_shift_loop filename original_index start_log_id (ss_mod_log ss) 0"

section \<open>Locks\<close>

definition get_file_commit_lock :: "StorageServer \<Rightarrow> string \<Rightarrow> (StorageServer \<times> FileLockNode) option" where
  "get_file_commit_lock ss filename =
     (case List.find (\<lambda>node. fl_filename node = filename) (ss_file_locks ss) of
        Some node \<Rightarrow> Some (ss, node)
      | None \<Rightarrow>
          (case strncpy_raw (MAX_FILENAME_LEN - 1) filename of
             None \<Rightarrow> None
           | Some fname \<Rightarrow>
               let new_node = \<lparr>fl_filename = fname, fl_holder = None\<rparr>
               in Some (ss\<lparr>ss_file_locks := new_node # ss_file_locks ss\<rparr>, new_node)))"

definition try_lock_sentence :: "StorageServer \<Rightarrow> string \<Rightarrow> c_int \<Rightarrow> (StorageServer \<times> bool) option" where
  "try_lock_sentence ss filename sent_num =
     (if list_ex (\<lambda>node. sl_filename node = filename \<and> sl_sentence_num node = sent_num)
           (ss_sentence_locks ss)
      then Some (ss, False)
      else case strncpy_raw (MAX_FILENAME_LEN - 1) filename of
             None \<Rightarrow> None
           | Some fname \<Rightarrow>
               Some (ss\<lparr>ss_sentence_locks :=
                 \<lparr>sl_filename = fname, sl_sentence_num = sent_num\<rparr> # ss_sentence_locks ss\<rparr>, True))"

definition unlock_sentence :: "StorageServer \<Rightarrow> string \<Rightarrow> c_int \<Rightarrow> StorageServer" where
  "unlock_sentence ss filename sent_num =
     ss\<lparr>ss_sentence_locks :=
       remove_first (\<lambda>node. sl_filename node = filename \<and> sl_sentence_num node = sent_num)
         (ss_sentence_locks ss)\<rparr>"

section \<open>The interface of the sentence locks\<close>

locale sentence_lock_table =
  fixes try_lock :: "'s \<Rightarrow> string \<Rightarrow> c_int \<Rightarrow> ('s \<times> bool) option"
    and unlock :: "'s \<Rightarrow> string \<Rightarrow> c_int \<Rightarrow> 's"
    and held :: "'s \<Rightarrow> (string \<times> c_int) set" and inv :: "'s \<Rightarrow> bool"
  assumes try_lock_granted:
      "try_lock s f n = Some (s', True) \<Longrightarrow> (f, n) \<notin> held s \<and> held s' = insert (f, n) (held s)"
    and try_lock_refused: "try_lock s f n = Some (s', False) \<Longrightarrow> (f, n) \<in> held s \<and> s' = s"
    and held_unlock: "inv s \<Longrightarrow> held (unlock s f n) = held s - {(f, n)}"
    and inv_try_lock: "inv s \<Longrightarrow> try_lock s f n = Some (s', b) \<Longrightarrow> inv s'"
    and inv_unlock: "inv s \<Longrightarrow> inv (unlock s f n)"
begin

text \<open>A second lock of a held sentence is refused until it is unlocked, and only then granted.\<close>

lemma try_lock_held: "(f, n) \<in> held s \<Longrightarrow> try_lock s f n = Some (s', b) \<Longrightarrow> \<not> b \<and> s' = s"
  by (cases b) (auto dest: try_lock_granted try_lock_refused)

lemma try_lock_free: "(f, n) \<notin> held s \<Longrightarrow> try_lock s f n = Some (s', b) \<Longrightarrow> b"
  by (cases b) (auto dest: try_lock_refused)

lemma lock_unlock:
  "inv s \<Longrightarrow> try_lock s f n = Some (s', True) \<Longrightarrow> held (unlock s' f n) = held s"
  using try_lock_granted [of s f n s'] held_unlock [of s' f n] inv_try_lock [of s f n s' True] by auto

lemma relock:
  "try_lock s f n = Some (s1, True) \<Longrightarrow> try_lock s1 f n = Some (s2, b) \<Longrightarrow> \<not> b"
  using try_lock_granted [of s f n s1] try_lock_held [of f n s1 s2 b] by blast

end

definition held_sentences :: "StorageServer \<Rightarrow> (string \<times> c_int) set" where
  "held_sentences ss = (\<lambda>n. (sl_filename n, sl_sentence_num n)) ` set (ss_sentence_locks ss)"

definition sentence_locks_inv :: "StorageServer \<Rightarrow> bool" where
  "sentence_locks_inv ss \<longleftrightarrow>
     distinct (map (\<lambda>n. (sl_filename n, sl_sentence_num n)) (ss_sentence_locks ss))"

lemma try_lock_sentence_cases:
  "try_lock_sentence ss f k =
     (if (f, k) \<in> held_sentences ss then Some (ss, False)
      else if length f < MAX_FILENAME_LEN - 1
           then Some (ss\<lparr>ss_sentence_locks :=
                  \<lparr>sl_filename = f, sl_sentence_num = k\<rparr> # ss_sentence_locks ss\<rparr>, True)
           else None)"
  by (auto simp: try_lock_sentence_def held_sentences_def list_ex_iff strncpy_raw_def image_iff)

interpretation slock: sentence_lock_table try_lock_sentence unlock_sentence held_sentences
  sentence_locks_inv
proof unfold_locales
  fix s s' :: StorageServer and f n b
  show "sentence_locks_inv s \<Longrightarrow> held_sentences (unlock_sentence s f n) = held_sentences s - {(f, n)}"
    using image_remove_first [of "\<lambda>n. (sl_filename n, sl_sentence_num n)" "ss_sentence_locks s" "(f, n)"]
    by (simp add: held_sentences_def sentence_locks_inv_def unlock_sentence_def)
  show "sentence_locks_inv s \<Longrightarrow> sentence_locks_inv (unlock_sentence s f n)"
    unfolding sentence_locks_inv_def unlock_sentence_def by simp
  show "sentence_locks_inv s \<Longrightarrow> try_lock_sentence s f n = Some (s', b) \<Longrightarrow> sentence_locks_inv s'"
    by (auto simp: try_lock_sentence_cases sentence_locks_inv_def held_sentences_def split: if_splits)
qed (auto simp: try_lock_sentence_cases held_sentences_def split: if_splits)

section \<open>The log\<close>

text \<open>The entries a session started at \<open>start_log_id\<close> takes into account.\<close>

definition new_entries :: "StorageServer \<Rightarrow> string \<Rightarrow> c_int \<Rightarrow> ModificationLogNode list" where
  "new_entries ss filename start_log_id =
     filter (\<lambda>e. ml_id e \<ge> start_log_id \<and> ml_filename e = filename) (ss_mod_log ss)"

lemma sentence_shift_loop_sum:
  "sentence_shift_loop f i k log shift =
     shift + sum_list (map ml_sentence_delta (filter (\<lambda>e. ml_original_sentence_index e < i)
       (filter (\<lambda>e. ml_id e \<ge> k \<and> ml_filename e = f) log)))"
  by (induction log arbitrary: shift) auto

lemma get_sentence_shift_sum:
  "get_sentence_shift ss f i k =
     sum_list (map ml_sentence_delta
       (filter (\<lambda>e. ml_original_sentence_index e < i) (new_entries ss f k)))"
  by (simp add: get_sentence_shift_def sentence_shift_loop_sum new_entries_def)

definition log_inv :: "StorageServer \<Rightarrow> bool" where
  "log_inv ss \<longleftrightarrow> sorted_wrt (<) (map ml_id (ss_mod_log ss)) \<and>
     (\<forall>e\<in>set (ss_mod_log ss). ml_id e < ss_next_log_id ss)"

lemma log_inv_log_modification:
  "log_inv ss \<Longrightarrow> log_modification ss f i d = Some ss' \<Longrightarrow> log_inv ss'"
  by (fastforce simp: log_modification_def log_inv_def sorted_wrt_append Let_def
      split: if_splits option.splits)

text \<open>No entry is new to a session that starts now.\<close>

lemma new_entries_current: "log_inv ss \<Longrightarrow> new_entries ss f (get_current_log_id ss) = []"
  by (auto simp: new_entries_def log_inv_def get_current_log_id_def filter_empty_conv)

lemma log_modification_Some:
  "log_modification ss f i d = Some ss' \<Longrightarrow>
     (d = 0 \<and> ss' = ss) \<or>
     (d \<noteq> 0 \<and> length f < MAX_FILENAME_LEN - 1 \<and>
      ss' = ss\<lparr>ss_next_log_id := ss_next_log_id ss + 1,
               ss_mod_log := ss_mod_log ss @ [\<lparr>ml_id = ss_next_log_id ss, ml_filename = f,
                 ml_original_sentence_index = i, ml_sentence_delta = d\<rparr>]\<rparr>)"
  by (auto simp: log_modification_def Let_def split: if_splits option.splits)

lemma new_entries_log_modification:
  assumes "log_inv ss" "log_modification ss f i d = Some ss'" "k \<le> get_current_log_id ss"
  shows "new_entries ss' g k = new_entries ss g k @
    (if d \<noteq> 0 \<and> g = f then [\<lparr>ml_id = ss_next_log_id ss, ml_filename = f,
        ml_original_sentence_index = i, ml_sentence_delta = d\<rparr>] else [])"
  using log_modification_Some [OF assms(2)] assms(3)
  by (auto simp: new_entries_def get_current_log_id_def)

section \<open>What the shift should be\<close>

text \<open>
  The index of a sentence followed through the log: an entry at a smaller index, in the
  numbering of the time of its commit, moves it by its delta.
\<close>

fun track :: "c_int \<Rightarrow> ModificationLogNode list \<Rightarrow> c_int" where
  "track pos [] = pos"
| "track pos (e # es) =
     track (if ml_original_sentence_index e < pos then pos + ml_sentence_delta e else pos) es"

lemma track_mono: "(\<forall>e\<in>set es. 0 \<le> ml_sentence_delta e) \<Longrightarrow> pos \<le> track pos es"
proof (induction es arbitrary: pos)
  case (Cons e es)
  then have "pos \<le> track pos es" "pos + ml_sentence_delta e \<le> track (pos + ml_sentence_delta e) es"
    by simp_all
  then show ?case using Cons.prems by auto
qed simp

text \<open>The code compares every entry with the index the session asked for. That is the tracked
  index when no entry lies between the two.\<close>

lemma track_eq_shift_aux:
  "\<lbrakk>\<forall>e\<in>set es. 0 \<le> ml_sentence_delta e;
    \<forall>e\<in>set es. ml_original_sentence_index e < i \<or> lim \<le> ml_original_sentence_index e;
    i \<le> pos; track pos es \<le> lim\<rbrakk> \<Longrightarrow>
   track pos es = pos + sum_list (map ml_sentence_delta
     (filter (\<lambda>e. ml_original_sentence_index e < i) es))"
proof (induction es arbitrary: pos)
  case (Cons e es)
  show ?case
  proof (cases "ml_original_sentence_index e < i")
    case True
    then show ?thesis using Cons.IH [of "pos + ml_sentence_delta e"] Cons.prems by auto
  next
    case False
    let ?p = "if ml_original_sentence_index e < pos then pos + ml_sentence_delta e else pos"
    have "pos \<le> ?p" "?p \<le> track ?p es" using Cons.prems(1) track_mono [of es ?p] by auto
    then have "\<not> ml_original_sentence_index e < pos" using False Cons.prems by auto
    then show ?thesis using Cons.IH [of pos] Cons.prems False by auto
  qed
qed simp

lemma track_eq_shift:
  assumes "\<forall>e\<in>set es. 0 \<le> ml_sentence_delta e"
    and "\<forall>e\<in>set es. ml_original_sentence_index e < i \<or> track i es \<le> ml_original_sentence_index e"
  shows "track i es = i + sum_list (map ml_sentence_delta
    (filter (\<lambda>e. ml_original_sentence_index e < i) es))"
  using track_eq_shift_aux [OF assms order_refl order_refl] .

end
