(* ===== verification/File_Ops.thy ===== *)
theory File_Ops
  imports File_Update Storage_Locks
begin

text \<open>
  The request handlers of a storage server: \<^verbatim>\<open>src/storage_server/file_ops.c\<close>, the command
  loop \<^verbatim>\<open>ss_listen_to_nm\<close> of \<^verbatim>\<open>storage_server.c\<close>, and the file statistics of
  \<^verbatim>\<open>common.c\<close>. A handler takes the server and what it receives and returns the server and
  the messages it sends, in order; the log lines on stdout are left out. Here a handler runs
  alone from start to end; \<open>Write_Session\<close> interleaves the same pieces.
\<close>

datatype outmsg = ToClient string | ToNM string

section \<open>File statistics (common.c)\<close>

text \<open>\<open>char c; while ((c = fgetc(f)) != EOF)\<close>: the byte \<open>0xFF\<close> compares equal to EOF.\<close>

fun word_count_loop :: "string \<Rightarrow> c_int \<Rightarrow> bool \<Rightarrow> c_int \<times> bool" where
  "word_count_loop [] count in_word = (count, in_word)"
| "word_count_loop (c # cs) count in_word =
     (if c = CHR 0xFF then (count, in_word)
      else if isspace c \<or> c = CHR ''.'' \<or> c = CHR ''!'' \<or> c = CHR ''?''
      then word_count_loop cs (if in_word then count + 1 else count) False
      else word_count_loop cs count True)"

definition get_word_count :: "FileSystem \<Rightarrow> string \<Rightarrow> c_int" where
  "get_word_count fs filepath =
     (case fs_files fs filepath of
        None \<Rightarrow> 0
      | Some bytes \<Rightarrow> (case word_count_loop bytes 0 False of (count, in_word) \<Rightarrow>
          if in_word then count + 1 else count))"

definition get_file_size :: "FileSystem \<Rightarrow> string \<Rightarrow> c_long" where
  "get_file_size fs filepath =
     (case fs_files fs filepath of Some bytes \<Rightarrow> int (length bytes) | None \<Rightarrow> 0)"

definition get_char_count :: "FileSystem \<Rightarrow> string \<Rightarrow> c_int" where
  "get_char_count fs filepath = wrap32 (get_file_size fs filepath)"

text \<open>The content buffer, read as the C string its users take it for.\<close>

definition get_file_content :: "FileSystem \<Rightarrow> string \<Rightarrow> string option" where
  "get_file_content fs filepath = map_option cstr (fs_files fs filepath)"

section \<open>Paths and messages\<close>

definition ss_filepath :: "StorageServer \<Rightarrow> string \<Rightarrow> string" where
  "ss_filepath ss filename = snprintf MAX_PATH_LEN (ss_storage_path ss @ ''/'' @ filename)"

definition ss_undo_filepath :: "StorageServer \<Rightarrow> string \<Rightarrow> string" where
  "ss_undo_filepath ss filename =
     snprintf MAX_PATH_LEN (ss_storage_path ss @ ''/'' @ filename @ ''.undo'')"

definition info_update :: "string \<Rightarrow> c_long \<Rightarrow> c_int \<Rightarrow> c_int \<Rightarrow> string" where
  "info_update filename sz word_count char_count =
     snprintf BUFFER_SIZE (''INFO_UPDATE '' @ filename @ '' '' @ show_int sz @ '' '' @
       show_int word_count @ '' '' @ show_int char_count)"

section \<open>READ and STREAM\<close>

definition handle_ss_read :: "StorageServer \<Rightarrow> string \<Rightarrow> string list" where
  "handle_ss_read ss filename =
     (case fs_files (ss_fs ss) (ss_filepath ss filename) of
        None \<Rightarrow> [''404 ERROR: File not found on SS.'']
      | Some bytes \<Rightarrow> chunks (BUFFER_SIZE - 1) bytes)"

text \<open>The loop of \<open>handle_ss_stream\<close>: \<open>word\<close> holds the bytes collected so far, at most 255;
  \<open>send_message\<close> sends up to the first NUL.\<close>

fun stream_loop :: "string \<Rightarrow> string \<Rightarrow> string list \<Rightarrow> string \<times> string list" where
  "stream_loop [] word sent = (word, sent)"
| "stream_loop (c # cs) word sent =
     (if c = CHR 0xFF then (word, sent)
      else if isspace c \<or> is_delimiter c
      then stream_loop cs []
             ((if word \<noteq> [] then sent @ [cstr word] else sent) @ [cstr [c]])
      else stream_loop cs (if length word < 255 then word @ [c] else word) sent)"

definition handle_ss_stream :: "StorageServer \<Rightarrow> string \<Rightarrow> string list" where
  "handle_ss_stream ss filename =
     (case fs_files (ss_fs ss) (ss_filepath ss filename) of
        None \<Rightarrow> [''404 ERROR: File not found on SS.'']
      | Some bytes \<Rightarrow> (case stream_loop bytes [] [] of (word, sent) \<Rightarrow>
          if word \<noteq> [] then sent @ [cstr word] else sent))"

section \<open>WRITE\<close>

record UpdateNode =
  un_word_idx :: c_int
  un_content :: string

text \<open>The highest sentence index a session may edit: one past the last sentence, unless that one
  is unfinished.\<close>

definition max_valid_index :: "string \<Rightarrow> c_int" where
  "max_valid_index check_content =
     (let temp_sents = split_into_sentences check_content;
          initial_sent_count = int (length temp_sents)
      in if initial_sent_count > 0 then
           let last_sent = last temp_sents;
               last_char = (case dropWhile isspace (rev last_sent) of [] \<Rightarrow> CHR 0x00 | c # _ \<Rightarrow> c)
           in if \<not> is_delimiter last_char then initial_sent_count - 1 else initial_sent_count
         else initial_sent_count)"

definition write_in_range :: "StorageServer \<Rightarrow> string \<Rightarrow> c_int \<Rightarrow> bool" where
  "write_in_range ss filename sent_num =
     (let check_content = (case get_file_content (ss_fs ss) (ss_filepath ss filename) of
            None \<Rightarrow> [] | Some c \<Rightarrow> c)
      in \<not> (sent_num < 0 \<or> sent_num > max_valid_index check_content))"

text \<open>One line of the session, after \<open>recv_message\<close>: the end mark, too short, or an update.\<close>

datatype write_line = Etirw | TooShort | Update UpdateNode

definition parse_write_line :: "string \<Rightarrow> write_line" where
  "parse_write_line bytes =
     (let buffer = cstr bytes
      in if buffer = ''ETIRW'' then Etirw
         else let parts = split_string '' '' buffer
              in if length parts < 2 then TooShort
                 else Update \<lparr>un_word_idx = atoi (parts ! 0),
                              un_content = drop 1 (dropWhile (\<lambda>c. c \<noteq> CHR '' '') buffer)\<rparr>)"

text \<open>The receive loop over the messages the socket delivers, each a non-empty piece of at most
  4095 bytes; an empty list is the closed connection, and an empty piece a closed one too.\<close>

fun write_recv_loop :: "string list \<Rightarrow> UpdateNode list \<Rightarrow> UpdateNode list" where
  "write_recv_loop [] updates = updates"
| "write_recv_loop (m # ms) updates =
     (if m = [] then updates
      else case parse_write_line m of
             Etirw \<Rightarrow> updates
           | TooShort \<Rightarrow> write_recv_loop ms updates
           | Update u \<Rightarrow> write_recv_loop ms (updates @ [u]))"

fun apply_updates :: "string \<Rightarrow> c_int \<Rightarrow> UpdateNode list \<Rightarrow> string option" where
  "apply_updates content real_sent_num [] = Some content"
| "apply_updates content real_sent_num (u # us) =
     (case apply_single_update content real_sent_num (un_word_idx u) (un_content u) of
        None \<Rightarrow> None
      | Some updated \<Rightarrow> apply_updates updated real_sent_num us)"

text \<open>The commit phase, under the commit lock of the file.\<close>

definition write_commit ::
  "StorageServer \<Rightarrow> string \<Rightarrow> c_int \<Rightarrow> c_int \<Rightarrow> UpdateNode list \<Rightarrow> (StorageServer \<times> outmsg list) option" where
  "write_commit ss filename sent_num start_log_id updates =
     (let filepath = ss_filepath ss filename;
          fs1 = fst (create_undo_backup (ss_fs ss) filepath (ss_undo_filepath ss filename));
          ss1 = ss\<lparr>ss_fs := fs1\<rparr>;
          current_content = (case get_file_content fs1 filepath of None \<Rightarrow> [] | Some c \<Rightarrow> c);
          count_before = int (length (split_into_sentences current_content));
          real_sent_num = sent_num + get_sentence_shift ss1 filename sent_num start_log_id
      in case apply_updates current_content real_sent_num updates of
           None \<Rightarrow> Some (ss1, [ToClient ''500 ERROR: Invalid update application during commit.''])
         | Some content \<Rightarrow>
             if \<not> fs_writable fs1 filepath
             then Some (ss1, [ToClient ''500 ERROR: Failed to write file.''])
             else
               let fs2 = fs_write fs1 filepath content;
                   ss2 = ss1\<lparr>ss_fs := fs2\<rparr>;
                   delta = int (length (split_into_sentences content)) - count_before
               in case (if delta \<noteq> 0 then log_modification ss2 filename real_sent_num delta else Some ss2) of
                    None \<Rightarrow> None
                  | Some ss3 \<Rightarrow>
                      Some (ss3, [ToClient ''200 OK: Write Successful!'',
                                  ToNM (info_update filename (int (length content))
                                    (get_word_count fs2 filepath) (get_char_count fs2 filepath))]))"

text \<open>The whole handler with no other thread in between. \<open>get_file_commit_lock\<close> makes the lock
  node; the mutex is free, taken and released.\<close>

definition handle_ss_write ::
  "StorageServer \<Rightarrow> string \<Rightarrow> c_int \<Rightarrow> string list \<Rightarrow> (StorageServer \<times> outmsg list) option" where
  "handle_ss_write ss filename sent_num msgs =
     (let start_log_id = get_current_log_id ss
      in case try_lock_sentence ss filename sent_num of
           None \<Rightarrow> None
         | Some (ss, False) \<Rightarrow>
             Some (ss, [ToClient ''423 ERROR: This sentence is being edited by another user.''])
         | Some (ss, True) \<Rightarrow>
             if \<not> write_in_range ss filename sent_num
             then Some (unlock_sentence ss filename sent_num,
               [ToClient ''400 ERROR: Sentence index out of range (Previous sentence might be incomplete).''])
             else
               (case get_file_commit_lock ss filename of
                  None \<Rightarrow> None
                | Some (ss, _) \<Rightarrow>
                    (case write_commit ss filename sent_num start_log_id (write_recv_loop msgs []) of
                       None \<Rightarrow> None
                     | Some (ss, outs) \<Rightarrow>
                         Some (unlock_sentence ss filename sent_num,
                               ToClient ''202 ACK_WRITE: Ready for updates.'' # outs))))"

section \<open>UNDO\<close>

definition handle_ss_undo :: "StorageServer \<Rightarrow> string \<Rightarrow> (StorageServer \<times> outmsg list) option" where
  "handle_ss_undo ss filename =
     (let filepath = ss_filepath ss filename
      in case get_file_commit_lock ss filename of
           None \<Rightarrow> None
         | Some (ss, _) \<Rightarrow>
             (case perform_undo (ss_fs ss) filepath (ss_undo_filepath ss filename) of
                (fs, True) \<Rightarrow>
                  Some (ss\<lparr>ss_fs := fs\<rparr>, [ToClient ''200 OK: Undo Successful!'',
                    ToNM (info_update filename (get_file_size fs filepath)
                      (get_word_count fs filepath) (get_char_count fs filepath))])
              | (fs, False) \<Rightarrow> Some (ss\<lparr>ss_fs := fs\<rparr>, [ToClient ''404 ERROR: No undo history.''])))"

section \<open>Requests\<close>

text \<open>A client connection: the request, then (for a WRITE) the lines of the session.\<close>

definition ss_handle_client_connection ::
  "StorageServer \<Rightarrow> string \<Rightarrow> string list \<Rightarrow> (StorageServer \<times> outmsg list) option" where
  "ss_handle_client_connection ss request msgs =
     (if request = [] then Some (ss, [])
      else
        let parts = split_string '' '' (cstr request); count = length parts
        in if count < 2 then Some (ss, [ToClient ''400 ERROR: Invalid command.''])
           else
             let cmd = parts ! 0; filename = parts ! 1
             in if cmd = ''READ'' then Some (ss, map ToClient (handle_ss_read ss filename))
                else if cmd = ''STREAM'' then Some (ss, map ToClient (handle_ss_stream ss filename))
                else if cmd = ''WRITE'' then
                  (if count < 3
                   then Some (ss, [ToClient ''400 ERROR: Usage: WRITE <file> <sent_num>''])
                   else handle_ss_write ss filename (atoi (parts ! 2)) msgs)
                else if cmd = ''UNDO'' then handle_ss_undo ss filename
                else if cmd = ''GET_CONTENT'' then Some (ss, map ToClient (handle_ss_read ss filename))
                else Some (ss, [ToClient ''400 ERROR: Unknown command for SS.'']))"

text \<open>One command of the name server, in \<open>ss_listen_to_nm\<close>. The undo path of DELETE is built
  from the already cut file path.\<close>

definition ss_nm_command :: "StorageServer \<Rightarrow> string \<Rightarrow> StorageServer \<times> outmsg list" where
  "ss_nm_command ss bytes =
     (let parts = split_string '' '' (cstr bytes)
      in if length parts < 2 then (ss, [])
         else
           let cmd = parts ! 0; filename = parts ! 1; filepath = ss_filepath ss filename; fs = ss_fs ss
           in if cmd = ''CREATE'' then
                (if fs_writable fs filepath
                 then (ss\<lparr>ss_fs := fs_write fs filepath []\<rparr>, [ToNM ''ACK_CREATE OK''])
                 else (ss, [ToNM ''ACK_CREATE FAIL'']))
              else if cmd = ''DELETE'' then
                let undo_path = snprintf MAX_PATH_LEN (filepath @ ''.undo'')
                in (ss\<lparr>ss_fs := fs_unlink (fs_unlink fs filepath) undo_path\<rparr>, [ToNM ''ACK_DELETE OK''])
              else if cmd = ''GET_CONTENT'' then (ss, map ToNM (handle_ss_read ss filename))
              else (ss, []))"

text \<open>The loop over the commands received, until the connection ends.\<close>

fun ss_listen_to_nm :: "StorageServer \<Rightarrow> string list \<Rightarrow> StorageServer \<times> outmsg list" where
  "ss_listen_to_nm ss [] = (ss, [])"
| "ss_listen_to_nm ss (m # ms) =
     (if m = [] then (ss, [])
      else case ss_nm_command ss m of (ss', outs) \<Rightarrow>
        (case ss_listen_to_nm ss' ms of (ss'', outs') \<Rightarrow> (ss'', outs @ outs')))"

end
