(* ===== verification/Sentence_Count.thy ===== *)
theory Sentence_Count
  imports File_Ops
begin

text \<open>
  How many sentences a file has, read off its word sequence, and why a commit of a WRITE never
  lowers the number: the deltas of the modification log are positive. The sentence numbers
  other sessions hold only ever move up.
\<close>

section \<open>Counting on words\<close>

definition delim_word :: "string \<Rightarrow> bool" where
  "delim_word w \<longleftrightarrow> is_delimiter (first_char w)"

text \<open>Closed sentences, plus one when words follow the last delimiter.\<close>

definition word_sentences :: "string list \<Rightarrow> nat" where
  "word_sentences W = length (filter delim_word W) + (if W \<noteq> [] \<and> \<not> delim_word (last W) then 1 else 0)"

lemma delim_word_delimiter [simp]: "is_delimiter d \<Longrightarrow> delim_word [d]"
  by (simp add: delim_word_def first_char_def)

lemma word_no_delimiter:
  assumes "\<forall>c\<in>set s. \<not> is_delimiter c" "w \<in> set (words s)"
  shows "\<not> delim_word w"
proof -
  have "set w \<subseteq> set s"
    using assms(2)
  proof (induction s rule: words.induct)
    case (2 c cs)
    then show ?case
      using set_dropWhile_subset [of wordchar cs]
      by (auto simp: words.simps(2) split: if_splits dest: set_takeWhileD)
  qed simp
  moreover have "w \<noteq> []" using words_word_ok [OF assms(2)] by (rule word_ok_not_Nil)
  ultimately show ?thesis using assms(1) by (cases w) (auto simp: delim_word_def first_char_def)
qed

lemma words_Nil_iff: "words s = [] \<longleftrightarrow> (\<forall>c\<in>set s. isspace c)"
proof (induction s)
  case (Cons c cs)
  then show ?case by (cases "isspace c") (auto simp: words.simps(2))
qed simp

lemma length_sentences_words:
  "words s \<noteq> [] \<Longrightarrow> length (sentences s) = word_sentences (words s)"
proof (induction s rule: sentences_induct)
  case (no_delimiter s)
  then have "filter delim_word (words s) = []"
    using word_no_delimiter [of s] by (simp add: filter_empty_conv)
  moreover have "\<not> delim_word (last (words s))"
    using no_delimiter word_no_delimiter [of s] last_in_set by blast
  moreover have "s \<noteq> []" using no_delimiter.prems by auto
  ultimately show ?case using no_delimiter by (simp add: word_sentences_def sentences_last)
next
  case (delimiter a d r)
  have W: "words (a @ d # r) = words a @ [[d]] @ words r"
  proof -
    have "words (a @ [d] @ r) = words a @ words ([d] @ r)"
      using delimiter by (intro words_append) (simp add: wordchar_def)
    then show ?thesis using delimiter by simp
  qed
  have a: "filter delim_word (words a) = []"
    using word_no_delimiter [of a] delimiter by (simp add: filter_empty_conv)
  show ?case
  proof (cases "words r = []")
    case True
    then have "dropWhile isspace r = []" by (simp add: words_Nil_iff)
    then have "sentences (dropWhile isspace r) = []" by (simp only: sentences_Nil)
    then show ?thesis using delimiter True by (simp add: sentences_delimiter word_sentences_def W a)
  next
    case False
    then show ?thesis using delimiter by (simp add: sentences_delimiter word_sentences_def W a)
  qed
qed

lemma word_sentences_insert:
  "word_sentences W \<le> word_sentences (take k W @ N @ drop k W)"
proof (cases "drop k W = []")
  case True
  then have "take k W = W" by simp
  moreover have "1 \<le> length (filter delim_word N)" if "delim_word (last N)" "N \<noteq> []"
  proof -
    have "last N \<in> set (filter delim_word N)" using that by simp
    then have "filter delim_word N \<noteq> []" by (metis empty_iff list.set(1))
    then show ?thesis by (simp add: Suc_le_eq)
  qed
  ultimately show ?thesis using True by (cases "N = []") (auto simp: word_sentences_def)
next
  case False
  have "filter delim_word W = filter delim_word (take k W) @ filter delim_word (drop k W)"
    by (simp flip: filter_append)
  moreover have "last W = last (drop k W)" "W \<noteq> []" using False by (auto simp: last_drop)
  ultimately show ?thesis using False by (simp add: word_sentences_def)
qed

lemma word_sentences_pos: "W \<noteq> [] \<Longrightarrow> 1 \<le> word_sentences W"
proof -
  assume "W \<noteq> []"
  then have "delim_word (last W) \<Longrightarrow> filter delim_word W \<noteq> []"
    using last_in_set [of W] by (auto simp: filter_empty_conv)
  then show ?thesis using \<open>W \<noteq> []\<close> by (auto simp: word_sentences_def Suc_le_eq)
qed

section \<open>An update never lowers the count\<close>

lemma join_words_Nil: "join_words ws = [] \<Longrightarrow> w \<in> set ws \<Longrightarrow> w = []"
  by (induction ws rule: join_words.induct) (auto split: if_splits)

lemma join_sentences_Nil: "join_sentences ss = [] \<Longrightarrow> s \<in> set ss \<Longrightarrow> s = []"
  by (induction ss rule: join_sentences.induct) (auto split: if_splits)

lemma length_sentences_le_one: "words s = [] \<Longrightarrow> length (sentences s) \<le> 1"
proof -
  assume "words s = []"
  then have "\<forall>c\<in>set s. \<not> is_delimiter c" using delimiter_not_space by (auto simp: words_Nil_iff)
  then show ?thesis by (cases "s = []") (simp_all add: sentences_last)
qed

lemma update_sentence_count:
  assumes "apply_single_update content n w new = Some r" and "split_string '' '' new \<noteq> []"
  shows "length (sentences content) \<le> length (sentences r)"
proof (cases "words content = []")
  case False
  have W: "words r = take (word_position content n w) (words content) @ words new @
      drop (word_position content n w) (words content)" by (rule update_words [OF assms(1)])
  then have "words r \<noteq> []" using False by (metis append_is_Nil_conv append_take_drop_id)
  then show ?thesis
    using False W word_sentences_insert by (simp add: length_sentences_words)
next
  case True
  have le: "length (sentences content) \<le> 1" using True by (rule length_sentences_le_one)
  have "sentences r \<noteq> []"
  proof
    assume "sentences r = []"
    then have r: "r = []" using hd_sentences by blast
    let ?ss = "(target_sentences content n)[nat n := edited_sentence content n w new]"
    from apply_single_update_Some [OF assms(1)] have rng: "update_in_range content n w"
      and "r = join_sentences (sentences (join_sentences ?ss))" by auto
    then have "sentences (join_sentences ?ss) = []"
      using r sentences_join_sentences [OF wf_sentences_sentences, of "join_sentences ?ss"] by simp
    then have J: "join_sentences ?ss = []" using hd_sentences by blast
    obtain t where t: "t \<in> set (split_string '' '' new)" "t \<noteq> []"
      using assms(2) split_string_tokens by (metis list.set_intros(1) neq_Nil_conv)
    have "edited_sentence content n w new \<noteq> []"
      using t join_words_Nil unfolding edited_sentence_def Let_def by fastforce
    moreover have "edited_sentence content n w new \<in> set ?ss"
      using length_target_sentences [OF rng] by (simp add: set_update_memI)
    ultimately show False using J join_sentences_Nil by blast
  qed
  then show ?thesis using le by (cases "sentences r") auto
qed

lemma apply_updates_count:
  "apply_updates content n us = Some r \<Longrightarrow> (\<forall>u\<in>set us. split_string '' '' (un_content u) \<noteq> []) \<Longrightarrow>
     length (sentences content) \<le> length (sentences r)"
proof (induction content n us rule: apply_updates.induct)
  case (2 content n u us)
  then obtain c where c: "apply_single_update content n (un_word_idx u) (un_content u) = Some c"
    "apply_updates c n us = Some r" by (auto split: option.splits)
  then show ?case using update_sentence_count [OF c(1)] 2 by fastforce
qed simp

section \<open>What a session queues\<close>

text \<open>Every queued update has at least one word to insert.\<close>

lemma parse_write_line_token:
  assumes "parse_write_line bytes = Update u"
  shows "split_string '' '' (un_content u) \<noteq> []"
proof -
  let ?b = "cstr bytes" and ?P = "\<lambda>c. c \<noteq> CHR '' ''"
  from assms have len: "2 \<le> length (split_string '' '' ?b)"
    and u: "un_content u = drop 1 (dropWhile ?P ?b)"
    by (auto simp: parse_write_line_def Let_def split: if_splits)
  let ?t = "takeWhile ?P ?b" and ?r = "dropWhile ?P ?b"
  have r: "?r = [] \<or> hd ?r \<in> set '' ''" using hd_dropWhile [of ?P ?b] by auto
  have "split_string '' '' ?b = split_string '' '' (?t @ ?r)" by (simp only: takeWhile_dropWhile_id)
  also have "\<dots> = split_string '' '' ?t @ split_string '' '' ?r" using r by (rule split_string_append)
  finally have "length (split_string '' '' ?b) = length (split_string '' '' ?t) + length (split_string '' '' ?r)"
    by simp
  moreover have "length (split_string '' '' ?t) \<le> 1"
  proof (cases "?t = []")
    case False
    moreover have "CHR '' '' \<notin> set ?t" using set_takeWhileD [of "CHR '' ''" ?P ?b] by argo
    then have "set ?t \<inter> set '' '' = {}" by simp
    ultimately show ?thesis by (simp add: split_string_last)
  qed simp
  ultimately have "length (split_string '' '' ?r) \<noteq> 0" using len by linarith
  then have "split_string '' '' ?r \<noteq> []" by (simp only: length_0_conv not_False_eq_True)
  moreover have "split_string d (drop 1 x) = split_string d x" if "x = [] \<or> hd x \<in> set d" for x d
    using that by (cases x) simp_all
  then have "split_string '' '' (drop 1 ?r) = split_string '' '' ?r" using r by blast
  ultimately show ?thesis by (simp add: u)
qed

lemma write_recv_loop_tokens:
  "(\<forall>u\<in>set us. split_string '' '' (un_content u) \<noteq> []) \<Longrightarrow>
     u \<in> set (write_recv_loop ms us) \<Longrightarrow> split_string '' '' (un_content u) \<noteq> []"
proof (induction ms us rule: write_recv_loop.induct)
  case (2 m ms us)
  then show ?case
    using parse_write_line_token by (cases "parse_write_line m") (auto split: if_splits)
qed simp

end
