(* ===== verification/Storage_Server.thy ===== *)
theory Storage_Server
  imports Sentence_Count
begin

text \<open>
  What a storage server promises for each request (\<open>File_Ops\<close>): what READ and STREAM deliver,
  what the statistics count, the outcomes of a WRITE and of its commit, the pairing of WRITE
  and UNDO, and the server invariant every request keeps.

  \<open>ss_request\<close> is the interface of a request: it keeps the invariant, releases what it locks
  and touches only the two paths of its file. WRITE, UNDO and the commands of the name server
  are its instances.
\<close>

section \<open>READ and STREAM\<close>

lemma snoc_wordchars:
  "\<forall>x\<in>set w. wordchar x \<Longrightarrow> w \<noteq> [] \<Longrightarrow> words w = [w]"
  using words_wordchars by (cases w) auto

lemma stream_loop_concat:
  assumes "\<forall>c\<in>set (w @ cs). c \<noteq> CHR 0xFF \<and> c \<noteq> CHR 0x00" "\<forall>c\<in>set w. wordchar c"
    and "\<forall>x\<in>set (words (w @ cs)). length x \<le> 255"
  shows "\<exists>w' sent'. stream_loop cs w sent = (w', sent') \<and>
    concat sent' @ cstr w' = concat sent @ w @ cs"
  using assms
proof (induction cs arbitrary: w sent)
  case Nil
  then have "CHR 0x00 \<notin> set w" by auto
  then show ?case by simp
next
  case (Cons c cs)
  have "CHR 0x00 \<notin> set w" using Cons.prems(1) by force
  moreover have c: "c \<noteq> CHR 0x00" "c \<noteq> CHR 0xFF" using Cons.prems(1) by simp_all
  ultimately have nul: "cstr w = w" "cstr [c] = [c]" by simp_all
  show ?case
  proof (cases "wordchar c")
    case True
    have "length (w @ [c]) \<le> 255"
    proof -
      have "w @ c # takeWhile wordchar cs \<in> set (words (w @ c # cs))"
      proof (cases w)
        case Nil
        then show ?thesis using True by (simp add: words_wordchar)
      next
        case (Cons a v)
        then have "takeWhile wordchar (v @ c # cs) = v @ c # takeWhile wordchar cs"
          using Cons.prems(2) True by (subst takeWhile_append2) auto
        then show ?thesis using Cons Cons.prems(2) by (simp add: words_wordchar)
      qed
      then show ?thesis using Cons.prems(3) by fastforce
    qed
    then show ?thesis
      using Cons.IH [of "w @ [c]" sent] Cons.prems True by (simp add: wordchar_def)
  next
    case False
    then have W: "words (w @ c # cs) = words w @ words (c # cs)" by (intro words_append) auto
    have "set (words cs) \<subseteq> set (words (c # cs))" using False by (cases "isspace c") (auto simp: wordchar_def)
    then have "\<forall>x\<in>set (words cs). length x \<le> 255" using Cons.prems(3) W by auto
    then show ?thesis
      using Cons.IH [of "[]" "(if w \<noteq> [] then sent @ [cstr w] else sent) @ [cstr [c]]"]
        Cons.prems False nul by (auto simp: wordchar_def)
  qed
qed

section \<open>Statistics\<close>

text \<open>The words that are no delimiters.\<close>

definition plain_words :: "string \<Rightarrow> string list" where
  "plain_words s = filter (\<lambda>w. \<not> delim_word w) (split_into_words s)"

lemma plain_words_eq: "plain_words s = filter (\<lambda>w. \<not> delim_word w) (words s)"
  by (simp add: plain_words_def split_into_words_eq)

lemma delim_word_wordchar [simp]: "wordchar c \<Longrightarrow> \<not> delim_word (c # w)"
  by (simp add: delim_word_def first_char_def wordchar_def)

lemma plain_words_Cons:
  "length (plain_words (c # cs)) =
     (if wordchar c then Suc (length (plain_words (dropWhile wordchar cs))) else length (plain_words cs))"
  by (cases "isspace c") (auto simp: plain_words_eq words_wordchar wordchar_def)

lemma word_count_loop_plain:
  assumes "CHR 0xFF \<notin> set cs"
  shows "(case word_count_loop cs count in_word of (count', in') \<Rightarrow> if in' then count' + 1 else count') =
    count + (if in_word then 1 + int (length (plain_words (dropWhile wordchar cs)))
             else int (length (plain_words cs)))"
  using assms
proof (induction cs arbitrary: count in_word)
  case Nil
  then show ?case by (simp add: plain_words_eq)
next
  case (Cons c cs)
  have w: "isspace c \<or> c = CHR ''.'' \<or> c = CHR ''!'' \<or> c = CHR ''?'' \<longleftrightarrow> \<not> wordchar c"
    by (auto simp: wordchar_def is_delimiter_def)
  from Cons.prems have "c \<noteq> CHR 0xFF" "CHR 0xFF \<notin> set cs" by auto
  then show ?case
    using Cons.IH [of "count + 1" False] Cons.IH [of count False] Cons.IH [of count True]
    by (simp only: word_count_loop.simps w) (simp add: plain_words_Cons)
qed

lemma get_word_count_words:
  assumes "fs_files fs filepath = Some bytes" and "CHR 0xFF \<notin> set bytes"
  shows "get_word_count fs filepath =
    int (length (filter (\<lambda>w. \<not> is_delimiter (first_char w)) (split_into_words bytes)))"
  using assms word_count_loop_plain [of bytes 0 False]
  by (simp add: get_word_count_def plain_words_def delim_word_def)

section \<open>Paths\<close>

text \<open>The paths of a file of a short enough name are not cut by \<open>snprintf\<close>.\<close>

definition path_fits :: "StorageServer \<Rightarrow> string \<Rightarrow> bool" where
  "path_fits ss filename \<longleftrightarrow> length (ss_storage_path ss @ ''/'' @ filename @ ''.undo'') < MAX_PATH_LEN"

lemma paths_fit:
  "path_fits ss f \<Longrightarrow> ss_filepath ss f = ss_storage_path ss @ ''/'' @ f \<and>
     ss_undo_filepath ss f = ss_filepath ss f @ ''.undo''"
  by (simp add: path_fits_def ss_filepath_def ss_undo_filepath_def)

lemma paths_distinct: "path_fits ss f \<Longrightarrow> ss_filepath ss f \<noteq> ss_undo_filepath ss f"
  by (simp add: paths_fit)

lemma ss_filepath_cong [simp]:
  "ss_filepath (ss\<lparr>ss_fs := a\<rparr>) f = ss_filepath ss f"
  "ss_filepath (ss\<lparr>ss_sentence_locks := l\<rparr>) f = ss_filepath ss f"
  "ss_filepath (ss\<lparr>ss_file_locks := k\<rparr>) f = ss_filepath ss f"
  "ss_filepath (ss\<lparr>ss_next_log_id := n, ss_mod_log := m\<rparr>) f = ss_filepath ss f"
  "ss_undo_filepath (ss\<lparr>ss_fs := a\<rparr>) f = ss_undo_filepath ss f"
  "ss_undo_filepath (ss\<lparr>ss_sentence_locks := l\<rparr>) f = ss_undo_filepath ss f"
  "ss_undo_filepath (ss\<lparr>ss_file_locks := k\<rparr>) f = ss_undo_filepath ss f"
  by (simp_all add: ss_filepath_def ss_undo_filepath_def)

section \<open>The commit of a WRITE\<close>

text \<open>The server invariant: no sentence is locked twice, the log is ordered by its ids, and every
  logged commit added sentences.\<close>

definition ss_inv :: "StorageServer \<Rightarrow> bool" where
  "ss_inv ss \<longleftrightarrow> sentence_locks_inv ss \<and> log_inv ss \<and> (\<forall>e\<in>set (ss_mod_log ss). 0 < ml_sentence_delta e)"

text \<open>The text of the file as a commit sees it, and the server after the backup.\<close>

definition current_text :: "StorageServer \<Rightarrow> string \<Rightarrow> string" where
  "current_text ss f = (case get_file_content (ss_fs ss) (ss_filepath ss f) of None \<Rightarrow> [] | Some c \<Rightarrow> c)"

definition backed_up :: "StorageServer \<Rightarrow> string \<Rightarrow> StorageServer" where
  "backed_up ss f =
     ss\<lparr>ss_fs := fst (create_undo_backup (ss_fs ss) (ss_filepath ss f) (ss_undo_filepath ss f))\<rparr>"

lemma get_sentence_shift_cong [simp]:
  "get_sentence_shift (ss\<lparr>ss_fs := a\<rparr>) f i k = get_sentence_shift ss f i k"
  by (simp add: get_sentence_shift_def)

lemma backed_up_simps [simp]:
  "ss_filepath (backed_up ss f) g = ss_filepath ss g"
  "ss_undo_filepath (backed_up ss f) g = ss_undo_filepath ss g"
  "get_sentence_shift (backed_up ss f) g i k = get_sentence_shift ss g i k"
  "ss_sentence_locks (backed_up ss f) = ss_sentence_locks ss"
  "ss_mod_log (backed_up ss f) = ss_mod_log ss" "ss_next_log_id (backed_up ss f) = ss_next_log_id ss"
  "ss_storage_path (backed_up ss f) = ss_storage_path ss" "ss_file_locks (backed_up ss f) = ss_file_locks ss"
  "fs_writable (ss_fs (backed_up ss f)) = fs_writable (ss_fs ss)"
  by (simp_all add: backed_up_def undo.save_writable)

lemma current_text_backed_up:
  "ss_filepath ss f \<noteq> ss_undo_filepath ss f \<Longrightarrow> current_text (backed_up ss f) f = current_text ss f"
  unfolding current_text_def get_file_content_def by (simp add: backed_up_def undo.save_frame)

text \<open>The three outcomes of a commit.\<close>

lemma write_commit_eq:
  fixes ss f n k us
  defines "ss1 \<equiv> backed_up ss f" and "m \<equiv> n + get_sentence_shift ss f n k"
  defines "cur \<equiv> current_text ss1 f" and "path \<equiv> ss_filepath ss f"
  shows "write_commit ss f n k us =
    (case apply_updates cur m us of
       None \<Rightarrow> Some (ss1, [ToClient ''500 ERROR: Invalid update application during commit.''])
     | Some c \<Rightarrow>
         if \<not> fs_writable (ss_fs ss) path then Some (ss1, [ToClient ''500 ERROR: Failed to write file.''])
         else map_option (\<lambda>ss3. (ss3, [ToClient ''200 OK: Write Successful!'',
                ToNM (info_update f (int (length c)) (get_word_count (fs_write (ss_fs ss1) path c) path)
                  (get_char_count (fs_write (ss_fs ss1) path c) path))]))
              (log_modification (ss1\<lparr>ss_fs := fs_write (ss_fs ss1) path c\<rparr>) f m
                (int (length (sentences c)) - int (length (sentences cur)))))"
proof -
  have fs1: "ss\<lparr>ss_fs := ss_fs ss1\<rparr> = ss1"
    "fst (create_undo_backup (ss_fs ss) path (ss_undo_filepath ss f)) = ss_fs ss1"
    by (simp_all add: ss1_def backed_up_def path_def)
  have cur: "(case get_file_content (ss_fs ss1) path of None \<Rightarrow> [] | Some c \<Rightarrow> c) = cur"
    by (simp add: cur_def current_text_def ss1_def path_def)
  have "fs_writable (ss_fs ss1) = fs_writable (ss_fs ss)" by (simp add: ss1_def)
  moreover have "(if d \<noteq> 0 then log_modification s f m d else Some s) = log_modification s f m d" for s d
    by (simp add: log_modification_def)
  moreover have "n + get_sentence_shift ss1 f n k = m" by (simp add: ss1_def m_def)
  ultimately show ?thesis
    unfolding write_commit_def Let_def path_def [symmetric] fs1 cur split_into_sentences_eq
    by (simp only: map_option_case)
qed

lemma write_commit_cases:
  assumes "write_commit ss f n k us = Some (ss', outs)"
  obtains (failed) msg where "ss' = backed_up ss f" "outs = [ToClient msg]" "take 3 msg = ''500''"
      "apply_updates (current_text (backed_up ss f) f) (n + get_sentence_shift ss f n k) us = None \<or>
       \<not> fs_writable (ss_fs ss) (ss_filepath ss f)"
  | (committed) c d where
      "apply_updates (current_text (backed_up ss f) f) (n + get_sentence_shift ss f n k) us = Some c"
      "fs_writable (ss_fs ss) (ss_filepath ss f)"
      "d = int (length (sentences c)) - int (length (sentences (current_text (backed_up ss f) f)))"
      "log_modification ((backed_up ss f)\<lparr>ss_fs := fs_write (ss_fs (backed_up ss f)) (ss_filepath ss f) c\<rparr>)
         f (n + get_sentence_shift ss f n k) d = Some ss'"
      "outs = [ToClient ''200 OK: Write Successful!'',
         ToNM (info_update f (int (length c)) (get_word_count (ss_fs ss') (ss_filepath ss f))
                  (get_char_count (ss_fs ss') (ss_filepath ss f)))]"
proof -
  have same_fs: "log_modification s f m d = Some ss' \<Longrightarrow> ss_fs ss' = ss_fs s" for s m d
    using log_modification_Some by fastforce
  show thesis
  proof (cases "apply_updates (current_text (backed_up ss f) f) (n + get_sentence_shift ss f n k) us")
    case None
    then show ?thesis using assms by (intro failed) (auto simp: write_commit_eq)
  next
    case (Some c)
    show ?thesis
    proof (cases "fs_writable (ss_fs ss) (ss_filepath ss f)")
      case False
      then show ?thesis using assms Some by (intro failed) (auto simp: write_commit_eq)
    next
      case True
      then show ?thesis using assms Some same_fs
        by (intro committed [OF Some True refl]) (auto simp: write_commit_eq)
    qed
  qed
qed

text \<open>What every commit keeps.\<close>

lemma write_commit_keeps:
  assumes "write_commit ss f n k us = Some (ss', outs)"
  shows "ss_sentence_locks ss' = ss_sentence_locks ss" "ss_storage_path ss' = ss_storage_path ss"
    "fs_writable (ss_fs ss') = fs_writable (ss_fs ss)" "ss_file_locks ss' = ss_file_locks ss"
    "p \<noteq> ss_filepath ss f \<Longrightarrow> p \<noteq> ss_undo_filepath ss f \<Longrightarrow> fs_files (ss_fs ss') p = fs_files (ss_fs ss) p"
  using assms
  by (cases rule: write_commit_cases;
      auto dest!: log_modification_Some simp: fs_write_def backed_up_def undo.save_frame undo.save_writable)+

lemma log_inv_backed_up [simp]: "log_inv (backed_up ss f) = log_inv ss"
  by (simp add: log_inv_def)

lemma log_inv_fs [simp]: "log_inv (ss\<lparr>ss_fs := a\<rparr>) = log_inv ss"
  by (simp add: log_inv_def)

lemma write_commit_log:
  assumes "write_commit ss f n k us = Some (ss', outs)" "log_inv ss"
    "\<forall>e\<in>set (ss_mod_log ss). 0 < ml_sentence_delta e"
    "\<forall>u\<in>set us. split_string '' '' (un_content u) \<noteq> []"
  shows "log_inv ss'" "\<forall>e\<in>set (ss_mod_log ss'). 0 < ml_sentence_delta e"
proof -
  show "log_inv ss'"
    using assms(1)
  proof (cases rule: write_commit_cases)
    case (committed c d)
    show ?thesis by (rule log_inv_log_modification [OF _ committed(4)]) (simp add: assms(2))
  qed (simp add: assms(2))
  show "\<forall>e\<in>set (ss_mod_log ss'). 0 < ml_sentence_delta e"
    using assms(1)
  proof (cases rule: write_commit_cases)
    case (committed c d)
    have "0 \<le> d" using apply_updates_count [OF committed(1) assms(4)] committed(3) by simp
    then show ?thesis using log_modification_Some [OF committed(4)] assms(3) by auto
  qed (simp add: assms(3))
qed

section \<open>A WRITE request\<close>

lemma get_file_commit_lock_Some:
  "get_file_commit_lock ss f = Some (ss', node) \<Longrightarrow> \<exists>l. ss' = ss\<lparr>ss_file_locks := l\<rparr>"
  by (auto simp: get_file_commit_lock_def Let_def intro: exI [of _ "ss_file_locks ss"] split: option.splits)

lemma handle_ss_write_cases:
  assumes "handle_ss_write ss f n msgs = Some (ss', outs)"
  obtains (busy) "(f, n) \<in> held_sentences ss" "ss' = ss"
      "outs = [ToClient ''423 ERROR: This sentence is being edited by another user.'']"
  | (out_of_range) ss1 where "try_lock_sentence ss f n = Some (ss1, True)" "\<not> write_in_range ss1 f n"
      "ss' = unlock_sentence ss1 f n"
      "outs = [ToClient ''400 ERROR: Sentence index out of range (Previous sentence might be incomplete).'']"
  | (commit) ss1 l node ss2 outs2 where "try_lock_sentence ss f n = Some (ss1, True)" "write_in_range ss1 f n"
      "get_file_commit_lock ss1 f = Some (ss1\<lparr>ss_file_locks := l\<rparr>, node)"
      "write_commit (ss1\<lparr>ss_file_locks := l\<rparr>) f n (ss_next_log_id ss) (write_recv_loop msgs []) =
         Some (ss2, outs2)"
      "ss' = unlock_sentence ss2 f n" "outs = ToClient ''202 ACK_WRITE: Ready for updates.'' # outs2"
proof (cases "try_lock_sentence ss f n")
  case None
  then show ?thesis using assms by (simp add: handle_ss_write_def Let_def)
next
  case (Some r)
  obtain ss1 b where r: "r = (ss1, b)" by fastforce
  show ?thesis
  proof (cases b)
    case False
    then show ?thesis using assms Some r slock.try_lock_refused [of ss f n ss1]
      by (intro busy) (auto simp: handle_ss_write_def Let_def)
  next
    case True
    show ?thesis
    proof (cases "write_in_range ss1 f n")
      case False
      then show ?thesis using assms Some r True
        by (intro out_of_range) (auto simp: handle_ss_write_def Let_def)
    next
      case in_range: True
      then obtain l node where l: "get_file_commit_lock ss1 f = Some (ss1\<lparr>ss_file_locks := l\<rparr>, node)"
        using assms Some r True get_file_commit_lock_Some [of ss1 f]
        by (cases "get_file_commit_lock ss1 f") (fastforce simp: handle_ss_write_def Let_def)+
      then show ?thesis using assms Some r True in_range
        by (auto simp: handle_ss_write_def Let_def get_current_log_id_def split: option.splits
            intro: commit)
    qed
  qed
qed

lemma try_lock_sentence_Some:
  "try_lock_sentence ss f n = Some (ss', b) \<Longrightarrow> \<exists>l. ss' = ss\<lparr>ss_sentence_locks := l\<rparr>"
  by (auto simp: try_lock_sentence_cases intro: exI [of _ "ss_sentence_locks ss"] split: if_splits)

lemma unlock_sentence_simps [simp]:
  "ss_fs (unlock_sentence ss f n) = ss_fs ss" "ss_mod_log (unlock_sentence ss f n) = ss_mod_log ss"
  "ss_next_log_id (unlock_sentence ss f n) = ss_next_log_id ss"
  "ss_storage_path (unlock_sentence ss f n) = ss_storage_path ss"
  by (simp_all add: unlock_sentence_def)

lemma log_inv_cong:
  "ss_mod_log a = ss_mod_log b \<Longrightarrow> ss_next_log_id a = ss_next_log_id b \<Longrightarrow> log_inv a = log_inv b"
  by (simp add: log_inv_def)

lemma held_sentences_cong: "ss_sentence_locks a = ss_sentence_locks b \<Longrightarrow> held_sentences a = held_sentences b"
  by (simp add: held_sentences_def)

lemma sentence_locks_inv_cong:
  "ss_sentence_locks a = ss_sentence_locks b \<Longrightarrow> sentence_locks_inv a = sentence_locks_inv b"
  by (simp add: sentence_locks_inv_def)

lemmas ss_congs = log_inv_cong held_sentences_cong sentence_locks_inv_cong

lemma queued_tokens: "\<forall>u\<in>set (write_recv_loop msgs []). split_string '' '' (un_content u) \<noteq> []"
  by (rule ballI, erule write_recv_loop_tokens [rotated]) simp

text \<open>Whatever the outcome, the sentence is unlocked again, the invariant holds and only the two
  paths of the file may have changed.\<close>

lemma handle_ss_write_keeps:
  assumes "handle_ss_write ss f n msgs = Some (ss', outs)" "ss_inv ss"
  shows "ss_inv ss'" "held_sentences ss' = held_sentences ss" "ss_storage_path ss' = ss_storage_path ss"
    "p \<noteq> ss_filepath ss f \<Longrightarrow> p \<noteq> ss_undo_filepath ss f \<Longrightarrow> fs_files (ss_fs ss') p = fs_files (ss_fs ss) p"
proof -
  have inv: "sentence_locks_inv ss" "log_inv ss" "\<forall>e\<in>set (ss_mod_log ss). 0 < ml_sentence_delta e"
    using assms(2) by (auto simp: ss_inv_def)
  have "ss_inv ss' \<and> held_sentences ss' = held_sentences ss \<and> ss_storage_path ss' = ss_storage_path ss \<and>
    (p \<noteq> ss_filepath ss f \<longrightarrow> p \<noteq> ss_undo_filepath ss f \<longrightarrow> fs_files (ss_fs ss') p = fs_files (ss_fs ss) p)"
    using assms(1)
  proof (cases rule: handle_ss_write_cases)
    case (out_of_range ss1)
    obtain l where l: "ss1 = ss\<lparr>ss_sentence_locks := l\<rparr>" using try_lock_sentence_Some out_of_range(1) by blast
    have "sentence_locks_inv (unlock_sentence ss1 f n)"
      using slock.inv_unlock slock.inv_try_lock inv(1) out_of_range(1) by blast
    then show ?thesis
      using out_of_range(3) inv slock.lock_unlock [OF inv(1) out_of_range(1)] l
      by (simp add: ss_inv_def log_inv_def)
  next
    case (commit ss1 l node ss2 outs2)
    obtain k where k: "ss1 = ss\<lparr>ss_sentence_locks := k\<rparr>" using try_lock_sentence_Some commit(1) by blast
    have inv1: "sentence_locks_inv ss1" using slock.inv_try_lock inv(1) commit(1) by blast
    note keeps = write_commit_keeps [OF commit(4)]
    have locks: "held_sentences ss2 = held_sentences ss1" "sentence_locks_inv ss2 = sentence_locks_inv ss1"
      by (intro ss_congs, simp add: keeps(1))+
    have log1: "log_inv (ss1\<lparr>ss_file_locks := l\<rparr>)"
      "\<forall>e\<in>set (ss_mod_log (ss1\<lparr>ss_file_locks := l\<rparr>)). 0 < ml_sentence_delta e"
      using k inv(2,3) by (simp_all add: log_inv_def)
    note write_commit_log [OF commit(4) log1 queued_tokens]
    moreover have "sentence_locks_inv (unlock_sentence ss2 f n)"
      using slock.inv_unlock locks(2) inv1 by blast
    moreover have "held_sentences (unlock_sentence ss2 f n) = held_sentences ss"
    proof -
      have "sentence_locks_inv ss2" using locks(2) inv1 by simp
      then have "held_sentences (unlock_sentence ss2 f n) = held_sentences ss1 - {(f, n)}"
        by (simp only: slock.held_unlock locks(1))
      then show ?thesis using slock.try_lock_granted [OF commit(1)] by simp
    qed
    ultimately show ?thesis
      using commit(5) keeps(2,5) k by (simp add: ss_inv_def log_inv_def)
  qed (use assms(2) in simp)
  then show "ss_inv ss'" "held_sentences ss' = held_sentences ss" "ss_storage_path ss' = ss_storage_path ss"
    "p \<noteq> ss_filepath ss f \<Longrightarrow> p \<noteq> ss_undo_filepath ss f \<Longrightarrow> fs_files (ss_fs ss') p = fs_files (ss_fs ss) p"
    by blast+
qed

section \<open>UNDO\<close>

lemma perform_undo_frame: "p \<noteq> f \<Longrightarrow> p \<noteq> u \<Longrightarrow> fs_files (fst (perform_undo fs f u)) p = fs_files fs p"
  by (auto simp: perform_undo_def fs_rename_def split: option.splits)

lemma handle_ss_undo_keeps:
  assumes "handle_ss_undo ss f = Some (ss', outs)"
  shows "ss_inv ss \<Longrightarrow> ss_inv ss'" "held_sentences ss' = held_sentences ss" "ss_storage_path ss' = ss_storage_path ss"
    "p \<noteq> ss_filepath ss f \<Longrightarrow> p \<noteq> ss_undo_filepath ss f \<Longrightarrow> fs_files (ss_fs ss') p = fs_files (ss_fs ss) p"
proof -
  from assms obtain s1 node where g: "get_file_commit_lock ss f = Some (s1, node)"
    by (auto simp: handle_ss_undo_def Let_def split: option.splits)
  then obtain l where l: "s1 = ss\<lparr>ss_file_locks := l\<rparr>" using get_file_commit_lock_Some by blast
  have ss': "ss' = ss\<lparr>ss_file_locks := l,
      ss_fs := fst (perform_undo (ss_fs ss) (ss_filepath ss f) (ss_undo_filepath ss f))\<rparr>"
    using assms g l by (auto simp: handle_ss_undo_def Let_def split: option.splits prod.splits bool.splits)
  then show "ss_inv ss \<Longrightarrow> ss_inv ss'" "held_sentences ss' = held_sentences ss"
    "ss_storage_path ss' = ss_storage_path ss"
    by (simp_all add: ss_inv_def log_inv_def sentence_locks_inv_def held_sentences_def)
  show "p \<noteq> ss_filepath ss f \<Longrightarrow> p \<noteq> ss_undo_filepath ss f \<Longrightarrow> fs_files (ss_fs ss') p = fs_files (ss_fs ss) p"
    using ss' by (simp add: perform_undo_frame)
qed

section \<open>Any sequence of requests\<close>

text \<open>What reaches the server when its handlers run one after the other.\<close>

datatype server_event = ClientRequest string "string list" | NMCommand string

definition ss_event :: "StorageServer \<Rightarrow> server_event \<Rightarrow> (StorageServer \<times> outmsg list) option" where
  "ss_event ss e =
     (case e of ClientRequest request msgs \<Rightarrow> ss_handle_client_connection ss request msgs
      | NMCommand bytes \<Rightarrow> Some (ss_nm_command ss bytes))"

text \<open>The name of the file a request is about, and the paths it may touch.\<close>

definition event_filename :: "server_event \<Rightarrow> string option" where
  "event_filename e =
     (let parts = split_string '' '' (cstr (case e of ClientRequest r _ \<Rightarrow> r | NMCommand r \<Rightarrow> r))
      in if length parts < 2 then None else Some (parts ! 1))"

definition event_paths :: "StorageServer \<Rightarrow> server_event \<Rightarrow> string set" where
  "event_paths ss e =
     (case event_filename e of
        None \<Rightarrow> {}
      | Some f \<Rightarrow> {ss_filepath ss f, ss_undo_filepath ss f,
                   snprintf MAX_PATH_LEN (ss_filepath ss f @ ''.undo'')})"

locale server_step =
  fixes step :: "'s \<Rightarrow> 'e \<Rightarrow> ('s \<times> 'o list) option"
    and inv :: "'s \<Rightarrow> bool"
    and held :: "'s \<Rightarrow> 'l set"
    and files :: "'s \<Rightarrow> string \<Rightarrow> string option"
    and paths :: "'s \<Rightarrow> 'e \<Rightarrow> string set"
  assumes step_inv: "inv s \<Longrightarrow> step s e = Some (s', outs) \<Longrightarrow> inv s'"
    and step_held: "inv s \<Longrightarrow> step s e = Some (s', outs) \<Longrightarrow> held s' = held s"
    and step_files: "inv s \<Longrightarrow> step s e = Some (s', outs) \<Longrightarrow> p \<notin> paths s e \<Longrightarrow> files s' p = files s p"
    and step_paths: "inv s \<Longrightarrow> step s e = Some (s', outs) \<Longrightarrow> paths s' e' = paths s e'"
begin

lemma run_keeps:
  assumes "run_steps step s es = Some (s', outs)" "inv s"
  shows "inv s' \<and> held s' = held s \<and> paths s' e = paths s e \<and>
    ((\<forall>e\<in>set es. p \<notin> paths s e) \<longrightarrow> files s' p = files s p)"
  using assms
proof (induction es arbitrary: s outs)
  case (Cons a es)
  then obtain s1 o1 o2 where s1: "step s a = Some (s1, o1)" "run_steps step s1 es = Some (s', o2)"
    by (auto split: option.splits)
  have "inv s1" "held s1 = held s" "\<And>e. paths s1 e = paths s e"
    using s1(1) Cons.prems(2) step_inv step_held step_paths by blast+
  then show ?case using Cons.IH [OF s1(2)] step_files [OF Cons.prems(2) s1(1), of p] by simp
qed simp

end

lemma ss_nm_command_keeps:
  assumes "ss_nm_command ss bytes = (ss', outs)"
  shows "ss_sentence_locks ss' = ss_sentence_locks ss" "ss_mod_log ss' = ss_mod_log ss"
    "ss_next_log_id ss' = ss_next_log_id ss" "ss_storage_path ss' = ss_storage_path ss"
    "p \<notin> event_paths ss (NMCommand bytes) \<Longrightarrow> fs_files (ss_fs ss') p = fs_files (ss_fs ss) p"
  using assms
  by (auto simp: ss_nm_command_def Let_def fs_unlink_def fs_write_def event_paths_def event_filename_def
      split: if_splits)

lemma ss_request_keeps:
  assumes "ss_handle_client_connection ss request msgs = Some (ss', outs)" "ss_inv ss"
  shows "ss_inv ss' \<and> held_sentences ss' = held_sentences ss \<and> ss_storage_path ss' = ss_storage_path ss \<and>
    (p \<notin> event_paths ss (ClientRequest request msgs) \<longrightarrow> fs_files (ss_fs ss') p = fs_files (ss_fs ss) p)"
proof -
  let ?parts = "split_string '' '' (cstr request)"
  consider "ss' = ss"
    | n where "handle_ss_write ss (?parts ! 1) n msgs = Some (ss', outs)" "2 \<le> length ?parts"
    | "handle_ss_undo ss (?parts ! 1) = Some (ss', outs)" "2 \<le> length ?parts"
    using assms(1)
    by (auto simp: ss_handle_client_connection_def Let_def split: if_splits)
  then show ?thesis
  proof cases
    case (2 n)
    note handle_ss_write_keeps [OF 2(1) assms(2)]
    then show ?thesis using 2(2) by (simp add: event_paths_def event_filename_def)
  next
    case 3
    note handle_ss_undo_keeps [OF 3(1)]
    then show ?thesis using 3(2) assms(2) by (simp add: event_paths_def event_filename_def)
  qed (use assms(2) in simp)
qed

interpretation ss_run: server_step ss_event ss_inv held_sentences "\<lambda>ss. fs_files (ss_fs ss)" event_paths
proof unfold_locales
  fix s s' :: StorageServer and e outs p
  assume inv: "ss_inv s" and step: "ss_event s e = Some (s', outs)"
  have *: "ss_inv s' \<and> held_sentences s' = held_sentences s \<and> ss_storage_path s' = ss_storage_path s \<and>
    (p \<notin> event_paths s e \<longrightarrow> fs_files (ss_fs s') p = fs_files (ss_fs s) p)" for p
  proof (cases e)
    case (ClientRequest request msgs)
    then show ?thesis using ss_request_keeps inv step by (simp add: ss_event_def)
  next
    case (NMCommand bytes)
    then have "ss_nm_command s bytes = (s', outs)" using step by (simp add: ss_event_def)
    note keeps = ss_nm_command_keeps [OF this]
    have "ss_inv s'"
      using inv keeps(1-3) by (simp add: ss_inv_def log_inv_def sentence_locks_inv_def)
    then show ?thesis using keeps NMCommand by (simp add: held_sentences_def)
  qed
  show "ss_inv s'" "held_sentences s' = held_sentences s" using * by blast+
  show "p \<notin> event_paths s e \<Longrightarrow> fs_files (ss_fs s') p = fs_files (ss_fs s) p" using * by blast
  show "event_paths s' e' = event_paths s e'" for e'
    using * by (simp add: event_paths_def ss_filepath_def ss_undo_filepath_def split: option.split)
qed

section \<open>A WRITE that runs alone\<close>

lemma shift_current: "log_inv ss \<Longrightarrow> get_sentence_shift ss f n (ss_next_log_id ss) = 0"
  using new_entries_current by (simp add: get_sentence_shift_sum get_current_log_id_def)

lemma get_sentence_shift_log:
  "ss_mod_log a = ss_mod_log b \<Longrightarrow> get_sentence_shift a f n k = get_sentence_shift b f n k"
  by (simp add: get_sentence_shift_def)

lemma get_file_commit_lock_short:
  "length f < MAX_FILENAME_LEN - 1 \<Longrightarrow> \<exists>l node. get_file_commit_lock ss f = Some (ss\<lparr>ss_file_locks := l\<rparr>, node)"
proof -
  assume f: "length f < MAX_FILENAME_LEN - 1"
  then have "get_file_commit_lock ss f \<noteq> None"
    by (simp add: get_file_commit_lock_def strncpy_raw_def Let_def split: option.split)
  then show ?thesis using get_file_commit_lock_Some by fast
qed

lemma log_modification_short:
  "length f < MAX_FILENAME_LEN - 1 \<Longrightarrow> \<exists>ss'. log_modification ss f m d = Some ss' \<and> ss_fs ss' = ss_fs ss"
  by (simp add: log_modification_def strncpy_raw_def Let_def)

lemma backed_up_locks [simp]:
  "backed_up (ss\<lparr>ss_file_locks := l\<rparr>) f = (backed_up ss f)\<lparr>ss_file_locks := l\<rparr>"
  "backed_up (ss\<lparr>ss_sentence_locks := k\<rparr>) f = (backed_up ss f)\<lparr>ss_sentence_locks := k\<rparr>"
  by (simp_all add: backed_up_def)

lemma current_text_cong: "ss_fs a = ss_fs b \<Longrightarrow> ss_storage_path a = ss_storage_path b \<Longrightarrow> current_text a f = current_text b f"
  by (simp add: current_text_def ss_filepath_def)

lemma write_in_range_cong:
  "ss_fs a = ss_fs b \<Longrightarrow> ss_storage_path a = ss_storage_path b \<Longrightarrow> write_in_range a f n = write_in_range b f n"
  by (simp add: write_in_range_def ss_filepath_def)

text \<open>Two-phase view of a granted session: the handler is the commit between lock and unlock.\<close>

lemma handle_ss_write_granted:
  assumes "(f, n) \<notin> held_sentences ss" "length f < MAX_FILENAME_LEN - 1" "write_in_range ss f n"
  shows "\<exists>k l. handle_ss_write ss f n msgs =
    map_option (\<lambda>(s, outs). (unlock_sentence s f n, ToClient ''202 ACK_WRITE: Ready for updates.'' # outs))
      (write_commit (ss\<lparr>ss_sentence_locks := k, ss_file_locks := l\<rparr>) f n (ss_next_log_id ss)
        (write_recv_loop msgs []))"
proof -
  let ?k = "\<lparr>sl_filename = f, sl_sentence_num = n\<rparr> # ss_sentence_locks ss"
  let ?s = "ss\<lparr>ss_sentence_locks := ?k\<rparr>"
  have granted: "try_lock_sentence ss f n = Some (?s, True)" using assms by (simp add: try_lock_sentence_cases)
  obtain l node where l: "get_file_commit_lock ?s f = Some (?s\<lparr>ss_file_locks := l\<rparr>, node)"
    using get_file_commit_lock_short [OF assms(2)] by blast
  have "write_in_range ?s f n" using assms(3) write_in_range_cong [of ?s ss] by simp
  then have "handle_ss_write ss f n msgs =
    map_option (\<lambda>(s, outs). (unlock_sentence s f n, ToClient ''202 ACK_WRITE: Ready for updates.'' # outs))
      (write_commit (?s\<lparr>ss_file_locks := l\<rparr>) f n (ss_next_log_id ss) (write_recv_loop msgs []))"
    by (simp add: handle_ss_write_def Let_def granted l get_current_log_id_def split: option.split)
  then show ?thesis by blast
qed

text \<open>The commit of such a session works on the file as it is now, at the requested index.\<close>

lemma write_commit_current:
  assumes "ss_inv ss" "path_fits ss f" and s: "s = ss\<lparr>ss_sentence_locks := k, ss_file_locks := l\<rparr>"
  shows "current_text (backed_up s f) f = current_text ss f"
    "n + get_sentence_shift s f n (ss_next_log_id ss) = n" "ss_filepath s f = ss_filepath ss f"
    "ss_undo_filepath s f = ss_undo_filepath ss f" "fs_writable (ss_fs s) = fs_writable (ss_fs ss)"
    "ss_fs (backed_up s f) = ss_fs (backed_up ss f)"
proof -
  have "current_text (backed_up s f) f = current_text s f"
    using paths_distinct [OF assms(2)] by (intro current_text_backed_up) (simp add: s)
  then show "current_text (backed_up s f) f = current_text ss f" by (simp add: s current_text_def)
  show "n + get_sentence_shift s f n (ss_next_log_id ss) = n"
    using shift_current [of ss f n] assms(1) get_sentence_shift_log [of s ss]
    by (simp add: ss_inv_def s)
qed (simp_all add: s)

text \<open>The file system after the backup, and after a commit of \<open>c\<close>.\<close>

lemma ss_fs_backed_up:
  assumes "path_fits ss f" "fs_writable (ss_fs ss) (ss_undo_filepath ss f)"
  shows "ss_fs (backed_up ss f) = (ss_fs ss)\<lparr>fs_files :=
    (fs_files (ss_fs ss))(ss_undo_filepath ss f := fs_files (ss_fs ss) (ss_filepath ss f))\<rparr>"
  using create_undo_backup_eq [OF paths_distinct [OF assms(1)] assms(2)] by (simp add: backed_up_def)

lemma word_count_written [simp]:
  "get_word_count (fs_write fs p c) p = get_word_count (fs\<lparr>fs_files := [p \<mapsto> c]\<rparr>) p"
  "get_char_count (fs_write fs p c) p = wrap32 (int (length c))"
  by (simp_all add: get_word_count_def fs_write_def get_char_count_def get_file_size_def)

lemma write_success:
  assumes "ss_inv ss" "(filename, sent_num) \<notin> held_sentences ss" "length filename < MAX_FILENAME_LEN - 1"
    and "path_fits ss filename" "write_in_range ss filename sent_num"
    and "fs_writable (ss_fs ss) (ss_filepath ss filename)" "fs_writable (ss_fs ss) (ss_undo_filepath ss filename)"
    and "apply_updates (current_text ss filename) sent_num (write_recv_loop msgs []) = Some content"
  shows "\<exists>ss'. handle_ss_write ss filename sent_num msgs = Some (ss',
      [ToClient ''202 ACK_WRITE: Ready for updates.'', ToClient ''200 OK: Write Successful!'',
       ToNM (info_update filename (int (length content))
         (get_word_count (ss_fs ss') (ss_filepath ss filename)) (wrap32 (int (length content))))]) \<and>
    fs_files (ss_fs ss') = (fs_files (ss_fs ss))
      (ss_undo_filepath ss filename := fs_files (ss_fs ss) (ss_filepath ss filename),
       ss_filepath ss filename \<mapsto> content) \<and>
    fs_writable (ss_fs ss') = fs_writable (ss_fs ss) \<and> ss_storage_path ss' = ss_storage_path ss"
proof -
  obtain k l where handler: "handle_ss_write ss filename sent_num msgs =
    map_option (\<lambda>(s, outs). (unlock_sentence s filename sent_num,
        ToClient ''202 ACK_WRITE: Ready for updates.'' # outs))
      (write_commit (ss\<lparr>ss_sentence_locks := k, ss_file_locks := l\<rparr>) filename sent_num (ss_next_log_id ss)
        (write_recv_loop msgs []))"
    using handle_ss_write_granted [OF assms(2,3,5)] by blast
  define s where s: "s = ss\<lparr>ss_sentence_locks := k, ss_file_locks := l\<rparr>"
  note now = write_commit_current [OF assms(1,4) s]
  let ?d = "int (length (sentences content)) - int (length (sentences (current_text ss filename)))"
  obtain s2 where s2: "log_modification ((backed_up s filename)\<lparr>ss_fs := fs_write
      (ss_fs (backed_up s filename)) (ss_filepath ss filename) content\<rparr>) filename sent_num ?d = Some s2"
    "ss_fs s2 = fs_write (ss_fs (backed_up ss filename)) (ss_filepath ss filename) content"
    using log_modification_short [OF assms(3)] now(6) by fastforce
  have path: "ss_storage_path s2 = ss_storage_path ss"
    using log_modification_Some [OF s2(1)] by (auto simp: s)
  have "write_commit s filename sent_num (ss_next_log_id ss) (write_recv_loop msgs []) =
    Some (s2, [ToClient ''200 OK: Write Successful!'',
      ToNM (info_update filename (int (length content)) (get_word_count (ss_fs s2) (ss_filepath ss filename))
        (wrap32 (int (length content))))])"
    unfolding write_commit_eq now(1-5) assms(8) using assms(6) s2 now(6) by simp
  then show ?thesis
    using handler s2(2) path by (simp add: s [symmetric] ss_fs_backed_up [OF assms(4,7)] fs_write_def)
qed

text \<open>The same session when an update does not apply.\<close>

lemma write_failure:
  assumes "ss_inv ss" "(filename, sent_num) \<notin> held_sentences ss" "length filename < MAX_FILENAME_LEN - 1"
    and "path_fits ss filename" "write_in_range ss filename sent_num"
    and "fs_writable (ss_fs ss) (ss_undo_filepath ss filename)"
    and "apply_updates (current_text ss filename) sent_num (write_recv_loop msgs []) = None"
  shows "\<exists>ss'. handle_ss_write ss filename sent_num msgs = Some (ss',
      [ToClient ''202 ACK_WRITE: Ready for updates.'',
       ToClient ''500 ERROR: Invalid update application during commit.'']) \<and>
    fs_files (ss_fs ss') = (fs_files (ss_fs ss))
      (ss_undo_filepath ss filename := fs_files (ss_fs ss) (ss_filepath ss filename)) \<and>
    ss_mod_log ss' = ss_mod_log ss"
proof -
  obtain k l where handler: "handle_ss_write ss filename sent_num msgs =
    map_option (\<lambda>(s, outs). (unlock_sentence s filename sent_num,
        ToClient ''202 ACK_WRITE: Ready for updates.'' # outs))
      (write_commit (ss\<lparr>ss_sentence_locks := k, ss_file_locks := l\<rparr>) filename sent_num (ss_next_log_id ss)
        (write_recv_loop msgs []))"
    using handle_ss_write_granted [OF assms(2,3,5)] by blast
  define s where s: "s = ss\<lparr>ss_sentence_locks := k, ss_file_locks := l\<rparr>"
  note now = write_commit_current [OF assms(1,4) s]
  have log: "ss_mod_log (backed_up s filename) = ss_mod_log ss" by (simp add: s)
  have "write_commit s filename sent_num (ss_next_log_id ss) (write_recv_loop msgs []) =
    Some (backed_up s filename, [ToClient ''500 ERROR: Invalid update application during commit.''])"
    unfolding write_commit_eq now(1-5) assms(7) by simp
  then show ?thesis
    using handler now(6) log by (simp add: s [symmetric] ss_fs_backed_up [OF assms(4,6)])
qed

text \<open>UNDO restores the backup and consumes it.\<close>

lemma handle_ss_undo_eq:
  assumes "length f < MAX_FILENAME_LEN - 1" "path_fits ss f" "fs_writable (ss_fs ss) (ss_filepath ss f)"
  shows "\<exists>ss'. case fs_files (ss_fs ss) (ss_undo_filepath ss f) of
      None \<Rightarrow> handle_ss_undo ss f = Some (ss', [ToClient ''404 ERROR: No undo history.'']) \<and> ss_fs ss' = ss_fs ss
    | Some bytes \<Rightarrow> handle_ss_undo ss f = Some (ss', [ToClient ''200 OK: Undo Successful!'',
        ToNM (info_update f (int (length bytes)) (get_word_count (ss_fs ss') (ss_filepath ss f))
          (wrap32 (int (length bytes))))]) \<and>
        ss_fs ss' = (ss_fs ss)\<lparr>fs_files := (fs_files (ss_fs ss))
          (ss_undo_filepath ss f := None, ss_filepath ss f \<mapsto> bytes)\<rparr> \<and>
        ss_storage_path ss' = ss_storage_path ss"
proof -
  obtain l node where l: "get_file_commit_lock ss f = Some (ss\<lparr>ss_file_locks := l\<rparr>, node)"
    using get_file_commit_lock_short [OF assms(1)] by blast
  show ?thesis
  proof (cases "fs_files (ss_fs ss) (ss_undo_filepath ss f)")
    case None
    then show ?thesis using undo.restore_none l by (simp add: handle_ss_undo_def Let_def)
  next
    case (Some bytes)
    note restored = undo.restore_some [OF Some assms(3) paths_distinct [OF assms(2)]]
    show ?thesis using Some restored l
      by (simp add: handle_ss_undo_def Let_def get_char_count_def get_file_size_def)
  qed
qed

lemma path_fits_cong: "ss_storage_path a = ss_storage_path b \<Longrightarrow> path_fits a f = path_fits b f"
  by (simp add: path_fits_def)

lemma paths_cong: "ss_storage_path a = ss_storage_path b \<Longrightarrow>
    ss_filepath a f = ss_filepath b f \<and> ss_undo_filepath a f = ss_undo_filepath b f"
  by (simp add: ss_filepath_def ss_undo_filepath_def)

text \<open>The index check of a session, on the sentences of the file.\<close>

lemma last_char_terminated:
  assumes "sentence_ok s"
  shows "is_delimiter (case dropWhile isspace (rev s) of [] \<Rightarrow> CHR 0x00 | c # _ \<Rightarrow> c) \<longleftrightarrow> terminated s"
proof -
  obtain b c where s: "s = b @ [c]" using assms by (metis sentence_ok_def rev_exhaust)
  have b: "\<forall>x\<in>set b. \<not> is_delimiter x" using assms s by (simp add: sentence_ok_def)
  show ?thesis
  proof (cases "isspace c")
    case False
    then show ?thesis by (simp add: s terminated_def)
  next
    case True
    then have "\<not> is_delimiter c" using delimiter_not_space by blast
    moreover have "\<not> is_delimiter (case dropWhile isspace (rev b) of [] \<Rightarrow> CHR 0x00 | x # _ \<Rightarrow> x)"
    proof (cases "dropWhile isspace (rev b)")
      case (Cons x r)
      then have "x \<in> set b" using set_dropWhile_subset [of isspace "rev b"] by simp
      then show ?thesis using b Cons by simp
    next
      case Nil
      show ?thesis unfolding Nil by simp
    qed
    ultimately show ?thesis using True by (simp add: s terminated_def)
  qed
qed

lemma write_in_range_eq:
  "write_in_range ss f n \<longleftrightarrow>
     (let sents = split_into_sentences (current_text ss f) in
      0 \<le> n \<and> (n < int (length sents) \<or> n = int (length sents) \<and> (sents = [] \<or> terminated (last sents))))"
proof -
  have "sents \<noteq> [] \<Longrightarrow> sents = sentences (current_text ss f) \<Longrightarrow> sentence_ok (last sents)" for sents
    using wf_sentences_ok [OF wf_sentences_sentences] last_in_set by blast
  note ok = this [THEN last_char_terminated, OF _ refl]
  show ?thesis
    unfolding write_in_range_def max_valid_index_def current_text_def [symmetric] Let_def split_into_sentences_eq
    using ok by (cases "sentences (current_text ss f) = []") auto
qed

lemma parse_update_line:
  assumes "is_int32 word_idx" "CHR 0x00 \<notin> set content" "\<exists>c\<in>set content. c \<noteq> CHR '' ''"
  shows "parse_write_line (show_int word_idx @ '' '' @ content) =
    Update \<lparr>un_word_idx = word_idx, un_content = content\<rparr>"
proof -
  let ?b = "show_int word_idx @ CHR '' '' # content"
  have "split_string '' '' content \<noteq> []"
    using assms(3) by (intro split_string_not_Nil) simp
  then have "2 \<le> length (split_string '' '' ?b)" "split_string '' '' ?b ! 0 = show_int word_idx"
    by (simp_all add: split_string_field Suc_le_eq)
  moreover have "dropWhile (\<lambda>c. c \<noteq> CHR '' '') ?b = CHR '' '' # content"
    by (subst dropWhile_append2) auto
  moreover have "cstr ?b = ?b" using assms(2) by simp
  moreover have "?b \<noteq> ''ETIRW''"
  proof -
    have "CHR '' '' \<in> set ?b" "CHR '' '' \<notin> set ''ETIRW''" by simp_all
    then show ?thesis by metis
  qed
  ultimately show ?thesis using assms(1) by (simp add: parse_write_line_def Let_def)
qed

lemma stream_bytes:
  assumes "fs_files (ss_fs ss) (ss_filepath ss filename) = Some bytes"
    and "CHR 0x00 \<notin> set bytes" and "CHR 0xFF \<notin> set bytes"
    and "\<forall>w\<in>set (split_into_words bytes). length w \<le> 255"
  shows "concat (handle_ss_stream ss filename) = bytes"
proof -
  have "\<exists>w' sent'. stream_loop bytes [] [] = (w', sent') \<and> concat sent' @ cstr w' = concat [] @ [] @ bytes"
    using assms by (intro stream_loop_concat) (auto simp: split_into_words_eq)
  then show ?thesis using assms(1) by (auto simp: handle_ss_stream_def)
qed

section \<open>A server for the concrete instances\<close>

definition demo_fs :: FileSystem where
  "demo_fs = \<lparr>fs_files = [''s/a'' \<mapsto> ''Hi you. Bye.''], fs_writable = (\<lambda>_. True)\<rparr>"

definition demo_ss :: StorageServer where
  "demo_ss = ss_create ''s'' 9000 demo_fs"

lemma demo_ss_facts:
  "ss_inv demo_ss" "held_sentences demo_ss = {}" "path_fits demo_ss ''a''"
  "fs_files (ss_fs demo_ss) (ss_filepath demo_ss ''a'') = Some ''Hi you. Bye.''"
  "fs_writable (ss_fs demo_ss) p" "current_text demo_ss ''a'' = ''Hi you. Bye.''"
  by (simp_all add: demo_ss_def demo_fs_def ss_create_def ss_inv_def sentence_locks_inv_def log_inv_def
      held_sentences_def path_fits_def ss_filepath_def current_text_def get_file_content_def)

lemma demo_session:
  "apply_updates (current_text demo_ss ''a'') 0 (write_recv_loop [''1 all of'', ''ETIRW''] []) = Some ''Hi all of you. Bye.''"
  "apply_updates (current_text demo_ss ''a'') 0 (write_recv_loop [''7 no'', ''ETIRW''] []) = None"
  "write_in_range demo_ss ''a'' 0" "(''a'', 0) \<notin> held_sentences demo_ss" "length ''a'' < MAX_FILENAME_LEN - 1"
  by code_simp+

section \<open>Properties\<close>

text \<open>READ delivers the file byte by byte, whatever it holds, in non-empty pieces smaller than
  a message buffer.\<close>

theorem read_delivers_file:
  assumes "fs_files (ss_fs ss) (ss_filepath ss filename) = Some bytes"
  shows "concat (handle_ss_read ss filename) = bytes \<and>
    (\<forall>m\<in>set (handle_ss_read ss filename). m \<noteq> [] \<and> length m < BUFFER_SIZE)"
  using assms length_chunk [of _ "BUFFER_SIZE - 1" bytes] by (force simp: handle_ss_read_def)

theorem read_delivers_file_witness:
  "concat (handle_ss_read demo_ss ''a'') = ''Hi you. Bye.''"
  using read_delivers_file [OF demo_ss_facts(4)] by blast

text \<open>STREAM delivers the same bytes word by word, provided no word is longer than the 255
  bytes of its buffer and the file holds neither a NUL nor the byte \<open>0xFF\<close> (which \<open>char c\<close>
  confuses with EOF).\<close>

theorem stream_delivers_file:
  assumes "fs_files (ss_fs ss) (ss_filepath ss filename) = Some bytes"
    and "CHR 0x00 \<notin> set bytes" and "CHR 0xFF \<notin> set bytes"
    and "\<forall>w\<in>set (split_into_words bytes). length w \<le> 255"
  shows "concat (handle_ss_stream ss filename) = bytes"
  by (rule stream_bytes [OF assms])

theorem stream_delivers_file_witness:
  "concat (handle_ss_stream demo_ss ''a'') = ''Hi you. Bye.''"
proof -
  have "split_into_words ''Hi you. Bye.'' = [''Hi'', ''you'', ''.'', ''Bye'', ''.'']" by code_simp
  then show ?thesis using stream_delivers_file [OF demo_ss_facts(4)] by simp
qed

text \<open>\<open>get_word_count\<close> counts the words of the parser that are no delimiters, in a file
  without the byte \<open>0xFF\<close>: the statistics of a file agree with the text model of a WRITE.\<close>

theorem word_count_counts_words:
  assumes "fs_files fs filepath = Some bytes" and "CHR 0xFF \<notin> set bytes"
  shows "get_word_count fs filepath =
    int (length (filter (\<lambda>w. \<not> is_delimiter (first_char w)) (split_into_words bytes)))"
  by (rule get_word_count_words [OF assms])

theorem word_count_counts_words_witness:
  "get_word_count demo_fs ''s/a'' = 3"
proof -
  have w: "filter (\<lambda>w. \<not> is_delimiter (first_char w)) (split_into_words ''Hi you. Bye.'') =
    [''Hi'', ''you'', ''Bye'']" by code_simp
  have "fs_files demo_fs ''s/a'' = Some ''Hi you. Bye.''" by (simp add: demo_fs_def)
  from word_count_counts_words [OF this] show ?thesis unfolding w by simp
qed

text \<open>C2. A WRITE session that runs alone and whose updates all apply: the client gets the
  acknowledgement and the success, the name server the statistics, the file holds the updated
  text and the backup the bytes it had before; nothing else of the file system changes.\<close>

theorem write_commits:
  assumes "ss_inv ss" "(filename, sent_num) \<notin> held_sentences ss" "length filename < MAX_FILENAME_LEN - 1"
    and "path_fits ss filename" "write_in_range ss filename sent_num"
    and "fs_writable (ss_fs ss) (ss_filepath ss filename)" "fs_writable (ss_fs ss) (ss_undo_filepath ss filename)"
    and "apply_updates (current_text ss filename) sent_num (write_recv_loop msgs []) = Some content"
  shows "\<exists>ss'. handle_ss_write ss filename sent_num msgs = Some (ss',
      [ToClient ''202 ACK_WRITE: Ready for updates.'', ToClient ''200 OK: Write Successful!'',
       ToNM (info_update filename (int (length content))
         (get_word_count (ss_fs ss') (ss_filepath ss filename)) (wrap32 (int (length content))))]) \<and>
    fs_files (ss_fs ss') = (fs_files (ss_fs ss))
      (ss_undo_filepath ss filename := fs_files (ss_fs ss) (ss_filepath ss filename),
       ss_filepath ss filename \<mapsto> content)"
  using write_success [OF assms] by blast

theorem write_commits_witness:
  "\<exists>ss' info. handle_ss_write demo_ss ''a'' 0 [''1 all of'', ''ETIRW''] = Some (ss',
      [ToClient ''202 ACK_WRITE: Ready for updates.'', ToClient ''200 OK: Write Successful!'', ToNM info]) \<and>
    fs_files (ss_fs ss') (ss_filepath demo_ss ''a'') = Some ''Hi all of you. Bye.''"
  using write_commits [OF demo_ss_facts(1) demo_session(4,5) demo_ss_facts(3) demo_session(3)
    demo_ss_facts(5,5) demo_session(1)]
  by auto

text \<open>C16. A session with an update that does not apply is all or nothing: the client gets the 500,
  the file and the modification log are as before. The backup is overwritten all the same, so
  the undo history of the previous WRITE is gone.\<close>

theorem failed_write_keeps_file:
  assumes "ss_inv ss" "(filename, sent_num) \<notin> held_sentences ss" "length filename < MAX_FILENAME_LEN - 1"
    and "path_fits ss filename" "write_in_range ss filename sent_num"
    and "fs_writable (ss_fs ss) (ss_undo_filepath ss filename)"
    and "apply_updates (current_text ss filename) sent_num (write_recv_loop msgs []) = None"
  shows "\<exists>ss'. handle_ss_write ss filename sent_num msgs = Some (ss',
      [ToClient ''202 ACK_WRITE: Ready for updates.'',
       ToClient ''500 ERROR: Invalid update application during commit.'']) \<and>
    fs_files (ss_fs ss') (ss_filepath ss filename) = fs_files (ss_fs ss) (ss_filepath ss filename) \<and>
    ss_mod_log ss' = ss_mod_log ss \<and>
    fs_files (ss_fs ss') (ss_undo_filepath ss filename) = fs_files (ss_fs ss) (ss_filepath ss filename)"
  using write_failure [OF assms] paths_distinct [OF assms(4)] by fastforce

theorem failed_write_keeps_file_witness:
  "\<exists>ss'. handle_ss_write demo_ss ''a'' 0 [''7 no'', ''ETIRW''] = Some (ss',
      [ToClient ''202 ACK_WRITE: Ready for updates.'',
       ToClient ''500 ERROR: Invalid update application during commit.'']) \<and>
    fs_files (ss_fs ss') (ss_filepath demo_ss ''a'') = Some ''Hi you. Bye.''"
  using failed_write_keeps_file [OF demo_ss_facts(1) demo_session(4,5) demo_ss_facts(3) demo_session(3)
    demo_ss_facts(5) demo_session(2)] demo_ss_facts(4)
  by auto

text \<open>C5. UNDO after a successful WRITE brings back the exact bytes the file had before it, byte
  0 included, and leaves no history: a second UNDO answers 404 and changes nothing.\<close>

theorem write_undo_restores:
  assumes "ss_inv ss" "(filename, sent_num) \<notin> held_sentences ss" "length filename < MAX_FILENAME_LEN - 1"
    and "path_fits ss filename" "write_in_range ss filename sent_num"
    and "fs_writable (ss_fs ss) (ss_filepath ss filename)" "fs_writable (ss_fs ss) (ss_undo_filepath ss filename)"
    and "apply_updates (current_text ss filename) sent_num (write_recv_loop msgs []) = Some content"
    and "fs_files (ss_fs ss) (ss_filepath ss filename) = Some bytes"
  shows "\<exists>s1 out1 s2 out2 s3. handle_ss_write ss filename sent_num msgs = Some (s1, out1) \<and>
    handle_ss_undo s1 filename = Some (s2, ToClient ''200 OK: Undo Successful!'' # out2) \<and>
    fs_files (ss_fs s2) (ss_filepath ss filename) = Some bytes \<and>
    handle_ss_undo s2 filename = Some (s3, [ToClient ''404 ERROR: No undo history.'']) \<and>
    ss_fs s3 = ss_fs s2"
proof -
  let ?f = "ss_filepath ss filename" and ?u = "ss_undo_filepath ss filename"
  obtain s1 out1 where s1: "handle_ss_write ss filename sent_num msgs = Some (s1, out1)"
    "fs_files (ss_fs s1) = (fs_files (ss_fs ss))(?u \<mapsto> bytes, ?f \<mapsto> content)"
    "fs_writable (ss_fs s1) = fs_writable (ss_fs ss)" "ss_storage_path s1 = ss_storage_path ss"
    using write_success [OF assms(1-8)] assms(9) by auto
  have paths1: "path_fits s1 filename" "ss_filepath s1 filename = ?f" "ss_undo_filepath s1 filename = ?u"
    using assms(4) path_fits_cong [OF s1(4)] paths_cong [OF s1(4)] by simp_all
  have u1: "fs_files (ss_fs s1) ?u = Some bytes" using s1(2) paths_distinct [OF assms(4)] by simp
  obtain s2 out2 where s2: "handle_ss_undo s1 filename = Some (s2, ToClient ''200 OK: Undo Successful!'' # out2)"
    "ss_fs s2 = (ss_fs s1)\<lparr>fs_files := (fs_files (ss_fs s1))(?u := None, ?f \<mapsto> bytes)\<rparr>"
    "ss_storage_path s2 = ss_storage_path s1"
    using handle_ss_undo_eq [OF assms(3) paths1(1)] s1(3) assms(6) by (auto simp: paths1 u1)
  have paths2: "path_fits s2 filename" "ss_filepath s2 filename = ?f" "ss_undo_filepath s2 filename = ?u"
    using paths1 path_fits_cong [OF s2(3)] paths_cong [OF s2(3)] by simp_all
  have "fs_files (ss_fs s2) ?u = None" using s2(2) paths_distinct [OF assms(4)] by simp
  then obtain s3 where "handle_ss_undo s2 filename = Some (s3, [ToClient ''404 ERROR: No undo history.''])"
    "ss_fs s3 = ss_fs s2"
    using handle_ss_undo_eq [OF assms(3) paths2(1)] s1(3) s2(2) assms(6) by (auto simp: paths2)
  then show ?thesis using s1(1) s2(1,2) by auto
qed

theorem write_undo_restores_witness:
  "\<exists>s1 out1 s2 out2. handle_ss_write demo_ss ''a'' 0 [''1 all of'', ''ETIRW''] = Some (s1, out1) \<and>
    handle_ss_undo s1 ''a'' = Some (s2, out2) \<and>
    fs_files (ss_fs s2) (ss_filepath demo_ss ''a'') = Some ''Hi you. Bye.''"
  using write_undo_restores [OF demo_ss_facts(1) demo_session(4,5) demo_ss_facts(3) demo_session(3)
    demo_ss_facts(5,5) demo_session(1) demo_ss_facts(4)]
  by blast

text \<open>A session may edit every sentence of the file, and append one past the end only when
  the file is empty or its last sentence is complete.\<close>

theorem write_index_rule:
  "write_in_range ss filename sent_num \<longleftrightarrow>
     (let sents = split_into_sentences (current_text ss filename) in
      0 \<le> sent_num \<and> (sent_num < int (length sents) \<or>
        sent_num = int (length sents) \<and> (sents = [] \<or> terminated (last sents))))"
  by (rule write_in_range_eq)



text \<open>The line a client sends for an update, word index, space, content, is queued as that
  index and that content, byte for byte.\<close>

theorem update_line_round_trip:
  assumes "is_int32 word_idx" "CHR 0x00 \<notin> set content" "\<exists>c\<in>set content. c \<noteq> CHR '' ''"
  shows "parse_write_line (show_int word_idx @ '' '' @ content) =
    Update \<lparr>un_word_idx = word_idx, un_content = content\<rparr>"
  by (rule parse_update_line [OF assms])

theorem update_line_round_trip_witness:
  "parse_write_line ''12 a.b'' = Update \<lparr>un_word_idx = 12, un_content = ''a.b''\<rparr>"
proof -
  have "show_int 12 = ''12''" by code_simp
  then show ?thesis using update_line_round_trip [of 12 "''a.b''"] by (simp add: is_int32_def)
qed

end
