(* ===== verification/Write_Session.thy ===== *)
theory Write_Session
  imports Storage_Server
begin

text \<open>
  WRITE sessions running at the same time: \<open>handle_ss_write\<close> cut into the pieces between which
  other threads can run. A session captures the log id, tries the sentence lock, checks the
  index, receives its lines one by one, fetches and takes the commit mutex of its file, commits,
  releases the mutex and unlocks the sentence. \<open>session_step\<close> is one such piece of one thread on
  the shared server, \<open>ws_step\<close> the interleaving of any number of sessions with the other requests.

  A commit is one step: the file and its backup are written only under the mutex of the file
  (an UNDO waits for it). The commands of the name server take no mutex and may run anywhere.

  The invariant gives mutual exclusion on sentences and on commits; from it follow freedom of
  deadlock and, with the measure \<open>sessions_left\<close>, that every session ends.
\<close>

section \<open>The mutexes\<close>

definition file_holder :: "StorageServer \<Rightarrow> string \<Rightarrow> nat option" where
  "file_holder ss filename =
     (case List.find (\<lambda>node. fl_filename node = filename) (ss_file_locks ss) of
        None \<Rightarrow> None | Some node \<Rightarrow> fl_holder node)"

definition file_lock_known :: "StorageServer \<Rightarrow> string \<Rightarrow> bool" where
  "file_lock_known ss filename \<longleftrightarrow>
     List.find (\<lambda>node. fl_filename node = filename) (ss_file_locks ss) \<noteq> None"

text \<open>\<open>pthread_mutex_lock\<close> by thread \<open>t\<close> on the node of the file, once it is free.\<close>

definition lock_file :: "StorageServer \<Rightarrow> string \<Rightarrow> nat \<Rightarrow> StorageServer" where
  "lock_file ss filename t =
     ss\<lparr>ss_file_locks := update_first (\<lambda>node. fl_filename node = filename)
          (\<lambda>node. node\<lparr>fl_holder := Some t\<rparr>) (ss_file_locks ss)\<rparr>"

definition unlock_file :: "StorageServer \<Rightarrow> string \<Rightarrow> StorageServer" where
  "unlock_file ss filename =
     ss\<lparr>ss_file_locks := update_first (\<lambda>node. fl_filename node = filename)
          (\<lambda>node. node\<lparr>fl_holder := None\<rparr>) (ss_file_locks ss)\<rparr>"

text \<open>What a commit relies on.\<close>

locale mutex_table =
  fixes holder :: "'s \<Rightarrow> 'k \<Rightarrow> 't option" and known :: "'s \<Rightarrow> 'k \<Rightarrow> bool"
    and acquire :: "'s \<Rightarrow> 'k \<Rightarrow> 't \<Rightarrow> 's" and release :: "'s \<Rightarrow> 'k \<Rightarrow> 's"
  assumes holder_acquire:
      "known s k \<Longrightarrow> holder (acquire s k t) j = (if j = k then Some t else holder s j)"
    and holder_release: "holder (release s k) j = (if j = k then None else holder s j)"
    and known_acquire: "known (acquire s k t) j = known s j"
    and known_release: "known (release s k) j = known s j"
begin

lemma acquire_release: "known s k \<Longrightarrow> holder s k = None \<Longrightarrow> holder (release (acquire s k t) k) = holder s"
  by (rule ext) (simp add: holder_acquire holder_release)

lemma released_free: "holder (release s k) k = None"
  by (simp add: holder_release)

end

interpretation commit_mutex: mutex_table file_holder file_lock_known lock_file unlock_file
  by unfold_locales
    (auto simp: file_holder_def file_lock_known_def lock_file_def unlock_file_def list_node_simps
      split: option.splits)

section \<open>One session\<close>

datatype session_phase =
  Requested | Captured | Granted | Receiving | Queued | LockFetched | Committing | Committed |
  Unlocking | Finished

text \<open>The order in which a session goes through its phases.\<close>

definition phase_rank :: "session_phase \<Rightarrow> nat" where
  "phase_rank p = (case p of Requested \<Rightarrow> 9 | Captured \<Rightarrow> 8 | Granted \<Rightarrow> 7 | Receiving \<Rightarrow> 6 | Queued \<Rightarrow> 5
     | LockFetched \<Rightarrow> 4 | Committing \<Rightarrow> 3 | Committed \<Rightarrow> 2 | Unlocking \<Rightarrow> 1 | Finished \<Rightarrow> 0)"

lemma phase_rank_inject: "phase_rank p = phase_rank q \<longleftrightarrow> p = q"
  by (cases p; cases q) (simp_all add: phase_rank_def)

instantiation session_phase :: linorder
begin

definition less_eq_session_phase :: "session_phase \<Rightarrow> session_phase \<Rightarrow> bool" where
  "less_eq_session_phase p q \<longleftrightarrow> phase_rank q \<le> phase_rank p"

definition less_session_phase :: "session_phase \<Rightarrow> session_phase \<Rightarrow> bool" where
  "less_session_phase p q \<longleftrightarrow> phase_rank q < phase_rank p"

instance
  by standard (auto simp: less_eq_session_phase_def less_session_phase_def phase_rank_inject)

end

lemmas phase_order = less_eq_session_phase_def less_session_phase_def phase_rank_def

record Session =
  se_filename :: string
  se_sent_num :: c_int
  se_start_log_id :: c_int
  se_msgs :: "string list"
  se_updates :: "UpdateNode list"
  se_phase :: session_phase

definition new_session :: "string \<Rightarrow> c_int \<Rightarrow> string list \<Rightarrow> Session" where
  "new_session filename sent_num msgs =
     \<lparr>se_filename = filename, se_sent_num = sent_num, se_start_log_id = 0, se_msgs = msgs,
      se_updates = [], se_phase = Requested\<rparr>"

inductive session_step ::
  "nat \<Rightarrow> StorageServer \<Rightarrow> Session \<Rightarrow> StorageServer \<Rightarrow> Session \<Rightarrow> outmsg list \<Rightarrow> bool"
  for t :: nat where
  capture:
    "se_phase se = Requested \<Longrightarrow>
     session_step t ss se ss (se\<lparr>se_start_log_id := get_current_log_id ss, se_phase := Captured\<rparr>) []"
| lock_granted:
    "se_phase se = Captured \<Longrightarrow> try_lock_sentence ss (se_filename se) (se_sent_num se) = Some (ss', True) \<Longrightarrow>
     session_step t ss se ss' (se\<lparr>se_phase := Granted\<rparr>) []"
| lock_refused:
    "se_phase se = Captured \<Longrightarrow> try_lock_sentence ss (se_filename se) (se_sent_num se) = Some (ss', False) \<Longrightarrow>
     session_step t ss se ss' (se\<lparr>se_phase := Finished\<rparr>)
       [ToClient ''423 ERROR: This sentence is being edited by another user.'']"
| index_bad:
    "se_phase se = Granted \<Longrightarrow> \<not> write_in_range ss (se_filename se) (se_sent_num se) \<Longrightarrow>
     session_step t ss se (unlock_sentence ss (se_filename se) (se_sent_num se)) (se\<lparr>se_phase := Finished\<rparr>)
       [ToClient ''400 ERROR: Sentence index out of range (Previous sentence might be incomplete).'']"
| index_ok:
    "se_phase se = Granted \<Longrightarrow> write_in_range ss (se_filename se) (se_sent_num se) \<Longrightarrow>
     session_step t ss se ss (se\<lparr>se_phase := Receiving\<rparr>) [ToClient ''202 ACK_WRITE: Ready for updates.'']"
| closed:
    "se_phase se = Receiving \<Longrightarrow> se_msgs se = [] \<or> hd (se_msgs se) = [] \<Longrightarrow>
     session_step t ss se ss (se\<lparr>se_phase := Queued\<rparr>) []"
| etirw:
    "se_phase se = Receiving \<Longrightarrow> se_msgs se = m # ms \<Longrightarrow> m \<noteq> [] \<Longrightarrow> parse_write_line m = Etirw \<Longrightarrow>
     session_step t ss se ss (se\<lparr>se_msgs := ms, se_phase := Queued\<rparr>) []"
| skip_line:
    "se_phase se = Receiving \<Longrightarrow> se_msgs se = m # ms \<Longrightarrow> m \<noteq> [] \<Longrightarrow> parse_write_line m = TooShort \<Longrightarrow>
     session_step t ss se ss (se\<lparr>se_msgs := ms\<rparr>) []"
| queue_line:
    "se_phase se = Receiving \<Longrightarrow> se_msgs se = m # ms \<Longrightarrow> m \<noteq> [] \<Longrightarrow> parse_write_line m = Update u \<Longrightarrow>
     session_step t ss se ss (se\<lparr>se_msgs := ms, se_updates := se_updates se @ [u]\<rparr>) []"
| fetch_mutex:
    "se_phase se = Queued \<Longrightarrow> get_file_commit_lock ss (se_filename se) = Some (ss', node) \<Longrightarrow>
     session_step t ss se ss' (se\<lparr>se_phase := LockFetched\<rparr>) []"
| take_mutex:
    "se_phase se = LockFetched \<Longrightarrow> file_holder ss (se_filename se) = None \<Longrightarrow>
     session_step t ss se (lock_file ss (se_filename se) t) (se\<lparr>se_phase := Committing\<rparr>) []"
| commit:
    "se_phase se = Committing \<Longrightarrow>
     write_commit ss (se_filename se) (se_sent_num se) (se_start_log_id se) (se_updates se) = Some (ss', outs) \<Longrightarrow>
     session_step t ss se ss' (se\<lparr>se_phase := Committed\<rparr>) outs"
| release_mutex:
    "se_phase se = Committed \<Longrightarrow>
     session_step t ss se (unlock_file ss (se_filename se)) (se\<lparr>se_phase := Unlocking\<rparr>) []"
| unlock:
    "se_phase se = Unlocking \<Longrightarrow>
     session_step t ss se (unlock_sentence ss (se_filename se) (se_sent_num se)) (se\<lparr>se_phase := Finished\<rparr>) []"

inductive_cases session_step_cases: "session_step t ss se ss' se' outs"

section \<open>All sessions\<close>

record WriteSystem =
  ws_ss :: StorageServer
  ws_sessions :: "Session list"
  ws_sent :: "(nat \<times> outmsg) list"

inductive session_moves :: "WriteSystem \<Rightarrow> WriteSystem \<Rightarrow> bool" where
  move:
    "t < length (ws_sessions s) \<Longrightarrow> session_step t (ws_ss s) (ws_sessions s ! t) ss' se' outs \<Longrightarrow>
     session_moves s (s\<lparr>ws_ss := ss', ws_sessions := (ws_sessions s)[t := se'],
                        ws_sent := ws_sent s @ map (Pair t) outs\<rparr>)"

inductive ws_step :: "WriteSystem \<Rightarrow> WriteSystem \<Rightarrow> bool" where
  session: "session_moves s s' \<Longrightarrow> ws_step s s'"
| request:
    "ws_step s (s\<lparr>ws_sessions := ws_sessions s @ [new_session filename sent_num msgs]\<rparr>)"
| undo_request:
    "file_holder (ws_ss s) filename = None \<Longrightarrow> handle_ss_undo (ws_ss s) filename = Some (ss', outs) \<Longrightarrow>
     ws_step s (s\<lparr>ws_ss := ss'\<rparr>)"
| nm_command:
    "ws_step s (s\<lparr>ws_ss := fst (ss_nm_command (ws_ss s) bytes)\<rparr>)"


text \<open>What a freshly started server can come to.\<close>

inductive reachable :: "string \<Rightarrow> c_int \<Rightarrow> FileSystem \<Rightarrow> WriteSystem \<Rightarrow> bool" for path port fs where
  start: "reachable path port fs \<lparr>ws_ss = ss_create path port fs, ws_sessions = [], ws_sent = []\<rparr>"
| step: "reachable path port fs s \<Longrightarrow> ws_step s s' \<Longrightarrow> reachable path port fs s'"

section \<open>What one step does to the locks\<close>

definition se_key :: "Session \<Rightarrow> string \<times> c_int" where
  "se_key se = (se_filename se, se_sent_num se)"

definition holds_sentence :: "Session \<Rightarrow> bool" where
  "holds_sentence se \<longleftrightarrow>
     se_phase se \<in> {Granted, Receiving, Queued, LockFetched, Committing, Committed, Unlocking}"

definition holds_mutex :: "Session \<Rightarrow> bool" where
  "holds_mutex se \<longleftrightarrow> se_phase se \<in> {Committing, Committed}"

definition needs_mutex :: "Session \<Rightarrow> bool" where
  "needs_mutex se \<longleftrightarrow> se_phase se \<in> {LockFetched, Committing, Committed}"

lemmas session_flags = holds_sentence_def holds_mutex_def needs_mutex_def se_key_def

definition queued_ok :: "Session \<Rightarrow> bool" where
  "queued_ok se \<longleftrightarrow> (\<forall>u\<in>set (se_updates se). split_string '' '' (un_content u) \<noteq> [])"

lemma ss_inv_cong:
  "ss_sentence_locks a = ss_sentence_locks b \<Longrightarrow> ss_mod_log a = ss_mod_log b \<Longrightarrow>
     ss_next_log_id a = ss_next_log_id b \<Longrightarrow> ss_inv a = ss_inv b"
  by (simp add: ss_inv_def sentence_locks_inv_def log_inv_def)

lemma lock_file_simps [simp]:
  "ss_sentence_locks (lock_file ss f t) = ss_sentence_locks ss" "ss_mod_log (lock_file ss f t) = ss_mod_log ss"
  "ss_next_log_id (lock_file ss f t) = ss_next_log_id ss"
  "ss_sentence_locks (unlock_file ss f) = ss_sentence_locks ss" "ss_mod_log (unlock_file ss f) = ss_mod_log ss"
  "ss_next_log_id (unlock_file ss f) = ss_next_log_id ss"
  "ss_inv (lock_file ss f t) = ss_inv ss" "ss_inv (unlock_file ss f) = ss_inv ss"
  "held_sentences (lock_file ss f t) = held_sentences ss" "held_sentences (unlock_file ss f) = held_sentences ss"
  by (simp_all add: lock_file_def unlock_file_def ss_inv_def sentence_locks_inv_def log_inv_def held_sentences_def)

lemma file_locks_cong:
  "ss_file_locks a = ss_file_locks b \<Longrightarrow> file_holder a = file_holder b \<and> file_lock_known a = file_lock_known b"
  by (simp add: file_holder_def file_lock_known_def fun_eq_iff)

lemma ss_inv_try_lock:
  "ss_inv ss \<Longrightarrow> try_lock_sentence ss f n = Some (ss', b) \<Longrightarrow> ss_inv ss' \<and> ss_file_locks ss' = ss_file_locks ss"
  using slock.inv_try_lock [of ss f n ss' b] try_lock_sentence_Some [of ss f n ss' b]
  by (auto simp: ss_inv_def log_inv_def)

lemma ss_inv_unlock: "ss_inv ss \<Longrightarrow> ss_inv (unlock_sentence ss f n)"
  using slock.inv_unlock [of ss f n] by (simp add: ss_inv_def log_inv_def)

lemma fetch_mutex_keeps:
  assumes "get_file_commit_lock ss f = Some (ss', node)"
  shows "file_holder ss' = file_holder ss" "file_lock_known ss' f" "file_lock_known ss g \<Longrightarrow> file_lock_known ss' g"
    "ss_inv ss' = ss_inv ss" "held_sentences ss' = held_sentences ss"
  using assms
  by (auto simp: get_file_commit_lock_def Let_def file_holder_def file_lock_known_def fun_eq_iff
      ss_inv_def sentence_locks_inv_def log_inv_def held_sentences_def split: option.splits if_splits)

lemma commit_keeps:
  assumes "write_commit ss f n k us = Some (ss', outs)" "ss_inv ss"
    "\<forall>u\<in>set us. split_string '' '' (un_content u) \<noteq> []"
  shows "ss_inv ss'" "held_sentences ss' = held_sentences ss" "file_holder ss' = file_holder ss"
    "file_lock_known ss' = file_lock_known ss"
proof -
  note keeps = write_commit_keeps [OF assms(1)]
  have "log_inv ss" "\<forall>e\<in>set (ss_mod_log ss). 0 < ml_sentence_delta e" "sentence_locks_inv ss"
    using assms(2) by (auto simp: ss_inv_def)
  then show "ss_inv ss'"
    using write_commit_log [OF assms(1) _ _ assms(3)] keeps(1) unfolding ss_inv_def sentence_locks_inv_def
    by presburger
  show "held_sentences ss' = held_sentences ss" "file_holder ss' = file_holder ss"
    "file_lock_known ss' = file_lock_known ss"
    using keeps(1) file_locks_cong [OF keeps(4)] by (simp_all add: held_sentences_def)
qed

text \<open>One step of one session, seen from the other threads: it keeps the server invariant, and on
  the two lock tables it does exactly what its phases say.\<close>

lemma session_step_locks:
  assumes "session_step t ss se ss' se' outs" "ss_inv ss" "queued_ok se"
    and "holds_sentence se \<Longrightarrow> se_key se \<in> held_sentences ss"
    and "holds_mutex se \<Longrightarrow> file_holder ss (se_filename se) = Some t"
    and "needs_mutex se \<Longrightarrow> file_lock_known ss (se_filename se)"
  shows "ss_inv ss' \<and> queued_ok se' \<and> se_key se' = se_key se \<and>
    held_sentences ss' = held_sentences ss - (if holds_sentence se then {se_key se} else {}) \<union>
      (if holds_sentence se' then {se_key se} else {}) \<and>
    (holds_sentence se' \<and> \<not> holds_sentence se \<longrightarrow> se_key se \<notin> held_sentences ss) \<and>
    file_holder ss' = (if holds_mutex se' then (file_holder ss)(se_filename se \<mapsto> t)
      else if holds_mutex se then (file_holder ss)(se_filename se := None) else file_holder ss) \<and>
    (holds_mutex se' \<and> \<not> holds_mutex se \<longrightarrow> file_holder ss (se_filename se) = None) \<and>
    (needs_mutex se' \<longrightarrow> file_lock_known ss' (se_filename se)) \<and>
    (\<forall>f. file_lock_known ss f \<longrightarrow> file_lock_known ss' f)"
  using assms(1)
proof cases
  case (lock_granted)
  then show ?thesis
    using assms ss_inv_try_lock [OF assms(2) lock_granted(4)] slock.try_lock_granted [OF lock_granted(4)]
      file_locks_cong [of ss' ss]
    by (simp add: session_flags queued_ok_def)
next
  case (lock_refused)
  then show ?thesis
    using assms slock.try_lock_refused [OF lock_refused(4)] by (simp add: session_flags queued_ok_def)
next
  case index_bad
  then show ?thesis
    using assms ss_inv_unlock [OF assms(2)] slock.held_unlock [of ss] file_locks_cong [of ss' ss]
    by (simp add: session_flags queued_ok_def ss_inv_def unlock_sentence_def)
next
  case (queue_line m ms u)
  then show ?thesis using assms parse_write_line_token [OF queue_line(7)]
    by (auto simp: session_flags queued_ok_def)
next
  case (fetch_mutex node)
  then show ?thesis using assms fetch_mutex_keeps [OF fetch_mutex(4)]
    by (simp add: session_flags queued_ok_def insert_absorb)
next
  case take_mutex
  then show ?thesis using assms commit_mutex.holder_acquire [of ss "se_filename se" t] commit_mutex.known_acquire
    by (auto simp: session_flags queued_ok_def fun_eq_iff)
next
  case commit
  then show ?thesis using assms commit_keeps [OF commit(3) assms(2)]
    by (auto simp: session_flags queued_ok_def fun_eq_iff)
next
  case release_mutex
  then show ?thesis using assms commit_mutex.holder_release commit_mutex.known_release
    by (auto simp: session_flags queued_ok_def fun_eq_iff)
next
  case unlock
  then show ?thesis
    using assms ss_inv_unlock [OF assms(2)] slock.held_unlock [of ss] file_locks_cong [of ss' ss]
    by (simp add: session_flags queued_ok_def ss_inv_def unlock_sentence_def)
qed (use assms in \<open>auto simp: session_flags queued_ok_def fun_eq_iff\<close>)

lemma undo_locks:
  assumes "handle_ss_undo ss f = Some (ss', outs)"
  shows "file_holder ss' = file_holder ss" "file_lock_known ss g \<Longrightarrow> file_lock_known ss' g"
    "ss_inv ss' = ss_inv ss" "held_sentences ss' = held_sentences ss"
proof -
  from assms obtain s1 node fs where s1: "get_file_commit_lock ss f = Some (s1, node)"
    and ss': "ss' = s1\<lparr>ss_fs := fs\<rparr>"
    by (auto simp: handle_ss_undo_def Let_def split: option.splits prod.splits bool.splits)
  have "file_holder ss' = file_holder s1" "file_lock_known ss' = file_lock_known s1"
    using file_locks_cong [of ss' s1] ss' by simp_all
  moreover have "ss_inv ss' = ss_inv s1" "held_sentences ss' = held_sentences s1"
    using ss_inv_cong [of ss' s1] held_sentences_cong [of ss' s1] ss' by simp_all
  ultimately show "file_holder ss' = file_holder ss" "file_lock_known ss g \<Longrightarrow> file_lock_known ss' g"
    "ss_inv ss' = ss_inv ss" "held_sentences ss' = held_sentences ss"
    using fetch_mutex_keeps [OF s1] by simp_all
qed

lemma nm_locks:
  assumes ss'_def: "ss' = fst (ss_nm_command ss bytes)"
  shows "file_holder ss' = file_holder ss" "file_lock_known ss' = file_lock_known ss"
    "ss_inv ss' = ss_inv ss" "held_sentences ss' = held_sentences ss"
proof -
  have "\<exists>a. ss' = ss\<lparr>ss_fs := a\<rparr>"
    unfolding ss'_def by (auto simp: ss_nm_command_def Let_def intro: exI [of _ "ss_fs ss"])
  then show "file_holder ss' = file_holder ss" "file_lock_known ss' = file_lock_known ss"
    "ss_inv ss' = ss_inv ss" "held_sentences ss' = held_sentences ss"
    using file_locks_cong [of ss' ss] by (auto simp: ss_inv_def sentence_locks_inv_def log_inv_def held_sentences_def)
qed

section \<open>The invariant of the interleaving\<close>

definition ws_inv :: "WriteSystem \<Rightarrow> bool" where
  "ws_inv s \<longleftrightarrow>
     (let ss = ws_ss s; L = ws_sessions s in
      ss_inv ss \<and>
      (\<forall>k. k \<in> held_sentences ss \<longleftrightarrow> (\<exists>i<length L. holds_sentence (L ! i) \<and> se_key (L ! i) = k)) \<and>
      (\<forall>i<length L. \<forall>j<length L. i \<noteq> j \<longrightarrow> holds_sentence (L ! i) \<longrightarrow> holds_sentence (L ! j) \<longrightarrow>
         se_key (L ! i) \<noteq> se_key (L ! j)) \<and>
      (\<forall>i f. file_holder ss f = Some i \<longleftrightarrow> i < length L \<and> holds_mutex (L ! i) \<and> se_filename (L ! i) = f) \<and>
      (\<forall>i<length L. queued_ok (L ! i) \<and> (needs_mutex (L ! i) \<longrightarrow> file_lock_known ss (se_filename (L ! i)))))"

lemma ws_invD:
  assumes "ws_inv s"
  shows "ss_inv (ws_ss s)"
    "k \<in> held_sentences (ws_ss s) \<longleftrightarrow>
       (\<exists>i<length (ws_sessions s). holds_sentence (ws_sessions s ! i) \<and> se_key (ws_sessions s ! i) = k)"
    "i < length (ws_sessions s) \<Longrightarrow> j < length (ws_sessions s) \<Longrightarrow> i \<noteq> j \<Longrightarrow>
       holds_sentence (ws_sessions s ! i) \<Longrightarrow> holds_sentence (ws_sessions s ! j) \<Longrightarrow>
       se_key (ws_sessions s ! i) \<noteq> se_key (ws_sessions s ! j)"
    "file_holder (ws_ss s) f = Some i \<longleftrightarrow>
       i < length (ws_sessions s) \<and> holds_mutex (ws_sessions s ! i) \<and> se_filename (ws_sessions s ! i) = f"
    "i < length (ws_sessions s) \<Longrightarrow> queued_ok (ws_sessions s ! i)"
    "i < length (ws_sessions s) \<Longrightarrow> needs_mutex (ws_sessions s ! i) \<Longrightarrow>
       file_lock_known (ws_ss s) (se_filename (ws_sessions s ! i))"
  using assms unfolding ws_inv_def Let_def by blast+

lemma ws_inv_start: "ws_inv \<lparr>ws_ss = ss_create path port fs, ws_sessions = [], ws_sent = []\<rparr>"
  by (simp add: ws_inv_def ss_create_def ss_inv_def sentence_locks_inv_def log_inv_def held_sentences_def
      file_holder_def)

lemma ws_inv_session:
  assumes inv: "ws_inv s" and t: "t < length (ws_sessions s)"
    and step: "session_step t (ws_ss s) (ws_sessions s ! t) ss' se' outs"
  shows "ws_inv (s\<lparr>ws_ss := ss', ws_sessions := (ws_sessions s)[t := se'],
    ws_sent := ws_sent s @ map (Pair t) outs\<rparr>)"
proof -
  let ?L = "ws_sessions s" and ?ss = "ws_ss s"
  let ?se = "?L ! t" and ?L' = "(ws_sessions s)[t := se']"
  note I = ws_invD [OF inv]
  have mutex: "file_holder ?ss f = Some i \<longleftrightarrow> i < length ?L \<and> holds_mutex (?L ! i) \<and> se_filename (?L ! i) = f" for i f
    by (rule I(4))
  have "holds_sentence ?se \<Longrightarrow> se_key ?se \<in> held_sentences ?ss" using I(2) t by blast
  moreover have "holds_mutex ?se \<Longrightarrow> file_holder ?ss (se_filename ?se) = Some t" using I(4) t by blast
  ultimately have loc: "ss_inv ss'" "queued_ok se'" "se_key se' = se_key ?se"
    "held_sentences ss' = held_sentences ?ss - (if holds_sentence ?se then {se_key ?se} else {}) \<union>
      (if holds_sentence se' then {se_key ?se} else {})"
    "holds_sentence se' \<Longrightarrow> \<not> holds_sentence ?se \<Longrightarrow> se_key ?se \<notin> held_sentences ?ss"
    "file_holder ss' = (if holds_mutex se' then (file_holder ?ss)(se_filename ?se \<mapsto> t)
      else if holds_mutex ?se then (file_holder ?ss)(se_filename ?se := None) else file_holder ?ss)"
    "holds_mutex se' \<Longrightarrow> \<not> holds_mutex ?se \<Longrightarrow> file_holder ?ss (se_filename ?se) = None"
    "needs_mutex se' \<Longrightarrow> file_lock_known ss' (se_filename ?se)"
    "\<And>f. file_lock_known ?ss f \<Longrightarrow> file_lock_known ss' f"
    using session_step_locks [OF step I(1) I(5) [OF t]] I(6) [OF t] by blast+
  have fn: "se_filename se' = se_filename ?se" using loc(3) by (simp add: se_key_def)
  have held: "k \<in> held_sentences ss' \<longleftrightarrow> (\<exists>i<length ?L'. holds_sentence (?L' ! i) \<and> se_key (?L' ! i) = k)" for k
  proof -
    have "(\<exists>i<length ?L'. holds_sentence (?L' ! i) \<and> se_key (?L' ! i) = k) \<longleftrightarrow>
      holds_sentence se' \<and> se_key ?se = k \<or>
      (\<exists>i<length ?L. i \<noteq> t \<and> holds_sentence (?L ! i) \<and> se_key (?L ! i) = k)"
      using t loc(3) by (auto simp: nth_list_update)
    also have "\<dots> \<longleftrightarrow> k \<in> held_sentences ss'"
      unfolding loc(4) using I(2) [of k] I(3) [OF _ t] t by auto
    finally show ?thesis by simp
  qed
  have excl: "se_key (?L' ! i) \<noteq> se_key (?L' ! j)"
    if "i < length ?L'" "j < length ?L'" "i \<noteq> j" "holds_sentence (?L' ! i)" "holds_sentence (?L' ! j)" for i j
  proof -
    note ij = that
    have new: "se_key (?L ! j) \<noteq> se_key se'" if "j < length ?L" "j \<noteq> t" "holds_sentence (?L ! j)" "holds_sentence se'" for j
      unfolding loc(3) using loc(5) that I(2) [of "se_key ?se"] I(3) [OF that(1) t that(2,3)] by blast
    consider "i = t" "j \<noteq> t" | "i \<noteq> t" "j = t" | "i \<noteq> t" "j \<noteq> t" using ij(3) by blast
    then show ?thesis
      using ij t new [of i] new [of j] I(3) [of i j] by cases (simp_all add: not_sym)
  qed
  have mutex': "file_holder ss' f = Some i \<longleftrightarrow>
      i < length ?L' \<and> holds_mutex (?L' ! i) \<and> se_filename (?L' ! i) = f" for i f
  proof (cases "i = t")
    case True
    then show ?thesis using t fn loc(6) mutex [of f t] by auto
  next
    case False
    have "holds_mutex se' \<Longrightarrow> file_holder ?ss (se_filename ?se) \<noteq> Some i"
      using loc(7) mutex [of "se_filename ?se" t] t False by (cases "holds_mutex ?se") auto
    moreover have "holds_mutex ?se \<Longrightarrow> file_holder ?ss (se_filename ?se) \<noteq> Some i"
      using mutex [of "se_filename ?se" t] t False by auto
    ultimately show ?thesis using False loc(6) mutex [of f i] by auto
  qed
  have "queued_ok (?L' ! i) \<and> (needs_mutex (?L' ! i) \<longrightarrow> file_lock_known ss' (se_filename (?L' ! i)))"
    if "i < length ?L'" for i
    using that t loc(2,8,9) fn I(5,6) by (cases "i = t") auto
  then show ?thesis using loc(1) held excl mutex' unfolding ws_inv_def Let_def by simp
qed

lemma ws_inv_same_locks:
  assumes "ws_inv s" "file_holder ss' = file_holder (ws_ss s)" "ss_inv ss' = ss_inv (ws_ss s)"
    "held_sentences ss' = held_sentences (ws_ss s)" "\<And>f. file_lock_known (ws_ss s) f \<Longrightarrow> file_lock_known ss' f"
  shows "ws_inv (s\<lparr>ws_ss := ss'\<rparr>)"
  using assms by (simp add: ws_inv_def Let_def)

lemma ws_inv_request:
  assumes "ws_inv s"
  shows "ws_inv (s\<lparr>ws_sessions := ws_sessions s @ [new_session f n ms]\<rparr>)"
proof -
  have "\<not> holds_sentence (new_session f n ms)" "\<not> holds_mutex (new_session f n ms)"
    "\<not> needs_mutex (new_session f n ms)" "queued_ok (new_session f n ms)"
    by (simp_all add: session_flags new_session_def queued_ok_def)
  then show ?thesis using assms by (auto simp: ws_inv_def Let_def nth_append less_Suc_eq)
qed

lemma ws_inv_step: "ws_step s s' \<Longrightarrow> ws_inv s \<Longrightarrow> ws_inv s'"
proof (induction rule: ws_step.induct)
  case (session s s')
  then show ?case by (auto elim!: session_moves.cases intro: ws_inv_session)
next
  case (undo_request s f ss' outs)
  then show ?case using undo_locks [OF undo_request(2)] by (intro ws_inv_same_locks) simp_all
next
  case (nm_command s bytes)
  then show ?case using nm_locks [OF refl, of "ws_ss s" bytes] by (intro ws_inv_same_locks) simp_all
qed (rule ws_inv_request)

lemma reachable_ws_inv: "reachable path port fs s \<Longrightarrow> ws_inv s"
  by (induction rule: reachable.induct) (auto intro: ws_inv_start ws_inv_step)

section \<open>Progress\<close>

lemma write_commit_short:
  assumes "length f < MAX_FILENAME_LEN - 1"
  shows "\<exists>ss' outs. write_commit ss f n k us = Some (ss', outs)"
proof -
  have "log_modification s f m d \<noteq> None" for s m d using log_modification_short [OF assms] by fastforce
  then show ?thesis by (simp add: write_commit_eq split: option.split)
qed

lemma session_progress:
  assumes "se_phase se \<noteq> Finished" "length (se_filename se) < MAX_FILENAME_LEN - 1"
    and "se_phase se = LockFetched \<Longrightarrow> file_holder ss (se_filename se) = None"
  shows "\<exists>ss' se' outs. session_step t ss se ss' se' outs"
proof (cases "se_phase se")
  case Captured
  have "try_lock_sentence ss (se_filename se) (se_sent_num se) \<noteq> None"
    using assms(2) by (simp add: try_lock_sentence_cases del: not_None_eq)
  then obtain ss' b where "try_lock_sentence ss (se_filename se) (se_sent_num se) = Some (ss', b)" by auto
  then have "try_lock_sentence ss (se_filename se) (se_sent_num se) = Some (ss', True) \<or>
    try_lock_sentence ss (se_filename se) (se_sent_num se) = Some (ss', False)" by (cases b) simp_all
  then show ?thesis using Captured by (blast intro: session_step.lock_granted session_step.lock_refused)
next
  case Granted
  then show ?thesis
    by (cases "write_in_range ss (se_filename se) (se_sent_num se)") (blast intro: session_step.intros)+
next
  case Receiving
  show ?thesis
  proof (cases "se_msgs se = [] \<or> hd (se_msgs se) = []")
    case True
    then show ?thesis using Receiving by (blast intro: session_step.closed)
  next
    case False
    then obtain m ms where m: "se_msgs se = m # ms" "m \<noteq> []" by (cases "se_msgs se") auto
    then show ?thesis using Receiving by (cases "parse_write_line m") (blast intro: session_step.intros)+
  qed
next
  case Queued
  then show ?thesis using get_file_commit_lock_short [OF assms(2), of ss]
    by (blast intro: session_step.fetch_mutex)
next
  case Committing
  then show ?thesis using write_commit_short [OF assms(2)] by (blast intro: session_step.commit)
qed (use assms in \<open>blast intro: session_step.intros\<close>)+

text \<open>What is left of a session: its phases and the lines it has not read. The phases are ordered
  by the course of a session.\<close>

definition session_left :: "Session \<Rightarrow> nat" where
  "session_left se = phase_rank (se_phase se) + length (se_msgs se)"

definition sessions_left :: "WriteSystem \<Rightarrow> nat" where
  "sessions_left s = sum_list (map session_left (ws_sessions s))"

lemma session_step_left: "session_step t ss se ss' se' outs \<Longrightarrow> session_left se' < session_left se"
  by (erule session_step_cases) (auto simp: session_left_def phase_rank_def)

lemma session_step_forward: "session_step t ss se ss' se' outs \<Longrightarrow> se_phase se \<le> se_phase se'"
  by (erule session_step_cases) (auto simp: phase_order)

text \<open>The phases in between are the ones that hold the sentence.\<close>

lemma holds_sentence_phases: "holds_sentence se \<longleftrightarrow> Granted \<le> se_phase se \<and> se_phase se < Finished"
  by (cases "se_phase se") (simp_all add: holds_sentence_def phase_order)

lemma session_moves_forward:
  "session_moves s s' \<Longrightarrow> i < length (ws_sessions s) \<Longrightarrow>
     i < length (ws_sessions s') \<and> se_phase (ws_sessions s ! i) \<le> se_phase (ws_sessions s' ! i)"
  by (erule session_moves.cases) (auto simp: nth_list_update dest: session_step_forward)

lemma session_runs_forward:
  "(session_moves ^^ n) s s' \<Longrightarrow> i < length (ws_sessions s) \<Longrightarrow>
     i < length (ws_sessions s') \<and> se_phase (ws_sessions s ! i) \<le> se_phase (ws_sessions s' ! i)"
proof (induction n arbitrary: s')
  case (Suc n)
  then obtain s1 where "(session_moves ^^ n) s s1" "session_moves s1 s'" by auto
  then show ?case using Suc.IH [of s1] Suc.prems(2) session_moves_forward [of s1 s' i] order.trans by blast
qed simp

lemma session_moves_left: "session_moves s s' \<Longrightarrow> sessions_left s' < sessions_left s"
proof (erule session_moves.cases)
  fix t s0 ss' se' outs
  assume s: "s = s0"
    "s' = s0\<lparr>ws_ss := ss', ws_sessions := (ws_sessions s0)[t := se'], ws_sent := ws_sent s0 @ map (Pair t) outs\<rparr>"
    and t: "t < length (ws_sessions s0)"
    and step: "session_step t (ws_ss s0) (ws_sessions s0 ! t) ss' se' outs"
  have "session_left (ws_sessions s0 ! t) \<le> sessions_left s0"
    unfolding sessions_left_def using t elem_le_sum_list [of t "map session_left (ws_sessions s0)"] by simp
  then show "sessions_left s' < sessions_left s"
    using session_step_left [OF step] t s by (simp add: sessions_left_def map_update sum_list_update)
qed

section \<open>The handler as a session that runs alone\<close>

inductive session_steps ::
  "nat \<Rightarrow> StorageServer \<Rightarrow> Session \<Rightarrow> outmsg list \<Rightarrow> StorageServer \<Rightarrow> Session \<Rightarrow> bool" for t :: nat where
  stop: "session_steps t ss se [] ss se"
| more: "session_step t ss se ss1 se1 o1 \<Longrightarrow> session_steps t ss1 se1 o2 ss' se' \<Longrightarrow>
         session_steps t ss se (o1 @ o2) ss' se'"

lemma session_steps_one: "session_step t ss se ss' se' outs \<Longrightarrow> session_steps t ss se outs ss' se'"
  using session_steps.more [OF _ session_steps.stop] by fastforce

lemma session_steps_trans:
  "session_steps t ss se o1 ss1 se1 \<Longrightarrow> session_steps t ss1 se1 o2 ss' se' \<Longrightarrow>
     session_steps t ss se (o1 @ o2) ss' se'"
  by (induction rule: session_steps.induct) (auto intro: session_steps.more)

lemma receive_steps:
  "se_phase se = Receiving \<Longrightarrow>
     \<exists>se'. session_steps t ss se [] ss se' \<and> se_phase se' = Queued \<and>
       se_updates se' = write_recv_loop (se_msgs se) (se_updates se) \<and> se_filename se' = se_filename se \<and>
       se_sent_num se' = se_sent_num se \<and> se_start_log_id se' = se_start_log_id se"
proof (induction "se_msgs se" arbitrary: se)
  case Nil
  then have "session_step t ss se ss (se\<lparr>se_phase := Queued\<rparr>) []" by (intro session_step.closed) simp_all
  then show ?case using Nil session_steps_one [of t ss se ss "se\<lparr>se_phase := Queued\<rparr>" "[]"]
    by (intro exI [of _ "se\<lparr>se_phase := Queued\<rparr>"]) simp
next
  case (Cons m ms)
  note msgs = Cons.hyps(2) [symmetric]
  show ?case
  proof (cases "m = []")
    case True
    then have "session_step t ss se ss (se\<lparr>se_phase := Queued\<rparr>) []"
      using Cons.prems msgs by (intro session_step.closed) simp_all
    then show ?thesis using True msgs session_steps_one [of t ss se ss "se\<lparr>se_phase := Queued\<rparr>" "[]"]
      by (intro exI [of _ "se\<lparr>se_phase := Queued\<rparr>"]) simp
  next
    case False
    show ?thesis
    proof (cases "parse_write_line m")
      case Etirw
      then show ?thesis
        using session_steps_one [OF session_step.etirw [OF Cons.prems msgs False Etirw]] msgs False
        by (intro exI [of _ "se\<lparr>se_msgs := ms, se_phase := Queued\<rparr>"]) simp
    next
      case TooShort
      note first = session_step.skip_line [OF Cons.prems msgs False TooShort, of t ss]
      then show ?thesis
        using Cons.hyps(1) [of "se\<lparr>se_msgs := ms\<rparr>"] Cons.prems session_steps.more [OF first] msgs False TooShort
        by fastforce
    next
      case (Update u)
      note first = session_step.queue_line [OF Cons.prems msgs False Update, of t ss]
      then show ?thesis
        using Cons.hyps(1) [of "se\<lparr>se_msgs := ms, se_updates := se_updates se @ [u]\<rparr>"] Cons.prems
          session_steps.more [OF first] msgs False Update
        by fastforce
    qed
  qed
qed

lemma backed_up_file_locks [simp]:
  "ss_fs (s\<lparr>ss_file_locks := x\<rparr>) = ss_fs s" by simp

lemma log_modification_file_locks:
  "log_modification (s\<lparr>ss_file_locks := x\<rparr>) f m d =
     map_option (\<lambda>s'. s'\<lparr>ss_file_locks := x\<rparr>) (log_modification s f m d)"
  by (simp add: log_modification_def strncpy_raw_def Let_def)

lemma write_commit_file_locks:
  assumes "write_commit s f n k us = Some (s', outs)"
  shows "write_commit (s\<lparr>ss_file_locks := x\<rparr>) f n k us = Some (s'\<lparr>ss_file_locks := x\<rparr>, outs)"
proof -
  let ?s = "s\<lparr>ss_file_locks := x\<rparr>"
  have cur: "current_text (backed_up ?s f) f = current_text (backed_up s f) f"
    by (simp add: current_text_def)
  have shift: "get_sentence_shift ?s f n k = get_sentence_shift s f n k" by (simp add: get_sentence_shift_def)
  have upd: "r\<lparr>ss_file_locks := x, ss_fs := a\<rparr> = (r\<lparr>ss_fs := a\<rparr>)\<lparr>ss_file_locks := x\<rparr>" for r :: StorageServer and a
    by simp
  show ?thesis
    using assms unfolding write_commit_eq cur shift
    by (auto simp: upd log_modification_file_locks simp del: StorageServer.update_convs split: option.splits if_splits)
qed

lemma unlock_lock_file:
  assumes "file_lock_known s f" "file_holder s f = None" "ss_file_locks s' = ss_file_locks s"
  shows "unlock_file (s'\<lparr>ss_file_locks := ss_file_locks (lock_file s f t)\<rparr>) f = s'"
proof -
  obtain node where node: "List.find (\<lambda>node. fl_filename node = f) (ss_file_locks s) = Some node" "fl_holder node = None"
    using assms(1,2) by (auto simp: file_lock_known_def file_holder_def)
  have "update_first (\<lambda>node. fl_filename node = f) (\<lambda>node. node\<lparr>fl_holder := None\<rparr>) (ss_file_locks s) = ss_file_locks s"
    by (rule update_first_fixed [OF node(1)]) (simp add: node(2))
  then show ?thesis using assms(3)
    by (simp add: unlock_file_def lock_file_def update_first_twice)
qed

lemma lock_file_eq: "lock_file s f t = s\<lparr>ss_file_locks := ss_file_locks (lock_file s f t)\<rparr>"
  by (simp add: lock_file_def)

text \<open>From the queued updates to the end of the session.\<close>

lemma commit_steps:
  assumes "se_phase se = Queued" "se_filename se = f" "se_sent_num se = n"
    and fetch: "get_file_commit_lock ss f = Some (s, node)" and free: "file_holder ss f = None"
    and commit: "write_commit s f n (se_start_log_id se) (se_updates se) = Some (s2, outs)"
  shows "\<exists>se'. se_phase se' = Finished \<and> session_steps t ss se outs (unlock_sentence s2 f n) se'"
proof -
  let ?locked = "lock_file s f t" and ?final = "s2\<lparr>ss_file_locks := ss_file_locks (lock_file s f t)\<rparr>"
  have s: "file_holder s f = None" "file_lock_known s f" using fetch_mutex_keeps [OF fetch] free by simp_all
  have "session_step t ss se s (se\<lparr>se_phase := LockFetched\<rparr>) []"
    using assms(1,2) fetch by (intro session_step.fetch_mutex) simp_all
  moreover have "session_step t s (se\<lparr>se_phase := LockFetched\<rparr>) ?locked (se\<lparr>se_phase := Committing\<rparr>) []"
    using session_step.take_mutex [of "se\<lparr>se_phase := LockFetched\<rparr>" s t] s(1) assms(2) by simp
  moreover have "write_commit ?locked f n (se_start_log_id se) (se_updates se) = Some (?final, outs)"
    using write_commit_file_locks [OF commit] lock_file_eq by metis
  then have "session_step t ?locked (se\<lparr>se_phase := Committing\<rparr>) ?final (se\<lparr>se_phase := Committed\<rparr>) outs"
    using session_step.commit [of "se\<lparr>se_phase := Committing\<rparr>" ?locked ?final outs t] assms(2,3) by simp
  moreover have "session_step t ?final (se\<lparr>se_phase := Committed\<rparr>) s2 (se\<lparr>se_phase := Unlocking\<rparr>) []"
    using session_step.release_mutex [of "se\<lparr>se_phase := Committed\<rparr>" t ?final] assms(2)
      unlock_lock_file [OF s(2,1) write_commit_keeps(4) [OF commit], of t] by simp
  moreover have "session_step t s2 (se\<lparr>se_phase := Unlocking\<rparr>) (unlock_sentence s2 f n) (se\<lparr>se_phase := Finished\<rparr>) []"
    using session_step.unlock [of "se\<lparr>se_phase := Unlocking\<rparr>" t s2] assms(2,3) by simp
  ultimately have "session_steps t ss se ([] @ [] @ outs @ [] @ [] @ []) (unlock_sentence s2 f n) (se\<lparr>se_phase := Finished\<rparr>)"
    by (blast intro: session_steps.intros)
  then show ?thesis by (intro exI [of _ "se\<lparr>se_phase := Finished\<rparr>"]) simp
qed

lemma handler_steps:
  assumes "handle_ss_write ss f n msgs = Some (ss', outs)" "file_holder ss f = None"
  shows "\<exists>se'. se_phase se' = Finished \<and> session_steps t ss (new_session f n msgs) outs ss' se'"
proof -
  define se1 where se1: "se1 = (new_session f n msgs)\<lparr>se_start_log_id := ss_next_log_id ss, se_phase := Captured\<rparr>"
  have se1_fields: "se_phase se1 = Captured" "se_filename se1 = f" "se_sent_num se1 = n" "se_msgs se1 = msgs"
    "se_updates se1 = []" "se_start_log_id se1 = ss_next_log_id ss"
    by (simp_all add: se1 new_session_def)
  have capture: "session_step t ss (new_session f n msgs) ss se1 []"
    using session_step.capture [of "new_session f n msgs" t ss]
    by (simp add: se1 get_current_log_id_def) (simp add: new_session_def)
  from assms(1) show ?thesis
  proof (cases rule: handle_ss_write_cases)
    case busy
    then have "try_lock_sentence ss f n = Some (ss, False)" by (simp add: try_lock_sentence_cases)
    then have "session_step t ss se1 ss (se1\<lparr>se_phase := Finished\<rparr>) outs"
      using session_step.lock_refused [of se1 ss ss t] se1_fields busy by simp
    then show ?thesis
      using session_steps.more [OF capture session_steps_one] busy
      by (intro exI [of _ "se1\<lparr>se_phase := Finished\<rparr>"]) simp
  next
    case (out_of_range ss1)
    have "session_step t ss se1 ss1 (se1\<lparr>se_phase := Granted\<rparr>) []"
      using session_step.lock_granted [of se1 ss ss1 t] se1_fields out_of_range by simp
    moreover have "session_step t ss1 (se1\<lparr>se_phase := Granted\<rparr>) ss' (se1\<lparr>se_phase := Finished\<rparr>) outs"
      using session_step.index_bad [of "se1\<lparr>se_phase := Granted\<rparr>" ss1 t] se1_fields out_of_range by simp
    ultimately have "session_steps t ss (new_session f n msgs) ([] @ [] @ outs @ []) ss' (se1\<lparr>se_phase := Finished\<rparr>)"
      using capture by (blast intro: session_steps.intros)
    then show ?thesis by (intro exI [of _ "se1\<lparr>se_phase := Finished\<rparr>"]) simp
  next
    case (commit ss1 l node ss2 outs2)
    have granted: "session_step t ss se1 ss1 (se1\<lparr>se_phase := Granted\<rparr>) []"
      using session_step.lock_granted [of se1 ss ss1 t] se1_fields commit by simp
    have ack: "session_step t ss1 (se1\<lparr>se_phase := Granted\<rparr>) ss1 (se1\<lparr>se_phase := Receiving\<rparr>)
        [ToClient ''202 ACK_WRITE: Ready for updates.'']"
      using session_step.index_ok [of "se1\<lparr>se_phase := Granted\<rparr>" ss1 t] se1_fields commit by simp
    obtain se2 where se2: "session_steps t ss1 (se1\<lparr>se_phase := Receiving\<rparr>) [] ss1 se2" "se_phase se2 = Queued"
      "se_updates se2 = write_recv_loop msgs []" "se_filename se2 = f" "se_sent_num se2 = n"
      "se_start_log_id se2 = ss_next_log_id ss"
      using receive_steps [of "se1\<lparr>se_phase := Receiving\<rparr>" t ss1] se1_fields by auto
    obtain k where "ss1 = ss\<lparr>ss_sentence_locks := k\<rparr>" using try_lock_sentence_Some commit(1) by blast
    then have "file_holder ss1 f = None" using assms(2) file_locks_cong [of ss1 ss] by simp
    then obtain se' where se': "se_phase se' = Finished" "session_steps t ss1 se2 outs2 (unlock_sentence ss2 f n) se'"
      using commit_steps [OF se2(2,4,5) commit(3)] commit(4) se2(3,6) by auto
    have "session_steps t ss1 (se1\<lparr>se_phase := Receiving\<rparr>) outs2 ss' se'"
      using session_steps_trans [OF se2(1) se'(2)] commit(5) by simp
    then have "session_steps t ss (new_session f n msgs)
        ([] @ [] @ [ToClient ''202 ACK_WRITE: Ready for updates.''] @ outs2) ss' se'"
      using capture granted ack by (blast intro: session_steps.intros)
    then show ?thesis using se'(1) commit(6) by auto
  qed
qed

section \<open>An executable scheduler\<close>

text \<open>The one step a session can make, computed.\<close>

definition session_next ::
  "nat \<Rightarrow> StorageServer \<Rightarrow> Session \<Rightarrow> (StorageServer \<times> Session \<times> outmsg list) option" where
  "session_next t ss se =
     (let f = se_filename se; n = se_sent_num se in
      case se_phase se of
        Requested \<Rightarrow> Some (ss, se\<lparr>se_start_log_id := get_current_log_id ss, se_phase := Captured\<rparr>, [])
      | Captured \<Rightarrow> (case try_lock_sentence ss f n of
            None \<Rightarrow> None
          | Some (ss', True) \<Rightarrow> Some (ss', se\<lparr>se_phase := Granted\<rparr>, [])
          | Some (ss', False) \<Rightarrow> Some (ss', se\<lparr>se_phase := Finished\<rparr>,
              [ToClient ''423 ERROR: This sentence is being edited by another user.'']))
      | Granted \<Rightarrow>
          if write_in_range ss f n
          then Some (ss, se\<lparr>se_phase := Receiving\<rparr>, [ToClient ''202 ACK_WRITE: Ready for updates.''])
          else Some (unlock_sentence ss f n, se\<lparr>se_phase := Finished\<rparr>,
            [ToClient ''400 ERROR: Sentence index out of range (Previous sentence might be incomplete).''])
      | Receiving \<Rightarrow> (case se_msgs se of
            [] \<Rightarrow> Some (ss, se\<lparr>se_phase := Queued\<rparr>, [])
          | m # ms \<Rightarrow>
              if m = [] then Some (ss, se\<lparr>se_phase := Queued\<rparr>, [])
              else (case parse_write_line m of
                  Etirw \<Rightarrow> Some (ss, se\<lparr>se_msgs := ms, se_phase := Queued\<rparr>, [])
                | TooShort \<Rightarrow> Some (ss, se\<lparr>se_msgs := ms\<rparr>, [])
                | Update u \<Rightarrow> Some (ss, se\<lparr>se_msgs := ms, se_updates := se_updates se @ [u]\<rparr>, [])))
      | Queued \<Rightarrow> map_option (\<lambda>(ss', node). (ss', se\<lparr>se_phase := LockFetched\<rparr>, [])) (get_file_commit_lock ss f)
      | LockFetched \<Rightarrow>
          if file_holder ss f = None then Some (lock_file ss f t, se\<lparr>se_phase := Committing\<rparr>, []) else None
      | Committing \<Rightarrow> map_option (\<lambda>(ss', outs). (ss', se\<lparr>se_phase := Committed\<rparr>, outs))
          (write_commit ss f n (se_start_log_id se) (se_updates se))
      | Committed \<Rightarrow> Some (unlock_file ss f, se\<lparr>se_phase := Unlocking\<rparr>, [])
      | Unlocking \<Rightarrow> Some (unlock_sentence ss f n, se\<lparr>se_phase := Finished\<rparr>, [])
      | Finished \<Rightarrow> None)"

lemma session_step_next: "session_step t ss se ss' se' outs \<Longrightarrow> session_next t ss se = Some (ss', se', outs)"
  by (erule session_step_cases) (auto simp: session_next_def split: list.split)

lemma closed_cons:
  "se_phase se = Receiving \<Longrightarrow> se_msgs se = [] # ms \<Longrightarrow> session_step t ss se ss (se\<lparr>se_phase := Queued\<rparr>) []"
  by (rule session_step.closed) simp_all

lemma session_next_step: "session_next t ss se = Some (ss', se', outs) \<Longrightarrow> session_step t ss se ss' se' outs"
  unfolding session_next_def Let_def
  by (cases "se_phase se"; simp split: option.splits bool.splits if_splits list.splits write_line.splits prod.splits)
    (blast intro: closed_cons session_step.intros)+

definition ws_next :: "nat \<Rightarrow> WriteSystem \<Rightarrow> WriteSystem option" where
  "ws_next t s =
     (if t < length (ws_sessions s) then
        case session_next t (ws_ss s) (ws_sessions s ! t) of
          None \<Rightarrow> None
        | Some (ss', se', outs) \<Rightarrow> Some (s\<lparr>ws_ss := ss', ws_sessions := (ws_sessions s)[t := se'],
            ws_sent := ws_sent s @ map (Pair t) outs\<rparr>)
      else None)"

fun ws_run :: "nat list \<Rightarrow> WriteSystem \<Rightarrow> WriteSystem option" where
  "ws_run [] s = Some s"
| "ws_run (t # ts) s = (case ws_next t s of None \<Rightarrow> None | Some s' \<Rightarrow> ws_run ts s')"

lemma ws_next_moves: "ws_next t s = Some s' \<Longrightarrow> session_moves s s'"
  by (auto simp: ws_next_def split: if_splits option.splits intro: session_moves.move session_next_step)

lemma ws_run_reachable: "ws_run ts s = Some s' \<Longrightarrow> reachable path port fs s \<Longrightarrow> reachable path port fs s'"
proof (induction ts arbitrary: s)
  case (Cons t ts)
  then obtain s1 where "ws_next t s = Some s1" "ws_run ts s1 = Some s'" by (auto split: option.splits)
  then show ?case using Cons ws_next_moves reachable.step ws_step.session by blast
qed simp

definition ws_start :: "StorageServer \<Rightarrow> (string \<times> c_int \<times> string list) list \<Rightarrow> WriteSystem" where
  "ws_start ss rs = \<lparr>ws_ss = ss, ws_sessions = map (\<lambda>(f, n, ms). new_session f n ms) rs, ws_sent = []\<rparr>"

lemma reachable_ws_start: "reachable path port fs (ws_start (ss_create path port fs) rs)"
proof (induction rs rule: rev_induct)
  case Nil
  show ?case using reachable.start by (simp add: ws_start_def)
next
  case (snoc r rs)
  obtain f n ms where r: "r = (f, n, ms)" by (cases r)
  have "ws_start (ss_create path port fs) (rs @ [r]) = (ws_start (ss_create path port fs) rs)
    \<lparr>ws_sessions := ws_sessions (ws_start (ss_create path port fs) rs) @ [new_session f n ms]\<rparr>"
    by (simp add: ws_start_def r)
  then show ?case using reachable.step [OF snoc ws_step.request, of f n ms] by simp
qed

text \<open>Two sessions on the two sentences of one file, run until both hold their sentence.\<close>

definition demo_sessions :: WriteSystem where
  "demo_sessions = the (ws_run [0, 1, 0, 1]
     (ws_start demo_ss [(''a'', 0, [''1 all'', ''ETIRW'']), (''a'', 1, [''0 Now'', ''ETIRW''])]))"

lemma demo_sessions_facts:
  "reachable ''s'' 9000 demo_fs demo_sessions" "length (ws_sessions demo_sessions) = 2"
  "se_phase (ws_sessions demo_sessions ! 0) = Granted" "se_phase (ws_sessions demo_sessions ! 1) = Granted"
  "map se_filename (ws_sessions demo_sessions) = [''a'', ''a'']"
  "map se_sent_num (ws_sessions demo_sessions) = [0, 1]" "sessions_left demo_sessions = 18"
proof -
  let ?s = "ws_start demo_ss [(''a'', 0, [''1 all'', ''ETIRW'']), (''a'', 1, [''0 Now'', ''ETIRW''])]"
  have "ws_run [0, 1, 0, 1] ?s \<noteq> None" by code_simp
  then have "ws_run [0, 1, 0, 1] ?s = Some demo_sessions" by (auto simp: demo_sessions_def)
  then show "reachable ''s'' 9000 demo_fs demo_sessions"
    using ws_run_reachable reachable_ws_start unfolding demo_ss_def by blast
  show "length (ws_sessions demo_sessions) = 2"
    "se_phase (ws_sessions demo_sessions ! 0) = Granted" "se_phase (ws_sessions demo_sessions ! 1) = Granted"
    "map se_filename (ws_sessions demo_sessions) = [''a'', ''a'']"
    "map se_sent_num (ws_sessions demo_sessions) = [0, 1]" "sessions_left demo_sessions = 18"
    by code_simp+
qed

section \<open>Properties\<close>

text \<open>C3. However WRITE sessions, UNDOs and name server commands interleave, two sessions never
  hold the same sentence number of the same file.\<close>

theorem sentence_mutual_exclusion:
  assumes "reachable path port fs s" "i < length (ws_sessions s)" "j < length (ws_sessions s)" "i \<noteq> j"
    and "holds_sentence (ws_sessions s ! i)" "holds_sentence (ws_sessions s ! j)"
  shows "se_key (ws_sessions s ! i) \<noteq> se_key (ws_sessions s ! j)"
  using ws_invD(3) [OF reachable_ws_inv [OF assms(1)] assms(2-6)] .

theorem sentence_mutual_exclusion_witness:
  "se_key (ws_sessions demo_sessions ! 0) \<noteq> se_key (ws_sessions demo_sessions ! 1)"
  by (rule sentence_mutual_exclusion [OF demo_sessions_facts(1)])
    (simp_all add: demo_sessions_facts [unfolded One_nat_def] holds_sentence_def)

text \<open>C4. At most one session at a time is in the commit phase of a file, and it is the holder of
  the mutex of the file.\<close>

theorem commit_mutual_exclusion:
  assumes "reachable path port fs s" "i < length (ws_sessions s)"
    and "se_phase (ws_sessions s ! i) = Committing \<or> se_phase (ws_sessions s ! i) = Committed"
  shows "file_holder (ws_ss s) (se_filename (ws_sessions s ! i)) = Some i \<and>
    (\<forall>j<length (ws_sessions s). j \<noteq> i \<longrightarrow> se_filename (ws_sessions s ! j) = se_filename (ws_sessions s ! i) \<longrightarrow>
      se_phase (ws_sessions s ! j) \<noteq> Committing \<and> se_phase (ws_sessions s ! j) \<noteq> Committed)"
proof -
  note mutex = ws_invD(4) [OF reachable_ws_inv [OF assms(1)]]
  have i: "file_holder (ws_ss s) (se_filename (ws_sessions s ! i)) = Some i"
    using mutex [of "se_filename (ws_sessions s ! i)" i] assms(2,3) by (simp add: holds_mutex_def)
  moreover have "\<not> holds_mutex (ws_sessions s ! j)"
    if "j < length (ws_sessions s)" "j \<noteq> i" "se_filename (ws_sessions s ! j) = se_filename (ws_sessions s ! i)" for j
    using mutex [of "se_filename (ws_sessions s ! i)" j] i that by simp
  ultimately show ?thesis by (simp add: holds_mutex_def)
qed

theorem commit_mutual_exclusion_witness:
  "\<exists>s :: WriteSystem. se_phase (ws_sessions s ! 0) = Committing \<and> file_holder (ws_ss s) (se_filename (ws_sessions s ! 0)) = Some 0"
proof -
  let ?s = "the (ws_run [0, 0, 0, 0, 0] demo_sessions)"
  have "ws_run [0, 0, 0, 0, 0] demo_sessions \<noteq> None" by code_simp
  then have "ws_run [0, 0, 0, 0, 0] demo_sessions = Some ?s" by simp
  from ws_run_reachable [OF this demo_sessions_facts(1)] have r: "reachable ''s'' 9000 demo_fs ?s" .
  have l: "0 < length (ws_sessions ?s)" and p: "se_phase (ws_sessions ?s ! 0) = Committing" by code_simp+
  show ?thesis using commit_mutual_exclusion [OF r l disjI1 [OF p]] p by (intro exI [of _ ?s] conjI) simp_all
qed

text \<open>C14. No deadlock: in every reachable state in which some session is not finished, some session
  can move (its file name being shorter than 255 bytes). A session that waits for a mutex waits
  for a holder that can go on.\<close>

theorem sessions_never_stuck:
  assumes "reachable path port fs s" "i < length (ws_sessions s)" "se_phase (ws_sessions s ! i) \<noteq> Finished"
    and "\<forall>se\<in>set (ws_sessions s). length (se_filename se) < MAX_FILENAME_LEN - 1"
  shows "\<exists>s'. session_moves s s'"
proof -
  have move: "\<exists>s'. session_moves s s'"
    if "j < length (ws_sessions s)" "se_phase (ws_sessions s ! j) \<noteq> Finished"
      "se_phase (ws_sessions s ! j) = LockFetched \<Longrightarrow> file_holder (ws_ss s) (se_filename (ws_sessions s ! j)) = None" for j
    using session_progress [of "ws_sessions s ! j" "ws_ss s" j] that assms(4) nth_mem [OF that(1)]
    by (blast intro: session_moves.move)
  show ?thesis
  proof (cases "file_holder (ws_ss s) (se_filename (ws_sessions s ! i))")
    case None
    then show ?thesis using move [OF assms(2,3)] by blast
  next
    case (Some j)
    then have "j < length (ws_sessions s)" "holds_mutex (ws_sessions s ! j)"
      using ws_invD(4) [OF reachable_ws_inv [OF assms(1)]] by blast+
    then show ?thesis using move [of j] by (auto simp: holds_mutex_def)
  qed
qed

theorem sessions_never_stuck_witness: "\<exists>s'. session_moves demo_sessions s'"
proof -
  have "\<forall>se\<in>set (ws_sessions demo_sessions). length (se_filename se) < MAX_FILENAME_LEN - 1" by code_simp
  then show ?thesis
    using sessions_never_stuck [OF demo_sessions_facts(1), of 0] demo_sessions_facts(2,3) by simp
qed



text \<open>When all sessions are finished, no sentence is locked and no mutex is held.\<close>

theorem finished_sessions_hold_nothing:
  assumes "reachable path port fs s" "\<forall>se\<in>set (ws_sessions s). se_phase se = Finished"
  shows "held_sentences (ws_ss s) = {} \<and> file_holder (ws_ss s) f = None"
proof -
  note inv = reachable_ws_inv [OF assms(1)]
  have fin: "se_phase (ws_sessions s ! i) = Finished" if "i < length (ws_sessions s)" for i
    using assms(2) that by simp
  have "k \<notin> held_sentences (ws_ss s)" for k
    using ws_invD(2) [OF inv, of k] fin by (auto simp: holds_sentence_def)
  moreover have "file_holder (ws_ss s) f \<noteq> Some i" for i
    using ws_invD(4) [OF inv, of f i] fin [of i] by (auto simp: holds_mutex_def)
  ultimately show ?thesis by auto
qed

theorem finished_sessions_hold_nothing_witness:
  "\<exists>s :: WriteSystem. ws_sessions s \<noteq> [] \<and> held_sentences (ws_ss s) = {} \<and> file_holder (ws_ss s) ''a'' = None"
proof -
  let ?s0 = "ws_start demo_ss [(''a'', 0, [])]"
  let ?r = "ws_run (replicate 9 0) ?s0" and ?s = "the (ws_run (replicate 9 0) ?s0)"
  have p: "map_option (\<lambda>s. map se_phase (ws_sessions s)) ?r = Some [Finished]" by code_simp
  then have "?r = Some ?s" by (cases ?r) simp_all
  from ws_run_reachable [OF this reachable_ws_start [of "''s''" 9000 demo_fs, folded demo_ss_def]]
  have r: "reachable ''s'' 9000 demo_fs ?s" .
  have "map se_phase (ws_sessions ?s) = [Finished]" using p by (cases ?r) simp_all
  then have "\<forall>se\<in>set (ws_sessions ?s). se_phase se = Finished" "ws_sessions ?s \<noteq> []"
    by (auto simp del: One_nat_def simp: map_eq_Cons_conv)
  then show ?thesis using finished_sessions_hold_nothing [OF r] by blast
qed

text \<open>C13. The handler and the interleaving model are the same program: whatever
  \<open>handle_ss_write\<close> does with nobody in between is a complete run of the steps of one session,
  with the same final server and the same messages.\<close>

theorem handler_is_a_session:
  assumes "handle_ss_write ss filename sent_num msgs = Some (ss', outs)" "file_holder ss filename = None"
  shows "\<exists>se'. se_phase se' = Finished \<and> session_steps t ss (new_session filename sent_num msgs) outs ss' se'"
  by (rule handler_steps [OF assms])

theorem handler_is_a_session_witness:
  "\<exists>ss' outs se'. se_phase se' = Finished \<and>
     session_steps 0 demo_ss (new_session ''a'' 0 [''1 all'', ''ETIRW'']) outs ss' se'"
proof -
  have "handle_ss_write demo_ss ''a'' 0 [''1 all'', ''ETIRW''] \<noteq> None" by code_simp
  then obtain ss' outs where "handle_ss_write demo_ss ''a'' 0 [''1 all'', ''ETIRW''] = Some (ss', outs)" by auto
  moreover have "file_holder demo_ss ''a'' = None" by code_simp
  ultimately show ?thesis using handler_is_a_session by blast
qed

end
