(* ===== verification/Commit_Index.thy ===== *)
theory Commit_Index
  imports Write_Session
begin

text \<open>
  Which sentence a commit edits. Sentences have no identity in the code, only numbers, and a
  session's number is from the time it started: \<open>get_sentence_shift\<close> has to move it past the
  commits in between. A commit that edits inside complete sentences replaces a block
  (\<open>block_edit\<close>), so a sentence can be followed through a history of commits; \<open>track\<close> computes
  its number from the log. The shift of the code is that number unless a commit in between lies
  between the old and the new position of the sentence, and a closed run shows that the edit
  then goes to the wrong sentence.
\<close>

section \<open>A commit replaces a block\<close>

definition block_edit :: "string \<Rightarrow> nat \<Rightarrow> string \<Rightarrow> bool" where
  "block_edit c m r \<longleftrightarrow> m < length (split_into_sentences c) \<and>
     (\<exists>mid. mid \<noteq> [] \<and> split_into_sentences r =
        take m (split_into_sentences c) @ mid @ drop (Suc m) (split_into_sentences c))"

text \<open>Every update inserts in front of the closing delimiter of the sentence it finds at \<open>n\<close>.\<close>

fun inner_updates :: "string \<Rightarrow> c_int \<Rightarrow> UpdateNode list \<Rightarrow> bool" where
  "inner_updates c n [] = True"
| "inner_updates c n (u # us) =
     (nat n < length (split_into_sentences c) \<and> terminated (split_into_sentences c ! nat n) \<and>
      nat (un_word_idx u) < length (split_into_words (split_into_sentences c ! nat n)) \<and>
      (case apply_single_update c n (un_word_idx u) (un_content u) of
         None \<Rightarrow> False | Some c' \<Rightarrow> inner_updates c' n us))"

lemma block_edit_length:
  "block_edit c m r \<Longrightarrow> m < length (split_into_sentences c) \<and>
     length (split_into_sentences c) \<le> length (split_into_sentences r)"
proof -
  assume "block_edit c m r"
  then obtain mid where mid: "mid \<noteq> []" "m < length (split_into_sentences c)"
    "split_into_sentences r = take m (split_into_sentences c) @ mid @ drop (Suc m) (split_into_sentences c)"
    unfolding block_edit_def by blast
  then show ?thesis by (cases mid) simp_all
qed

lemma block_edit_refl: "m < length (split_into_sentences c) \<Longrightarrow> block_edit c m c"
  unfolding block_edit_def
  by (intro conjI exI [of _ "[split_into_sentences c ! m]"]) (simp_all add: id_take_nth_drop)

lemma block_edit_trans:
  assumes "block_edit a m b" "block_edit b m c"
  shows "block_edit a m c"
proof -
  obtain x y where x: "x \<noteq> []" "m < length (split_into_sentences a)"
      "split_into_sentences b = take m (split_into_sentences a) @ x @ drop (Suc m) (split_into_sentences a)"
    and y: "y \<noteq> []" "split_into_sentences c = take m (split_into_sentences b) @ y @ drop (Suc m) (split_into_sentences b)"
    using assms unfolding block_edit_def by blast
  have "take m (split_into_sentences b) = take m (split_into_sentences a)" using x by simp
  moreover have "drop (Suc m) (split_into_sentences b) = tl x @ drop (Suc m) (split_into_sentences a)"
    using x by (cases x) simp_all
  ultimately show ?thesis using x(2) y unfolding block_edit_def
    by (intro conjI exI [of _ "y @ tl x"]) simp_all
qed

lemma apply_updates_block:
  "apply_updates c n us = Some r \<Longrightarrow> inner_updates c n us \<Longrightarrow> nat n < length (split_into_sentences c) \<Longrightarrow>
     block_edit c (nat n) r"
proof (induction c n us rule: apply_updates.induct)
  case (2 c n u us)
  then obtain c' where c': "apply_single_update c n (un_word_idx u) (un_content u) = Some c'"
    "apply_updates c' n us = Some r" by (auto split: option.splits)
  have first: "block_edit c (nat n) c'"
    using update_block [OF c'(1)] 2(3) unfolding block_edit_def by auto
  then have "nat n < length (split_into_sentences c')" using block_edit_length by fastforce
  then show ?case using 2 c' first by (auto intro: block_edit_trans)
qed (simp add: block_edit_refl)

text \<open>Where a sentence outside the block goes.\<close>

definition sentence_delta :: "string \<Rightarrow> string \<Rightarrow> c_int" where
  "sentence_delta c r = int (length (split_into_sentences r)) - int (length (split_into_sentences c))"

lemma block_edit_delta: "block_edit c m r \<Longrightarrow> 0 \<le> sentence_delta c r"
  using block_edit_length by (fastforce simp: sentence_delta_def)

lemma block_edit_follow:
  assumes "block_edit c m r" "0 \<le> p" "nat p < length (split_into_sentences c)" "p \<noteq> int m"
    and q: "q = (if int m < p then p + sentence_delta c r else p)"
  shows "0 \<le> q" "nat q < length (split_into_sentences r)"
    "split_into_sentences r ! nat q = split_into_sentences c ! nat p"
proof -
  let ?s = "split_into_sentences c"
  obtain mid where mid: "mid \<noteq> []" "m < length ?s" "split_into_sentences r = take m ?s @ mid @ drop (Suc m) ?s"
    using assms(1) unfolding block_edit_def by blast
  have d: "sentence_delta c r = int (length mid) - 1" using mid by (simp add: sentence_delta_def)
  have "0 < length mid" using mid(1) by simp
  consider "int m < p" | "p < int m" using assms(4) by linarith
  then have "0 \<le> q \<and> nat q < length (split_into_sentences r) \<and> split_into_sentences r ! nat q = ?s ! nat p"
  proof cases
    case 1
    then obtain k where k: "nat p = Suc m + k" by (metis Suc_leI le_Suc_ex zless_nat_eq_int_zless)
    then have "p = int (Suc m + k)" using assms(2) by (metis int_nat_eq)
    then have "q = int (m + (length mid + k))" using 1 \<open>0 < length mid\<close> by (simp add: q d)
    then have "nat q = m + (length mid + k)" "0 \<le> q" by (simp_all only: nat_int of_nat_0_le_iff)
    moreover have "split_into_sentences r ! (m + (length mid + k)) = ?s ! (Suc m + k)"
      using mid by (simp add: nth_append)
    moreover have "m + (length mid + k) < length (split_into_sentences r)" using mid k assms(3) by simp
    ultimately show ?thesis by (simp only: k simp_thms)
  next
    case 2
    then have "nat p < m" "q = p" using assms(2) by (auto simp: q)
    then show ?thesis using mid assms(2) \<open>0 < length mid\<close> by (simp add: nth_append)
  qed
  then show "0 \<le> q" "nat q < length (split_into_sentences r)"
    "split_into_sentences r ! nat q = ?s ! nat p" by simp_all
qed

section \<open>A history of commits\<close>

text \<open>\<open>history p c es r\<close>: commits lead from text \<open>c\<close> to text \<open>r\<close>, none of them edits the sentence
  that starts out as number \<open>p\<close>, and \<open>es\<close> are the log entries they leave (a commit that keeps the
  number of sentences leaves none).\<close>

inductive history :: "c_int \<Rightarrow> string \<Rightarrow> ModificationLogNode list \<Rightarrow> string \<Rightarrow> bool" where
  now: "history p c [] c"
| logged:
    "block_edit c (nat m) c' \<Longrightarrow> 0 \<le> m \<Longrightarrow> m \<noteq> p \<Longrightarrow> sentence_delta c c' \<noteq> 0 \<Longrightarrow>
     ml_original_sentence_index e = m \<Longrightarrow> ml_sentence_delta e = sentence_delta c c' \<Longrightarrow>
     history (if m < p then p + sentence_delta c c' else p) c' es r \<Longrightarrow> history p c (e # es) r"
| unlogged:
    "block_edit c (nat m) c' \<Longrightarrow> 0 \<le> m \<Longrightarrow> m \<noteq> p \<Longrightarrow> sentence_delta c c' = 0 \<Longrightarrow>
     history p c' es r \<Longrightarrow> history p c es r"

inductive_cases history_Cons: "history p c (e # es) r"

lemma history_follow:
  "history p c es r \<Longrightarrow> 0 \<le> p \<Longrightarrow> nat p < length (split_into_sentences c) \<Longrightarrow>
     (\<forall>e\<in>set es. 0 \<le> ml_sentence_delta e) \<and> 0 \<le> track p es \<and>
     nat (track p es) < length (split_into_sentences r) \<and>
     split_into_sentences r ! nat (track p es) = split_into_sentences c ! nat p"
proof (induction rule: history.induct)
  case (logged c m c' p e es r)
  let ?q = "if m < p then p + sentence_delta c c' else p"
  note follow = block_edit_follow [OF logged.hyps(1) logged.prems, of ?q]
  have "p \<noteq> int (nat m)" "?q = (if int (nat m) < p then p + sentence_delta c c' else p)"
    using logged(2,3) by auto
  note q = follow [OF this]
  show ?case using logged.IH [OF q(1,2)] q(3) logged(5,6) block_edit_delta [OF logged.hyps(1)] by auto
next
  case (unlogged c m c' p es r)
  note follow = block_edit_follow [OF unlogged.hyps(1) unlogged.prems, of p]
  have "p \<noteq> int (nat m)" "p = (if int (nat m) < p then p + sentence_delta c c' else p)"
    using unlogged(2,3,4) by auto
  note q = follow [OF this]
  show ?case using unlogged.IH [OF q(1,2)] q(3) by simp
qed simp

section \<open>Properties\<close>

text \<open>C9. A commit all of whose updates insert in front of the closing delimiter of the sentence
  they find replaces that one sentence by a block of sentences and keeps every other sentence of
  the file, whatever the number of updates.\<close>

theorem commit_replaces_block:
  assumes "apply_updates content sent_num us = Some r" "inner_updates content sent_num us"
    and "nat sent_num < length (split_into_sentences content)"
  shows "\<exists>mid. mid \<noteq> [] \<and> split_into_sentences r =
    take (nat sent_num) (split_into_sentences content) @ mid @ drop (Suc (nat sent_num)) (split_into_sentences content)"
  using apply_updates_block [OF assms] by (simp add: block_edit_def)

theorem commit_replaces_block_witness:
  "\<exists>mid. mid \<noteq> [] \<and> split_into_sentences ''A. x B y. z. C.'' = [''A.''] @ mid @ [''C.'']"
proof -
  let ?us = "[\<lparr>un_word_idx = 1, un_content = ''y. z''\<rparr>, \<lparr>un_word_idx = 0, un_content = ''x''\<rparr>]"
  have "apply_updates ''A. B. C.'' 1 ?us = Some ''A. x B y. z. C.''" "inner_updates ''A. B. C.'' 1 ?us"
    "split_into_sentences ''A. B. C.'' = [''A.'', ''B.'', ''C.'']" by code_simp+
  then show ?thesis using commit_replaces_block [of "''A. B. C.''" 1 ?us] by (simp add: numeral_2_eq_2)
qed



section \<open>Where the numbers go wrong\<close>

definition abc_ss :: StorageServer where
  "abc_ss = ss_create ''s'' 9000 \<lparr>fs_files = [''s/a'' \<mapsto> ''A. B. C.''], fs_writable = (\<lambda>_. True)\<rparr>"

text \<open>A session takes sentence 1 (\<open>B.\<close>). Two others start later and finish first: one puts two
  sentences into sentence 0, so \<open>B.\<close> is number 3, one adds a sentence at number 2. Then the first
  session commits the insertion of \<open>NEW\<close> into its sentence.\<close>

definition overtaken_session :: "string option" where
  "overtaken_session =
     do {
       let start_log_id = get_current_log_id abc_ss;
       (s1, granted) \<leftarrow> try_lock_sentence abc_ss ''a'' 1;
       (s2, _) \<leftarrow> handle_ss_write s1 ''a'' 0 [''1 x. y. u'', ''ETIRW''];
       (s3, _) \<leftarrow> handle_ss_write s2 ''a'' 2 [''1 v. w'', ''ETIRW''];
       (s4, _) \<leftarrow> write_commit s3 ''a'' 1 start_log_id (write_recv_loop [''0 NEW'', ''ETIRW''] []);
       fs_files (ss_fs s4) ''s/a''
     }"

text \<open>The shift compares the log entries, whose numbers are those of the time of each commit,
  with the number of the session's start. In this run the second entry is not counted, and the
  edit meant for \<open>B.\<close> goes into \<open>w.\<close>, a sentence of another user.\<close>

theorem overtaken_session_edits_wrong_sentence:
  "overtaken_session = Some ''A x. y. u v. NEW w. B. C.''"
  by code_simp

text \<open>A session takes sentence 1 (\<open>B.\<close>), another one commits one more sentence in front of it, and a
  third asks for sentence 2, which is now \<open>B.\<close>.\<close>

definition same_sentence_twice :: "(bool \<times> bool \<times> string option) option" where
  "same_sentence_twice =
     do {
       (s1, first) \<leftarrow> try_lock_sentence abc_ss ''a'' 1;
       (s2, _) \<leftarrow> handle_ss_write s1 ''a'' 0 [''1 x. y'', ''ETIRW''];
       (s3, second) \<leftarrow> try_lock_sentence s2 ''a'' 2;
       Some (first, second, fs_files (ss_fs s3) ''s/a'')
     }"

text \<open>The sentence lock is a lock on a number: both sessions get it and edit the same sentence
  \<open>B.\<close> at the same time, which the 423 of the server is there to prevent.\<close>

theorem stale_number_is_no_lock:
  "same_sentence_twice = Some (True, True, Some ''A x. y. B. C.'')"
  by code_simp

end
