(* ===== verification/Access_List.thy ===== *)
theory Access_List
  imports C_Strings
begin

text \<open>
  The access control list of a file (\<^verbatim>\<open>src/common/data_structures.c\<close>): a linked list of
  (user, permission) nodes. \<open>access_control\<close> is what the name server relies on: a permission
  per user, granted, overwritten and revoked independently of the other users.

  \<open>None\<close> is undefined behaviour: a user name of 255 bytes or more leaves the malloc'ed node
  without a terminator, and a long list overflows the buffer it is formatted into.
\<close>

section \<open>The code\<close>

record AccessNode =
  an_username :: string
  an_permission :: char

definition create_access_node :: "string \<Rightarrow> char \<Rightarrow> AccessNode option" where
  "create_access_node username perm =
     map_option (\<lambda>u. \<lparr>an_username = u, an_permission = perm\<rparr>)
       (strncpy_raw (MAX_USERNAME_LEN - 1) username)"

definition add_access :: "AccessNode list \<Rightarrow> string \<Rightarrow> char \<Rightarrow> AccessNode list option" where
  "add_access head username perm =
     (if list_ex (\<lambda>curr. an_username curr = username) head
      then Some (update_first (\<lambda>curr. an_username curr = username)
                   (\<lambda>curr. curr\<lparr>an_permission := perm\<rparr>) head)
      else map_option (\<lambda>new_node. new_node # head) (create_access_node username perm))"

definition remove_access :: "AccessNode list \<Rightarrow> string \<Rightarrow> AccessNode list" where
  "remove_access head username = remove_first (\<lambda>curr. an_username curr = username) head"

definition get_access :: "AccessNode list \<Rightarrow> string \<Rightarrow> char" where
  "get_access head username =
     (case List.find (\<lambda>curr. an_username curr = username) head of
        Some node \<Rightarrow> an_permission node
      | None \<Rightarrow> CHR 0x00)"

text \<open>The loop of \<open>format_access_list\<close> over a buffer of \<open>cap\<close> bytes.\<close>

fun format_access_loop :: "nat \<Rightarrow> AccessNode list \<Rightarrow> string \<Rightarrow> string option" where
  "format_access_loop cap [] buffer = Some buffer"
| "format_access_loop cap (node # rest) buffer =
     (let entry = snprintf (MAX_USERNAME_LEN + 10)
                    (an_username node @ '' ('' @ [an_permission node] @ ''), '')
      in case strcat cap buffer entry of
           None \<Rightarrow> None
         | Some buffer' \<Rightarrow> format_access_loop cap rest buffer')"

definition format_access_list :: "nat \<Rightarrow> AccessNode list \<Rightarrow> string option" where
  "format_access_list cap head =
     (case format_access_loop cap head [] of
        None \<Rightarrow> None
      | Some buffer \<Rightarrow>
          Some (if length buffer > 2 then take (length buffer - 2) buffer else buffer))"

section \<open>The interface\<close>

text \<open>Several grants one after the other.\<close>

fun grant_all :: "('l \<Rightarrow> string \<Rightarrow> char \<Rightarrow> 'l option) \<Rightarrow> 'l \<Rightarrow> (string \<times> char) list \<Rightarrow> 'l option" where
  "grant_all grant l [] = Some l"
| "grant_all grant l ((u, p) # gs) = (case grant l u p of None \<Rightarrow> None | Some l' \<Rightarrow> grant_all grant l' gs)"

locale access_control =
  fixes empty :: 'l and grant :: "'l \<Rightarrow> string \<Rightarrow> char \<Rightarrow> 'l option" and revoke :: "'l \<Rightarrow> string \<Rightarrow> 'l"
    and get :: "'l \<Rightarrow> string \<Rightarrow> char" and inv :: "'l \<Rightarrow> bool"
  assumes get_empty: "get empty u = CHR 0x00"
    and get_grant: "grant l u p = Some l' \<Longrightarrow> get l' v = (if v = u then p else get l v)"
    and get_revoke: "inv l \<Longrightarrow> get (revoke l u) v = (if v = u then CHR 0x00 else get l v)"
    and inv_empty: "inv empty"
    and inv_grant: "inv l \<Longrightarrow> grant l u p = Some l' \<Longrightarrow> inv l'"
    and inv_revoke: "inv l \<Longrightarrow> inv (revoke l u)"
begin

text \<open>A list of grants, in order: the last grant of a user counts.\<close>

lemma get_grant_all:
  "grant_all grant l gs = Some l' \<Longrightarrow>
     get l' v = (case map_of (rev gs) v of Some p \<Rightarrow> p | None \<Rightarrow> get l v)"
proof (induction gs arbitrary: l)
  case (Cons g gs)
  obtain u p where g: "g = (u, p)" by (cases g)
  with Cons obtain l1 where l1: "grant l u p = Some l1" "grant_all grant l1 gs = Some l'"
    by (auto split: option.splits)
  then show ?case using Cons.IH get_grant [OF l1(1), of v] g by (auto split: option.splits)
qed simp

lemma inv_grant_all: "inv l \<Longrightarrow> grant_all grant l gs = Some l' \<Longrightarrow> inv l'"
proof (induction gs arbitrary: l)
  case (Cons g gs)
  obtain u p where g: "g = (u, p)" by (cases g)
  with Cons obtain l1 where l1: "grant l u p = Some l1" "grant_all grant l1 gs = Some l'"
    by (auto split: option.splits)
  then show ?case using Cons inv_grant by blast
qed simp

lemma revoke_grant:
  "inv l \<Longrightarrow> grant l u p = Some l' \<Longrightarrow> get (revoke l' u) v = (if v = u then CHR 0x00 else get l v)"
  using get_grant inv_grant get_revoke by simp

lemma grant_grant:
  "grant l u p = Some l1 \<Longrightarrow> grant l1 u q = Some l2 \<Longrightarrow> get l2 v = (if v = u then q else get l v)"
  using get_grant by simp

end

section \<open>The list provides it\<close>

definition access_inv :: "AccessNode list \<Rightarrow> bool" where
  "access_inv l \<longleftrightarrow> distinct (map an_username l) \<and>
     (\<forall>n\<in>set l. length (an_username n) < MAX_USERNAME_LEN - 1)"

lemma add_access_None_iff:
  "add_access l u p = None \<longleftrightarrow>
     u \<notin> an_username ` set l \<and> MAX_USERNAME_LEN - 1 \<le> length u"
  by (auto simp: add_access_def create_access_node_def strncpy_raw_def list_ex_iff)

lemma add_access_cases:
  assumes "add_access l u p = Some l'"
  shows "(u \<in> an_username ` set l \<and>
      l' = update_first (\<lambda>n. an_username n = u) (\<lambda>n. n\<lparr>an_permission := p\<rparr>) l) \<or>
    (u \<notin> an_username ` set l \<and> length u < MAX_USERNAME_LEN - 1 \<and>
      l' = \<lparr>an_username = u, an_permission = p\<rparr> # l)"
proof (cases "list_ex (\<lambda>n. an_username n = u) l")
  case True
  then show ?thesis using assms by (force simp: add_access_def list_ex_iff)
next
  case False
  then show ?thesis using assms
    by (force simp: add_access_def create_access_node_def list_ex_iff)
qed

lemma get_add_access:
  assumes "add_access l u p = Some l'"
  shows "get_access l' v = (if v = u then p else get_access l v)"
  using add_access_cases [OF assms]
proof (elim disjE conjE)
  assume u: "u \<in> an_username ` set l"
    and l': "l' = update_first (\<lambda>n. an_username n = u) (\<lambda>n. n\<lparr>an_permission := p\<rparr>) l"
  have "List.find (\<lambda>n. an_username n = u) l \<noteq> None" using u find_key_None [of an_username u l] by simp
  then show ?thesis unfolding get_access_def l'
    by (subst find_update_first) (auto split: option.splits)
qed (simp add: get_access_def)

lemma access_inv_add_access:
  "access_inv l \<Longrightarrow> add_access l u p = Some l' \<Longrightarrow> access_inv l'"
  by (drule add_access_cases)
     (auto simp: access_inv_def dest: update_first_mem)

lemma access_inv_remove: "access_inv l \<Longrightarrow> access_inv (remove_access l u)"
  by (auto simp: access_inv_def remove_access_def)

lemma get_remove_access:
  "access_inv l \<Longrightarrow> get_access (remove_access l u) v = (if v = u then CHR 0x00 else get_access l v)"
  unfolding access_inv_def get_access_def remove_access_def
  by (simp add: list_node_simps)

interpretation acl: access_control "[]" add_access remove_access get_access access_inv
proof unfold_locales
  show "access_inv []" by (simp add: access_inv_def)
qed (auto simp: get_access_def [of "[]"] get_add_access get_remove_access access_inv_add_access
  access_inv_remove)

text \<open>The entries as pairs: what grants do to the set of them.\<close>

definition grants :: "AccessNode list \<Rightarrow> (string \<times> char) list" where
  "grants l = map (\<lambda>n. (an_username n, an_permission n)) l"

lemma grants_inj: "set (grants l) = set (grants l') \<Longrightarrow> set l = set l'"
proof -
  have "inj (\<lambda>n :: AccessNode. (an_username n, an_permission n))" by (intro injI, rule AccessNode.equality) auto
  then show "set (grants l) = set (grants l') \<Longrightarrow> set l = set l'" by (simp add: grants_def inj_image_eq_iff)
qed

lemma users_grants [simp]: "map fst (grants l) = map an_username l" "fst ` set (grants l) = an_username ` set l"
  by (simp_all add: grants_def image_image)

lemma grants_update:
  "distinct (map an_username l) \<Longrightarrow> u \<in> an_username ` set l \<Longrightarrow>
     set (grants (update_first (\<lambda>n. an_username n = u) (\<lambda>n. n\<lparr>an_permission := p\<rparr>) l)) =
       {g \<in> set (grants l). fst g \<noteq> u} \<union> {(u, p)}"
proof (induction l)
  case (Cons a l)
  then show ?case by (cases "an_username a = u") (auto simp: grants_def image_iff)
qed simp

lemma add_access_set:
  assumes "access_inv l" "add_access l u p = Some l'"
  shows "set (grants l') = {g \<in> set (grants l). fst g \<noteq> u} \<union> {(u, p)}"
  using add_access_cases [OF assms(2)]
proof (elim disjE conjE)
  assume "u \<notin> an_username ` set l" "l' = \<lparr>an_username = u, an_permission = p\<rparr> # l"
  then show ?thesis by (auto simp: grants_def image_iff)
qed (use assms(1) grants_update in \<open>simp add: access_inv_def\<close>)

lemma grant_all_set:
  assumes "access_inv l" "distinct (map fst gs)" "grant_all add_access l gs = Some l'"
  shows "set (grants l') = {g \<in> set (grants l). fst g \<notin> fst ` set gs} \<union> set gs"
  using assms
proof (induction gs arbitrary: l)
  case (Cons g gs)
  obtain u p where g: "g = (u, p)" by (cases g)
  with Cons.prems obtain l1 where l1: "add_access l u p = Some l1" "grant_all add_access l1 gs = Some l'"
    by (auto split: option.splits)
  have "u \<notin> fst ` set gs" "distinct (map fst gs)" using Cons.prems(2) g by simp_all
  moreover from this have "(u, b) \<notin> set gs" for b by force
  ultimately show ?case
    using Cons.IH [OF access_inv_add_access [OF Cons.prems(1) l1(1)] _ l1(2)] add_access_set [OF Cons.prems(1) l1(1)] g
    by auto
qed auto

lemma access_nodes_update:
  "access_inv l \<Longrightarrow> n \<in> set l \<Longrightarrow> get_access l (an_username n) = an_permission n"
  unfolding access_inv_def get_access_def using find_distinct_key [of an_username l n] by simp

section \<open>Formatting\<close>

definition access_entry :: "AccessNode \<Rightarrow> string" where
  "access_entry n = an_username n @ '' ('' @ [an_permission n] @ '')''"

lemma format_access_loop_step:
  "length (an_username n) < MAX_USERNAME_LEN \<Longrightarrow>
     format_access_loop cap (n # ns) buf =
       (if length (buf @ access_entry n @ '', '') < cap
        then format_access_loop cap ns (buf @ access_entry n @ '', '') else None)"
  by (simp add: access_entry_def strcat_def)

lemma format_access_loop_eq:
  "(\<forall>n\<in>set l. length (an_username n) < MAX_USERNAME_LEN) \<Longrightarrow>
     format_access_loop cap l buf =
       (let r = buf @ concat (map (\<lambda>n. access_entry n @ '', '') l)
        in if l = [] \<or> length r < cap then Some r else None)"
proof (induction l arbitrary: buf)
  case (Cons n ns)
  have "format_access_loop cap (n # ns) buf =
      (if length (buf @ access_entry n @ '', '') < cap
       then format_access_loop cap ns (buf @ access_entry n @ '', '') else None)"
    using Cons.prems by (intro format_access_loop_step) simp
  then show ?case using Cons.IH [of "buf @ access_entry n @ '', ''"] Cons.prems by (simp add: Let_def)
qed simp

fun sep_entries :: "string list \<Rightarrow> string" where
  "sep_entries [] = []"
| "sep_entries [x] = x"
| "sep_entries (x # y # ys) = x @ '', '' @ sep_entries (y # ys)"

lemma concat_sep_entries: "xs \<noteq> [] \<Longrightarrow> concat (map (\<lambda>x. x @ '', '') xs) = sep_entries xs @ '', ''"
  by (induction xs rule: sep_entries.induct) auto

lemma format_access_list_eq:
  assumes "\<forall>n\<in>set l. length (an_username n) < MAX_USERNAME_LEN"
  shows "format_access_list cap l =
    (if l = [] \<or> length (sep_entries (map access_entry l)) + 2 < cap
     then Some (sep_entries (map access_entry l)) else None)"
proof (cases "l = []")
  case False
  have c: "concat (map (\<lambda>n. access_entry n @ '', '') l) = sep_entries (map access_entry l) @ '', ''"
    using concat_sep_entries [of "map access_entry l"] False by (simp add: comp_def)
  have "sep_entries (map access_entry l) \<noteq> []"
    using False by (cases l rule: remdups_adj.cases) (auto simp: access_entry_def)
  then show ?thesis using False
    by (simp add: format_access_list_def format_access_loop_eq [OF assms] c Let_def)
qed (simp add: format_access_list_def)

lemma length_sep_entries_le:
  "(\<forall>x\<in>set xs. length x + 2 \<le> k) \<Longrightarrow> xs \<noteq> [] \<Longrightarrow> length (sep_entries xs) + 2 \<le> k * length xs"
proof (induction xs rule: sep_entries.induct)
  case (3 x y ys)
  then show ?case by (simp add: algebra_simps)
qed auto

section \<open>Properties\<close>

text \<open>The list is a permission table: granting sets one user's permission, revoking clears
  it, and neither touches another user.\<close>

theorem access_list_table:
  assumes "access_inv l" and "add_access l u p = Some l'"
  shows "get_access l' v = (if v = u then p else get_access l v) \<and> access_inv l' \<and>
    get_access (remove_access l' u) v = (if v = u then CHR 0x00 else get_access l v) \<and>
    access_inv (remove_access l' u)"
  using acl.get_grant [OF assms(2)] acl.inv_grant [OF assms] acl.revoke_grant [OF assms]
    acl.inv_revoke by simp

theorem access_list_table_witness:
  "get_access [\<lparr>an_username = ''bob'', an_permission = CHR ''W''\<rparr>,
      \<lparr>an_username = ''al'', an_permission = CHR ''R''\<rparr>] ''bob'' = CHR ''W''"
proof -
  let ?l = "[\<lparr>an_username = ''bob'', an_permission = CHR ''R''\<rparr>,
      \<lparr>an_username = ''al'', an_permission = CHR ''R''\<rparr>]"
  let ?l' = "[\<lparr>an_username = ''bob'', an_permission = CHR ''W''\<rparr>,
      \<lparr>an_username = ''al'', an_permission = CHR ''R''\<rparr>]"
  have inv: "access_inv ?l" by (simp add: access_inv_def)
  have add: "add_access ?l ''bob'' (CHR ''W'') = Some ?l'" by (simp add: add_access_def)
  show ?thesis using access_list_table [OF inv add, of "''bob''"] by simp
qed

text \<open>Formatting: with user names shorter than \<open>MAX_USERNAME_LEN\<close> and at most 15 users the
  4096-byte buffer of \<open>handle_info\<close> is never overflowed, and the text is the entries
  separated by commas.\<close>

theorem format_access_list_fits:
  assumes "\<And>n. n \<in> set l \<Longrightarrow> length (an_username n) < MAX_USERNAME_LEN" and "length l \<le> 15"
  shows "format_access_list BUFFER_SIZE l = Some (sep_entries (map access_entry l))"
proof -
  have "length (sep_entries (map access_entry l)) + 2 \<le> 261 * length l" if "l \<noteq> []"
    using length_sep_entries_le [of "map access_entry l" 261] assms(1) that
    by (fastforce simp: access_entry_def)
  then have "l = [] \<or> length (sep_entries (map access_entry l)) + 2 < BUFFER_SIZE"
    using assms(2) by fastforce
  then show ?thesis using format_access_list_eq [of l BUFFER_SIZE] assms(1) by auto
qed

theorem format_access_list_fits_witness:
  "format_access_list BUFFER_SIZE [\<lparr>an_username = ''bob'', an_permission = CHR ''W''\<rparr>,
      \<lparr>an_username = ''al'', an_permission = CHR ''R''\<rparr>] = Some ''bob (W), al (R)''"
  by (subst format_access_list_fits) (auto simp: access_entry_def)

end
