(* ===== verification/Hash_Table.thy ===== *)
theory Hash_Table
  imports Access_List
begin

text \<open>
  The file table of the name server (\<^verbatim>\<open>src/common/data_structures.c\<close>): 1024 buckets of
  file metadata, chained, indexed by the djb2 hash of the file name. \<open>file_map\<close> is what its
  clients rely on: a finite map from names to metadata. A pointer returned by \<open>ht_get\<close> is
  the metadata's value together with \<open>ht_update\<close>, which writes through it: the name of an
  entry never changes and its bucket holds it once, so the name identifies the entry.
\<close>

section \<open>The code\<close>

record FileMetadata =
  fm_filename :: string
  fm_owner :: string
  fm_access_list :: "AccessNode list"
  fm_ss_ip :: string
  fm_ss_client_port :: c_int
  fm_size :: c_long
  fm_word_count :: c_int
  fm_char_count :: c_int
  fm_created_at :: c_long
  fm_last_modified :: c_long
  fm_last_accessed :: c_long

record HashTable =
  buckets :: "nat \<Rightarrow> FileMetadata list"

definition ht_create :: HashTable where
  "ht_create = \<lparr>buckets = (\<lambda>_. [])\<rparr>"

text \<open>\<open>unsigned long\<close> is 64 bits; \<open>c\<close> is the signed byte, converted to it.\<close>

fun hash_loop :: "64 word \<Rightarrow> string \<Rightarrow> 64 word" where
  "hash_loop hash [] = hash"
| "hash_loop hash (c # key) = hash_loop ((push_bit 5 hash + hash) + word_of_int (signed_char c)) key"

definition hash_function :: "string \<Rightarrow> nat" where
  "hash_function key = unat (hash_loop 5381 key mod 1024)"

definition ht_insert :: "HashTable \<Rightarrow> FileMetadata \<Rightarrow> HashTable \<times> bool" where
  "ht_insert table metadata =
     (let index = hash_function (fm_filename metadata)
      in if list_ex (\<lambda>m. fm_filename m = fm_filename metadata) (buckets table index)
         then (table, False)
         else (table\<lparr>buckets := (buckets table)(index := metadata # buckets table index)\<rparr>, True))"

definition ht_get :: "HashTable \<Rightarrow> string \<Rightarrow> FileMetadata option" where
  "ht_get table filename =
     List.find (\<lambda>m. fm_filename m = filename) (buckets table (hash_function filename))"

definition ht_delete :: "HashTable \<Rightarrow> string \<Rightarrow> HashTable" where
  "ht_delete table filename =
     (let index = hash_function filename
      in table\<lparr>buckets := (buckets table)(index :=
           remove_first (\<lambda>m. fm_filename m = filename) (buckets table index))\<rparr>)"

text \<open>A write to fields of the metadata that \<open>ht_get table filename\<close> points to.\<close>

definition ht_update :: "HashTable \<Rightarrow> string \<Rightarrow> (FileMetadata \<Rightarrow> FileMetadata) \<Rightarrow> HashTable" where
  "ht_update table filename f =
     (let index = hash_function filename
      in table\<lparr>buckets := (buckets table)(index :=
           update_first (\<lambda>m. fm_filename m = filename) f (buckets table index))\<rparr>)"

text \<open>The traversal of the table: bucket by bucket, each from its head.\<close>

definition ht_files :: "HashTable \<Rightarrow> FileMetadata list" where
  "ht_files table = concat (map (buckets table) [0..<HT_SIZE])"

section \<open>The hash\<close>

lemma hash_function_bound [simp]: "hash_function key < HT_SIZE"
  unfolding hash_function_def by (simp add: unat_mod)

lemma hash_loop_uint:
  "uint (hash_loop h key) = foldl (\<lambda>h c. 33 * h + signed_char c) (uint h) key mod 2 ^ 64"
proof (induction key arbitrary: h)
  case Nil
  then show ?case using uint_lt2p [of h] by simp
next
  case (Cons c key)
  have fold_mod: "foldl (\<lambda>h c. 33 * h + signed_char c) (a mod 2 ^ 64) ks mod 2 ^ 64 =
      foldl (\<lambda>h c. 33 * h + signed_char c) a ks mod 2 ^ 64" for a :: int and ks
  proof (induction ks arbitrary: a)
    case (Cons k ks)
    have "foldl (\<lambda>h c. 33 * h + signed_char c) (33 * (a mod 2 ^ 64) + signed_char k) ks mod 2 ^ 64 =
        foldl (\<lambda>h c. 33 * h + signed_char c) ((33 * (a mod 2 ^ 64) + signed_char k) mod 2 ^ 64) ks mod 2 ^ 64"
      by (rule Cons.IH [symmetric])
    also have "(33 * (a mod 2 ^ 64) + signed_char k) mod 2 ^ 64 = (33 * a + signed_char k) mod 2 ^ 64"
      by (metis mod_add_left_eq mod_mult_right_eq)
    finally show ?case using Cons.IH [of "33 * a + signed_char k"] by simp
  qed simp
  have "push_bit 5 h + h = 33 * h" by (simp add: push_bit_eq_mult)
  moreover have "uint (33 * h + word_of_int (signed_char c)) = (33 * uint h + signed_char c) mod 2 ^ 64"
    by (simp add: uint_word_ariths uint_word_of_int take_bit_eq_mod mod_simps)
  ultimately show ?case using Cons.IH fold_mod by simp
qed

section \<open>The interface\<close>

locale file_map =
  fixes empty :: 't and insert :: "'t \<Rightarrow> FileMetadata \<Rightarrow> 't \<times> bool"
    and lookup :: "'t \<Rightarrow> string \<Rightarrow> FileMetadata option"
    and delete :: "'t \<Rightarrow> string \<Rightarrow> 't"
    and update :: "'t \<Rightarrow> string \<Rightarrow> (FileMetadata \<Rightarrow> FileMetadata) \<Rightarrow> 't"
    and inv :: "'t \<Rightarrow> bool"
  assumes lookup_empty: "lookup empty n = None"
    and lookup_name: "lookup t n = Some m \<Longrightarrow> fm_filename m = n"
    and insert_result: "insert t m = (t', b) \<Longrightarrow> b \<longleftrightarrow> lookup t (fm_filename m) = None"
    and lookup_insert: "insert t m = (t', True) \<Longrightarrow> lookup t' = (lookup t)(fm_filename m \<mapsto> m)"
    and insert_failed: "insert t m = (t', False) \<Longrightarrow> t' = t"
    and lookup_delete: "inv t \<Longrightarrow> lookup (delete t n) = (lookup t)(n := None)"
    and lookup_update: "(\<And>m. fm_filename (f m) = fm_filename m) \<Longrightarrow>
      lookup (update t n f) = (lookup t)(n := map_option f (lookup t n))"
    and inv_empty: "inv empty"
    and inv_insert: "inv t \<Longrightarrow> inv (fst (insert t m))"
    and inv_delete: "inv t \<Longrightarrow> inv (delete t n)"
    and inv_update: "inv t \<Longrightarrow> (\<And>m. fm_filename (f m) = fm_filename m) \<Longrightarrow> inv (update t n f)"
begin

lemma lookup_insert_if:
  "lookup (fst (insert t m)) n =
     (if lookup t (fm_filename m) = None \<and> n = fm_filename m then Some m else lookup t n)"
proof (cases "insert t m")
  case (Pair t' b)
  then show ?thesis
    using insert_result [OF Pair] lookup_insert [of t m t'] insert_failed [of t m t'] by (cases b) auto
qed

lemma insert_delete:
  "inv t \<Longrightarrow> lookup t (fm_filename m) = None \<Longrightarrow>
     lookup (delete (fst (insert t m)) (fm_filename m)) = lookup t"
  using lookup_delete [OF inv_insert, of t m "fm_filename m"] lookup_insert_if [of t m]
  by (auto simp: fun_eq_iff)

lemma lookup_update_same:
  "(\<And>m. fm_filename (f m) = fm_filename m) \<Longrightarrow> lookup (update t n f) n = map_option f (lookup t n)"
  using lookup_update [of f t n] by simp

text \<open>Inserting a list of entries, in order, duplicates dropped: the first of a name stays.\<close>

lemma lookup_insert_list:
  "distinct (map fm_filename ms) \<Longrightarrow> (\<forall>m\<in>set ms. lookup t (fm_filename m) = None) \<Longrightarrow>
     lookup (foldl (\<lambda>t m. fst (insert t m)) t ms) n =
       (case List.find (\<lambda>m. fm_filename m = n) ms of Some m \<Rightarrow> Some m | None \<Rightarrow> lookup t n)"
proof (induction ms arbitrary: t)
  case (Cons m ms)
  have "\<forall>x\<in>set ms. lookup (fst (insert t m)) (fm_filename x) = None"
    using Cons.prems by (auto simp: lookup_insert_if image_iff)
  then have IH: "lookup (foldl (\<lambda>t m. fst (insert t m)) (fst (insert t m)) ms) n =
      (case List.find (\<lambda>m. fm_filename m = n) ms of Some x \<Rightarrow> Some x
       | None \<Rightarrow> lookup (fst (insert t m)) n)"
    using Cons.IH [of "fst (insert t m)"] Cons.prems by simp
  show ?case
  proof (cases "n = fm_filename m")
    case True
    then have "List.find (\<lambda>m. fm_filename m = n) ms = None"
      using Cons.prems(1) find_key_None [of fm_filename n ms] by simp
    then show ?thesis using IH True Cons.prems(2) by (simp add: lookup_insert_if)
  next
    case False
    then show ?thesis using IH by (simp add: lookup_insert_if split: option.splits)
  qed
qed simp

lemma inv_insert_list: "inv t \<Longrightarrow> inv (foldl (\<lambda>t m. fst (insert t m)) t ms)"
  by (induction ms arbitrary: t) (auto simp: inv_insert)

end

section \<open>The table provides it\<close>

definition ht_inv :: "HashTable \<Rightarrow> bool" where
  "ht_inv t \<longleftrightarrow> (\<forall>i. distinct (map fm_filename (buckets t i)) \<and>
     (\<forall>m\<in>set (buckets t i). hash_function (fm_filename m) = i))"

lemma ht_inv_distinct: "ht_inv t \<Longrightarrow> distinct (map fm_filename (buckets t i))"
  by (simp add: ht_inv_def)

lemma ht_inv_delete: "ht_inv t \<Longrightarrow> ht_inv (ht_delete t n)"
  by (auto simp: ht_inv_def ht_delete_def Let_def)

lemma ht_inv_insert: "ht_inv t \<Longrightarrow> ht_inv (fst (ht_insert t m))"
  by (auto simp: ht_inv_def ht_insert_def Let_def list_ex_iff)

lemma ht_inv_update:
  assumes "ht_inv t" and f: "\<And>m. fm_filename (f m) = fm_filename m"
  shows "ht_inv (ht_update t n f)"
proof -
  let ?b = "\<lambda>i. update_first (\<lambda>m. fm_filename m = n) f (buckets t i)"
  have "distinct (map fm_filename (?b i))" for i
    using assms(1) map_update_first_key [of fm_filename f, OF f] by (simp add: ht_inv_def)
  moreover have "hash_function (fm_filename m) = i" if "m \<in> set (?b i)" for m i
    using update_first_mem [OF that] assms(1) f by (auto simp: ht_inv_def)
  ultimately show ?thesis using assms(1) by (simp add: ht_inv_def ht_update_def Let_def)
qed

lemma ht_get_delete: "ht_inv t \<Longrightarrow> ht_get (ht_delete t n) = (ht_get t)(n := None)"
  by (rule ext) (auto simp: ht_get_def ht_delete_def Let_def list_node_simps ht_inv_distinct)

lemma ht_get_update:
  "(\<And>m. fm_filename (f m) = fm_filename m) \<Longrightarrow>
     ht_get (ht_update t n f) = (ht_get t)(n := map_option f (ht_get t n))"
  by (rule ext) (auto simp: ht_get_def ht_update_def Let_def list_node_simps)

lemma ht_insert_cases:
  "ht_insert t m =
     (if ht_get t (fm_filename m) = None
      then (t\<lparr>buckets := (buckets t)(hash_function (fm_filename m) :=
              m # buckets t (hash_function (fm_filename m)))\<rparr>, True)
      else (t, False))"
  by (auto simp: ht_insert_def ht_get_def Let_def list_ex_iff find_None_iff)

interpretation ht: file_map ht_create ht_insert ht_get ht_delete ht_update ht_inv
proof unfold_locales
  show "ht_get ht_create n = None" for n by (simp add: ht_get_def ht_create_def)
  show "ht_get t n = Some m \<Longrightarrow> fm_filename m = n" for t n m
    unfolding ht_get_def by (drule find_key_SomeD) simp
  show "ht_insert t m = (t', True) \<Longrightarrow> ht_get t' = (ht_get t)(fm_filename m \<mapsto> m)" for t m t'
    by (rule ext) (auto simp: ht_insert_cases ht_get_def split: if_splits)
  show "ht_inv ht_create" by (simp add: ht_inv_def ht_create_def)
  show "ht_inv t \<Longrightarrow> ht_inv (fst (ht_insert t m))" for t m by (rule ht_inv_insert)
qed (auto simp: ht_insert_cases ht_get_delete ht_get_update ht_inv_delete ht_inv_update
  split: if_splits)

text \<open>The traversal visits exactly the entries the lookup finds, each once.\<close>

lemma ht_files_iff: "ht_inv t \<Longrightarrow> m \<in> set (ht_files t) \<longleftrightarrow> ht_get t (fm_filename m) = Some m"
proof -
  assume inv: "ht_inv t"
  let ?i = "hash_function (fm_filename m)"
  have "m \<in> set (ht_files t) \<longleftrightarrow> m \<in> set (buckets t ?i)"
  proof
    assume "m \<in> set (ht_files t)"
    then obtain i where "m \<in> set (buckets t i)" by (auto simp: ht_files_def)
    then show "m \<in> set (buckets t ?i)" using inv by (auto simp: ht_inv_def)
  next
    assume "m \<in> set (buckets t ?i)"
    moreover have "?i \<in> set [0..<HT_SIZE]" using hash_function_bound by simp
    ultimately show "m \<in> set (ht_files t)" unfolding ht_files_def set_concat set_map by blast
  qed
  also have "\<dots> \<longleftrightarrow> ht_get t (fm_filename m) = Some m"
    unfolding ht_get_def
    using find_distinct_key [of fm_filename "buckets t ?i" m] ht_inv_distinct [OF inv, of ?i]
      find_key_SomeD [of fm_filename "fm_filename m" "buckets t ?i" m] by auto
  finally show ?thesis .
qed

lemma distinct_concat_buckets:
  assumes "ht_inv t"
  shows "distinct is \<Longrightarrow> distinct (map fm_filename (concat (map (buckets t) is)))"
proof (induction "is")
  case (Cons i js)
  have "hash_function (fm_filename m) = i" if "m \<in> set (buckets t i)" for m i
    using assms that by (simp add: ht_inv_def)
  then have "fm_filename ` set (buckets t i) \<inter> fm_filename ` set (concat (map (buckets t) js)) = {}"
    using Cons.prems by (auto simp: image_iff) metis
  then show ?case using Cons ht_inv_distinct [OF assms, of i] by auto
qed simp

lemma ht_files_distinct: "ht_inv t \<Longrightarrow> distinct (map fm_filename (ht_files t))"
  unfolding ht_files_def by (rule distinct_concat_buckets) simp_all

section \<open>Properties\<close>

text \<open>The hash of a name is the djb2 polynomial of its signed bytes modulo \<open>2 ^ 64\<close> and then
  modulo the table size, so it is always the index of a bucket.\<close>

theorem hash_function_djb2:
  "int (hash_function key) = foldl (\<lambda>h c. 33 * h + signed_char c) 5381 key mod 2 ^ 64 mod 1024 \<and>
   hash_function key < HT_SIZE"
proof -
  have "int (hash_function key) = uint (hash_loop 5381 key mod 1024)"
    unfolding hash_function_def by simp
  also have "\<dots> = uint (hash_loop 5381 key) mod 1024" by (simp add: uint_mod)
  finally show ?thesis by (simp add: hash_loop_uint)
qed



end
