(* ===== verification/Tries.thy ===== *)
theory Tries
  imports Prelude
begin

text \<open>
  The trie of \<^verbatim>\<open>src/common/data_structures.c\<close>, the name server's index of file names. A
  node has one child pointer per byte value, a function on \<open>char\<close> here, and the flag
  \<open>is_end_of_file\<close>. The recursion over the key is the loop over \<open>filename[i]\<close>.

  \<open>trie_search\<close> is the abstraction: a trie stands for the set of keys it finds. Insertion adds
  its key and nothing else. Deletion removes its key, and the exact set of further keys it
  loses is computed by \<open>trie_delete_search\<close>: the code frees a node once it is not the end of
  a name, without looking at its other children.
\<close>

section \<open>The code\<close>

datatype TrieNode =
  TrieNode (is_end_of_file: bool) (children: "char \<Rightarrow> TrieNode option")

definition trie_create_node :: TrieNode where
  "trie_create_node = TrieNode False (\<lambda>_. None)"

fun trie_insert :: "TrieNode \<Rightarrow> string \<Rightarrow> TrieNode" where
  "trie_insert (TrieNode e ch) [] = TrieNode True ch"
| "trie_insert (TrieNode e ch) (c # cs) =
     (let curr = (case ch c of None \<Rightarrow> trie_create_node | Some t \<Rightarrow> t)
      in TrieNode e (ch(c \<mapsto> trie_insert curr cs)))"

fun trie_search :: "TrieNode \<Rightarrow> string \<Rightarrow> bool" where
  "trie_search (TrieNode e ch) [] = e"
| "trie_search (TrieNode e ch) (c # cs) =
     (case ch c of None \<Rightarrow> False | Some t \<Rightarrow> trie_search t cs)"

text \<open>The scan of the child array for a non-NULL pointer.\<close>

definition has_children :: "(char \<Rightarrow> TrieNode option) \<Rightarrow> bool" where
  "has_children ch = list_ex (\<lambda>i. ch (char_of i) \<noteq> None) [0..<256::nat]"

text \<open>The helper returns the node it changed in place and whether the caller may free it;
  \<open>None\<close> is the NULL node.\<close>

fun trie_delete_helper :: "TrieNode option \<Rightarrow> string \<Rightarrow> TrieNode option \<times> bool" where
  "trie_delete_helper None key = (None, False)"
| "trie_delete_helper (Some (TrieNode e ch)) [] =
     (if e then (Some (TrieNode False ch), \<not> has_children ch) else (Some (TrieNode e ch), False))"
| "trie_delete_helper (Some (TrieNode e ch)) (c # cs) =
     (case trie_delete_helper (ch c) cs of
        (child, True) \<Rightarrow> (Some (TrieNode e (ch(c := None))), \<not> e)
      | (child, False) \<Rightarrow> (Some (TrieNode e (ch(c := child))), False))"

definition trie_delete :: "TrieNode \<Rightarrow> string \<Rightarrow> TrieNode" where
  "trie_delete root filename =
     (case fst (trie_delete_helper (Some root) filename) of Some r \<Rightarrow> r | None \<Rightarrow> root)"

text \<open>
  \<open>trie_get_all_recursive\<close> appends to \<open>buffer\<close> the names below a node, depth first and by byte
  value; \<open>snprintf\<close> cuts the extended prefix to the 255 bytes of \<open>next_prefix\<close>.
\<close>

primrec trie_get_all_recursive :: "TrieNode \<Rightarrow> string \<Rightarrow> string \<Rightarrow> string" where
  "trie_get_all_recursive (TrieNode e ch) = (\<lambda>prefix buffer.
     foldl (\<lambda>buf i. case map_option trie_get_all_recursive (ch (char_of i)) of
              None \<Rightarrow> buf
            | Some below \<Rightarrow> below (take (MAX_FILENAME_LEN - 1) (prefix @ [char_of i])) buf)
       (if e then buffer @ prefix @ [CHR 0x0A] else buffer) [0..<256::nat])"

section \<open>Insertion and search\<close>

lemma trie_search_case:
  "trie_search (TrieNode e ch) s =
     (case s of [] \<Rightarrow> e | c # cs \<Rightarrow> (case ch c of None \<Rightarrow> False | Some t \<Rightarrow> trie_search t cs))"
  by (cases s) auto

lemma trie_search_create [simp]: "\<not> trie_search trie_create_node s"
  by (cases s) (auto simp: trie_create_node_def)

lemma trie_search_insert:
  "trie_search (trie_insert t k) s \<longleftrightarrow> s = k \<or> trie_search t s"
  by (induction t k arbitrary: s rule: trie_insert.induct)
     (auto simp: trie_search_case Let_def split!: if_splits option.splits list.splits)

section \<open>Deletion\<close>

text \<open>
  \<open>frees t k\<close> is the helper's return value: at the node of \<open>k\<close> it means "no children", above
  it only "not the end of a name". \<open>lost t k s\<close> follows it: the node of \<open>s\<close> goes when one of
  the nodes that \<open>s\<close> shares with \<open>k\<close> is freed.
\<close>

definition frees :: "TrieNode option \<Rightarrow> string \<Rightarrow> bool" where
  "frees t k = snd (trie_delete_helper t k)"

definition opt_search :: "TrieNode option \<Rightarrow> string \<Rightarrow> bool" where
  "opt_search t s = (case t of None \<Rightarrow> False | Some t \<Rightarrow> trie_search t s)"

fun lost :: "TrieNode option \<Rightarrow> string \<Rightarrow> string \<Rightarrow> bool" where
  "lost None k s = False"
| "lost (Some (TrieNode e ch)) [] s = (s = [])"
| "lost (Some (TrieNode e ch)) (c # cs) [] = False"
| "lost (Some (TrieNode e ch)) (c # cs) (d # ds) = (c = d \<and> (frees (ch c) cs \<or> lost (ch c) cs ds))"

lemma opt_search_simps [simp]:
  "opt_search None s = False" "opt_search (Some (TrieNode e ch)) [] = e"
  "opt_search (Some (TrieNode e ch)) (c # cs) = opt_search (ch c) cs"
  by (auto simp: opt_search_def split: option.splits)

lemma frees_simps [simp]:
  "frees None k = False"
  "frees (Some (TrieNode e ch)) [] = (e \<and> \<not> has_children ch)"
  "frees (Some (TrieNode e ch)) (c # cs) = (frees (ch c) cs \<and> \<not> e)"
  by (auto simp: frees_def split: prod.splits bool.splits)

lemma opt_search_delete_helper:
  "opt_search (fst (trie_delete_helper t k)) s \<longleftrightarrow> opt_search t s \<and> \<not> lost t k s"
proof (induction t k arbitrary: s rule: trie_delete_helper.induct)
  case (3 e ch c cs)
  show ?case
  proof (cases s)
    case Nil
    then show ?thesis by (auto split: prod.splits bool.splits)
  next
    case (Cons d ds)
    then show ?thesis using 3 [of ds] frees_def [of "ch c" cs]
      by (auto split: prod.splits bool.splits)
  qed
next
  case (2 e ch)
  then show ?case by (cases s) auto
qed auto

lemma trie_search_delete_lost:
  "trie_search (trie_delete t k) s \<longleftrightarrow> trie_search t s \<and> \<not> lost (Some t) k s"
proof -
  have "\<exists>t'. fst (trie_delete_helper (Some t) k) = Some t'"
    by (cases t; cases k) (auto split: prod.splits bool.splits)
  then obtain t' where "fst (trie_delete_helper (Some t) k) = Some t'" by blast
  then show ?thesis
    using opt_search_delete_helper [of "Some t" k s] by (simp add: trie_delete_def opt_search_def)
qed

text \<open>The same in terms of the stored keys alone. \<open>leaf t k\<close>: no node lies below the one of \<open>k\<close>.\<close>

fun node_at :: "TrieNode option \<Rightarrow> string \<Rightarrow> TrieNode option" where
  "node_at t [] = t"
| "node_at None (c # cs) = None"
| "node_at (Some (TrieNode e ch)) (c # cs) = node_at (ch c) cs"

definition leaf :: "TrieNode \<Rightarrow> string \<Rightarrow> bool" where
  "leaf t k = (case node_at (Some t) k of None \<Rightarrow> False | Some n \<Rightarrow> \<not> has_children (children n))"

definition opt_leaf :: "TrieNode option \<Rightarrow> string \<Rightarrow> bool" where
  "opt_leaf t k = (case node_at t k of None \<Rightarrow> False | Some n \<Rightarrow> \<not> has_children (children n))"

lemma node_at_None [simp]: "node_at None k = None"
  by (cases k) auto

lemma opt_leaf_simps [simp]:
  "opt_leaf None k = False" "opt_leaf (Some (TrieNode e ch)) [] = (\<not> has_children ch)"
  "opt_leaf (Some (TrieNode e ch)) (c # cs) = opt_leaf (ch c) cs"
  by (auto simp: opt_leaf_def)

lemma frees_iff:
  "frees t k \<longleftrightarrow> opt_search t k \<and> opt_leaf t k \<and> (\<forall>j<length k. \<not> opt_search t (take j k))"
proof (induction t k rule: trie_delete_helper.induct)
  case (3 e ch c cs)
  have "(\<forall>j<Suc (length cs). \<not> opt_search (Some (TrieNode e ch)) (take j (c # cs))) \<longleftrightarrow>
      \<not> e \<and> (\<forall>j<length cs. \<not> opt_search (ch c) (take j cs))"
    by (auto simp: All_less_Suc2)
  then show ?case using 3 by auto
qed auto

text \<open>Every key behind \<open>take (Suc i) k\<close> is cut off with it.\<close>

definition cut_off :: "TrieNode \<Rightarrow> string \<Rightarrow> string \<Rightarrow> bool" where
  "cut_off t k s \<longleftrightarrow> trie_search t k \<and> leaf t k \<and>
     (\<exists>i<length k. i < length s \<and> take (Suc i) s = take (Suc i) k \<and>
        (\<forall>j. i < j \<longrightarrow> j < length k \<longrightarrow> \<not> trie_search t (take j k)))"

definition opt_cut_off :: "TrieNode option \<Rightarrow> string \<Rightarrow> string \<Rightarrow> bool" where
  "opt_cut_off t k s \<longleftrightarrow> opt_search t k \<and> opt_leaf t k \<and>
     (\<exists>i<length k. i < length s \<and> take (Suc i) s = take (Suc i) k \<and>
        (\<forall>j. i < j \<longrightarrow> j < length k \<longrightarrow> \<not> opt_search t (take j k)))"

lemma opt_cut_off_Cons:
  "opt_cut_off (Some (TrieNode e ch)) (c # cs) (d # ds) \<longleftrightarrow>
     c = d \<and> (frees (ch c) cs \<or> opt_cut_off (ch c) cs ds)"
proof -
  let ?t = "Some (TrieNode e ch)"
  have ex: "(\<exists>i<Suc n. P i) \<longleftrightarrow> P 0 \<or> (\<exists>i<n. P (Suc i))" for n and P :: "nat \<Rightarrow> bool"
    by (auto simp: Ex_less_Suc2)
  have all: "(\<forall>j. Suc i < j \<longrightarrow> j < Suc n \<longrightarrow> \<not> opt_search ?t (take j (c # cs))) \<longleftrightarrow>
      (\<forall>j. i < j \<longrightarrow> j < n \<longrightarrow> \<not> opt_search (ch c) (take j cs))" for i n
  proof (intro iffI allI impI)
    fix j assume *: "\<forall>j. Suc i < j \<longrightarrow> j < Suc n \<longrightarrow> \<not> opt_search ?t (take j (c # cs))" "i < j" "j < n"
    show "\<not> opt_search (ch c) (take j cs)" using *(1) [rule_format, of "Suc j"] *(2,3) by simp
  next
    fix j assume *: "\<forall>j. i < j \<longrightarrow> j < n \<longrightarrow> \<not> opt_search (ch c) (take j cs)" "Suc i < j" "j < Suc n"
    show "\<not> opt_search ?t (take j (c # cs))" using *(1) [rule_format, of "j - 1"] *(2,3)
      by (cases j) auto
  qed
  have all0: "(\<forall>j. 0 < j \<longrightarrow> j < Suc n \<longrightarrow> \<not> opt_search ?t (take j (c # cs))) \<longleftrightarrow>
      (\<forall>j<n. \<not> opt_search (ch c) (take j cs))" for n
  proof (intro iffI allI impI)
    fix j assume *: "\<forall>j. 0 < j \<longrightarrow> j < Suc n \<longrightarrow> \<not> opt_search ?t (take j (c # cs))" "j < n"
    show "\<not> opt_search (ch c) (take j cs)" using *(1) [rule_format, of "Suc j"] *(2) by simp
  next
    fix j assume *: "\<forall>j<n. \<not> opt_search (ch c) (take j cs)" "0 < j" "j < Suc n"
    show "\<not> opt_search ?t (take j (c # cs))" using *(1) [rule_format, of "j - 1"] *(2,3)
      by (cases j) auto
  qed
  show ?thesis
    unfolding opt_cut_off_def frees_iff length_Cons ex
    by (simp add: all all0 del: ex_simps all_simps) blast
qed

lemma lost_iff:
  "opt_search t s \<Longrightarrow> lost t k s \<longleftrightarrow> s = k \<or> opt_cut_off t k s"
proof (induction t k s rule: lost.induct)
  case (4 e ch c cs d ds)
  then show ?case using opt_cut_off_Cons [of e ch c cs d ds] by auto
qed (auto simp: opt_cut_off_def)

lemma trie_search_delete:
  "trie_search (trie_delete t k) s \<longleftrightarrow> trie_search t s \<and> s \<noteq> k \<and> \<not> cut_off t k s"
proof -
  have "opt_cut_off (Some t) k s = cut_off t k s"
    by (simp add: opt_cut_off_def cut_off_def opt_search_def opt_leaf_def leaf_def)
  then show ?thesis
    using lost_iff [of "Some t" s k] by (auto simp: trie_search_delete_lost opt_search_def)
qed

section \<open>The index interface\<close>

text \<open>
  What the name server relies on: an index that finds what was inserted, forgets what was
  deleted, and invents nothing. Keeping the other keys on deletion is not among the laws.
\<close>

locale name_index =
  fixes empty :: 't and ins :: "'t \<Rightarrow> string \<Rightarrow> 't" and del :: "'t \<Rightarrow> string \<Rightarrow> 't"
    and mem :: "'t \<Rightarrow> string \<Rightarrow> bool"
  assumes mem_empty: "\<not> mem empty s"
    and mem_ins: "mem (ins t k) s \<longleftrightarrow> s = k \<or> mem t s"
    and del_same: "\<not> mem (del t k) k"
    and del_subset: "mem (del t k) s \<Longrightarrow> mem t s"
begin

lemma mem_fold_ins: "mem (foldl ins t ks) s \<longleftrightarrow> s \<in> set ks \<or> mem t s"
  by (induction ks arbitrary: t) (auto simp: mem_ins)

lemma mem_build: "mem (foldl ins empty ks) s \<longleftrightarrow> s \<in> set ks"
  by (simp add: mem_fold_ins mem_empty)

lemma ins_idem: "mem t k \<Longrightarrow> mem (ins t k) s = mem t s"
  by (auto simp: mem_ins)

lemma covers_ins: "(\<forall>s\<in>A. mem t s) \<Longrightarrow> (\<forall>s\<in>insert k A. mem (ins t k) s)"
  by (auto simp: mem_ins)

lemma within_del: "(\<forall>s. mem t s \<longrightarrow> s \<in> A) \<Longrightarrow> (\<forall>s. mem (del t k) s \<longrightarrow> s \<in> A - {k})"
  using del_same del_subset by blast

end

interpretation trie: name_index trie_create_node trie_insert trie_delete trie_search
  by unfold_locales (auto simp: trie_search_insert trie_search_delete)

section \<open>Listing\<close>

primrec keys :: "TrieNode \<Rightarrow> string list" where
  "keys (TrieNode e ch) =
     (if e then [[]] else []) @
     concat (map (\<lambda>i. case map_option keys (ch (char_of i)) of
         None \<Rightarrow> [] | Some ks \<Rightarrow> map ((#) (char_of i)) ks) [0..<256::nat])"

lemma char_index: "\<exists>i<256. char_of (i :: nat) = c"
  by (rule exI [of _ "of_char c"]) (use of_char_mod_256 [of c, where 'a = nat] in \<open>simp; metis mod_less_divisor zero_less_numeral\<close>)

lemma set_keys: "s \<in> set (keys t) \<longleftrightarrow> trie_search t s"
proof (induction t arbitrary: s)
  case (TrieNode e ch)
  have IH: "s \<in> set (keys t) \<longleftrightarrow> trie_search t s" if "ch c = Some t" for c t s
    using TrieNode [of "ch c" t s] that by (auto simp: rangeI) (metis rangeI)+
  show ?case
  proof (cases s)
    case Nil
    then show ?thesis by (auto split: option.splits)
  next
    case (Cons c cs)
    obtain i where i: "i < (256::nat)" "char_of i = c" using char_index by blast
    let ?sub = "\<lambda>i::nat. case map_option keys (ch (char_of i)) of None \<Rightarrow> []
      | Some ks \<Rightarrow> map ((#) (char_of i)) ks"
    have sub: "s \<in> set (?sub j) \<longleftrightarrow> char_of j = c \<and> (\<exists>t. ch c = Some t \<and> cs \<in> set (keys t))" for j
      using Cons by (cases "ch (char_of j)") auto
    have "s \<in> set (keys (TrieNode e ch)) \<longleftrightarrow> (\<exists>j<256. s \<in> set (?sub j))"
      using Cons by (simp add: atLeast0LessThan Bex_def)
    also have "\<dots> \<longleftrightarrow> (\<exists>t. ch c = Some t \<and> cs \<in> set (keys t))"
      using i by (simp only: sub) blast
    finally have "s \<in> set (keys (TrieNode e ch)) \<longleftrightarrow> (\<exists>t. ch c = Some t \<and> cs \<in> set (keys t))" .
    then show ?thesis using Cons IH by (auto split: option.splits)
  qed
qed

lemma foldl_append:
  "(\<And>b i. i \<in> set xs \<Longrightarrow> step b i = b @ g i) \<Longrightarrow> foldl step b xs = b @ concat (map g xs)"
  by (induction xs arbitrary: b) auto

lemma get_all_keys:
  "(\<forall>k. trie_search t k \<longrightarrow> length prefix + length k < MAX_FILENAME_LEN) \<Longrightarrow>
     trie_get_all_recursive t prefix buffer =
       buffer @ concat (map (\<lambda>k. prefix @ k @ [CHR 0x0A]) (keys t))"
proof (induction t arbitrary: prefix buffer)
  case (TrieNode e ch)
  let ?line = "\<lambda>p k. p @ k @ [CHR 0x0A]"
  let ?g = "\<lambda>i::nat. case map_option keys (ch (char_of i)) of None \<Rightarrow> []
      | Some ks \<Rightarrow> concat (map (?line prefix) (map ((#) (char_of i)) ks))"
  let ?step = "\<lambda>buf i. case map_option trie_get_all_recursive (ch (char_of i)) of None \<Rightarrow> buf
      | Some below \<Rightarrow> below (take (MAX_FILENAME_LEN - 1) (prefix @ [char_of i])) buf"
  have step: "?step b i = b @ ?g i" for b i
  proof (cases "ch (char_of i)")
    case (Some t)
    let ?p = "take (MAX_FILENAME_LEN - 1) (prefix @ [char_of i])"
    have bound: "length prefix + Suc (length k) < MAX_FILENAME_LEN" if "trie_search t k" for k
      using TrieNode.prems [rule_format, of "char_of i # k"] that Some by simp
    have "\<forall>k. trie_search t k \<longrightarrow> length ?p + length k < MAX_FILENAME_LEN" using bound by fastforce
    then have "trie_get_all_recursive t ?p b = b @ concat (map (?line ?p) (keys t))"
      using TrieNode.IH [of "ch (char_of i)" t ?p b] Some by (metis option.set_intros rangeI)
    moreover have "map (?line ?p) (keys t) = map (?line prefix) (map ((#) (char_of i)) (keys t))"
    proof (cases "keys t")
      case (Cons k ks)
      then have "trie_search t k" using set_keys [of k t] by simp
      then have "?p = prefix @ [char_of i]" using bound by fastforce
      then show ?thesis by (simp only: map_map) simp
    qed simp
    ultimately show ?thesis using Some by (simp only: option.map option.case)
  qed simp
  have "concat (map ?g xs) = concat (map (?line prefix) (concat (map (\<lambda>i.
      case map_option keys (ch (char_of i)) of None \<Rightarrow> [] | Some ks \<Rightarrow> map ((#) (char_of i)) ks) xs)))"
    for xs
    by (induction xs) (auto split: option.splits)
  then show ?case
    using foldl_append [of "[0..<256]" ?step ?g "if e then buffer @ prefix @ [CHR 0x0A] else buffer"] step
    by simp
qed

section \<open>Properties\<close>

text \<open>Inserting a file name makes exactly that name found in addition: every other search
  answers as before.\<close>

theorem trie_insert_search:
  "trie_search (trie_insert t filename) s \<longleftrightarrow> s = filename \<or> trie_search t s"
  by (rule trie.mem_ins)

text \<open>What deletion removes, exactly. A stored key \<open>s\<close> stays found unless it is the deleted
  key, or the deleted key \<open>k\<close> was stored at a childless node and \<open>s\<close> goes through a node of its
  path with no stored key strictly between that node and \<open>k\<close> (those are freed with everything
  below them).\<close>

theorem trie_delete_exact:
  "trie_search (trie_delete t k) s \<longleftrightarrow> trie_search t s \<and> s \<noteq> k \<and>
     \<not> (trie_search t k \<and> leaf t k \<and>
        (\<exists>i<length k. i < length s \<and> take (Suc i) s = take (Suc i) k \<and>
           (\<forall>j. i < j \<longrightarrow> j < length k \<longrightarrow> \<not> trie_search t (take j k))))"
  by (rule trie_search_delete [unfolded cut_off_def])

theorem trie_delete_exact_witness:
  "trie_search (trie_delete (trie_insert (trie_insert (trie_insert trie_create_node ''ab'') ''ac'') ''d'') ''ab'') ''d'' \<and>
   \<not> trie_search (trie_delete (trie_insert (trie_insert (trie_insert trie_create_node ''ab'') ''ac'') ''d'') ''ab'') ''ac''"
proof -
  let ?t = "trie_insert (trie_insert (trie_insert trie_create_node ''ab'') ''ac'') ''d''"
  have t: "trie_search ?t s \<longleftrightarrow> s \<in> {''ab'', ''ac'', ''d''}" for s by (auto simp: trie_search_insert)
  have l: "leaf ?t ''ab''" by code_simp
  have "\<forall>j. 0 < j \<longrightarrow> j < length ''ab'' \<longrightarrow> \<not> trie_search ?t (take j ''ab'')"
    unfolding t by (auto simp: less_Suc_eq)
  then have "\<not> trie_search (trie_delete ?t ''ab'') ''ac''"
    using l unfolding trie_delete_exact t by (auto intro!: exI [of _ 0])
  moreover have "trie_search (trie_delete ?t ''ab'') ''d''"
    unfolding trie_delete_exact t by (auto simp: take_Suc_conv_app_nth less_Suc_eq)
  ultimately show ?thesis by blast
qed

text \<open>The index loses files nobody deleted: when a stored name whose node is childless and
  which has no stored proper prefix is deleted, every other name with the same first byte is no
  longer found.\<close>

theorem trie_delete_loses_siblings:
  assumes "trie_search t (c # cs)" and "leaf t (c # cs)"
    and "\<And>j. 0 < j \<Longrightarrow> j \<le> length cs \<Longrightarrow> \<not> trie_search t (take j (c # cs))"
  shows "\<not> trie_search (trie_delete t (c # cs)) (c # ds)"
proof -
  have "cut_off t (c # cs) (c # ds)"
    unfolding cut_off_def using assms by (auto intro!: exI [of _ 0])
  then show ?thesis by (simp add: trie_search_delete)
qed

theorem trie_delete_loses_siblings_witness:
  "let t = trie_insert (trie_insert trie_create_node ''ab'') ''ac''
   in trie_search t ''ac'' \<and> \<not> trie_search (trie_delete t ''ab'') ''ac''"
proof -
  let ?t = "trie_insert (trie_insert trie_create_node ''ab'') ''ac''"
  have t: "trie_search ?t ''ab''" "trie_search ?t ''ac''" by (simp_all add: trie_search_insert)
  have l: "leaf ?t ''ab''" by code_simp
  have p: "\<And>j. 0 < j \<Longrightarrow> j \<le> length ''b'' \<Longrightarrow> \<not> trie_search ?t (take j ''ab'')"
    by (auto simp: trie_search_insert le_Suc_eq)
  show ?thesis using trie_delete_loses_siblings [OF t(1) l p, of "''c''"] t(2) by simp
qed

text \<open>The listing helper appends one line per stored name: with names shorter than
  \<open>MAX_FILENAME_LEN\<close> nothing is cut, every stored name is listed and nothing else is.\<close>

theorem trie_listing:
  assumes "\<And>k. trie_search t k \<Longrightarrow> length k < MAX_FILENAME_LEN"
  shows "\<exists>ks. trie_get_all_recursive t [] buffer = buffer @ concat (map (\<lambda>k. k @ [CHR 0x0A]) ks) \<and>
    set ks = {k. trie_search t k}"
  using get_all_keys [of t "[]" buffer] assms set_keys [of _ t]
  by (intro exI [of _ "keys t"]) auto

theorem trie_listing_witness:
  "\<exists>ks. trie_get_all_recursive (trie_insert (trie_insert trie_create_node ''b'') ''a'') [] [] =
     concat (map (\<lambda>k. k @ [CHR 0x0A]) ks) \<and> set ks = {''a'', ''b''}"
proof -
  let ?t = "trie_insert (trie_insert trie_create_node ''b'') ''a''"
  have "\<And>k. trie_search ?t k \<Longrightarrow> length k < MAX_FILENAME_LEN" by (auto simp: trie_search_insert)
  moreover have "{k. trie_search ?t k} = {''a'', ''b''}" by (auto simp: trie_search_insert)
  ultimately show ?thesis using trie_listing [of ?t "[]"] by simp
qed

end
