(* ===== verification/Name_Server.thy ===== *)
theory Name_Server
  imports Hash_Table Tries Undo_Handler
begin

text \<open>
  The state of the name server (\<^verbatim>\<open>include/name_server.h\<close>) and the operations on its lists:
  connected clients and storage servers, the registered users, the choice of a storage server
  for a new file and the permission check (\<^verbatim>\<open>src/name_server/client_handler.c\<close>,
  \<^verbatim>\<open>ss_handler.c\<close>), each of which the code runs under one mutex.

  \<open>conn_list\<close> is the contract the two connection lists share.
\<close>

section \<open>The state\<close>

record StorageServerInfo =
  si_socket :: c_int
  si_ip :: string
  si_client_port :: c_int

record ClientInfo =
  ci_socket :: c_int
  ci_username :: string

record UserNode =
  us_username :: string

text \<open>\<open>nm_fs\<close> is the name server's disk; its search cache has no state (the functions of
  \<open>LRUCache\<close> are stubs).\<close>

record NameServer =
  nm_file_table :: HashTable
  nm_file_trie :: TrieNode
  nm_client_list :: "ClientInfo list"
  nm_ss_list :: "StorageServerInfo list"
  nm_all_users :: "UserNode list"
  nm_next_ss_index :: c_int
  nm_fs :: FileSystem

definition NM_FILES_FILE :: string where "NM_FILES_FILE = ''data/name_server/files.meta''"
definition NM_USERS_FILE :: string where "NM_USERS_FILE = ''data/name_server/users.meta''"

section \<open>Clients and storage servers\<close>

definition add_client :: "NameServer \<Rightarrow> c_int \<Rightarrow> string \<Rightarrow> NameServer option" where
  "add_client nm sock username =
     map_option (\<lambda>u. nm\<lparr>nm_client_list := \<lparr>ci_socket = sock, ci_username = u\<rparr> # nm_client_list nm\<rparr>)
       (strncpy_raw (MAX_USERNAME_LEN - 1) username)"

definition remove_client :: "NameServer \<Rightarrow> c_int \<Rightarrow> NameServer" where
  "remove_client nm sock =
     nm\<lparr>nm_client_list := remove_first (\<lambda>curr. ci_socket curr = sock) (nm_client_list nm)\<rparr>"

definition add_ss :: "NameServer \<Rightarrow> c_int \<Rightarrow> string \<Rightarrow> c_int \<Rightarrow> NameServer option" where
  "add_ss nm sock ip client_port =
     map_option (\<lambda>a. nm\<lparr>nm_ss_list := \<lparr>si_socket = sock, si_ip = a, si_client_port = client_port\<rparr> # nm_ss_list nm\<rparr>)
       (strncpy_raw (MAX_IP_LEN - 1) ip)"

definition remove_ss :: "NameServer \<Rightarrow> c_int \<Rightarrow> NameServer" where
  "remove_ss nm sock =
     nm\<lparr>nm_ss_list := remove_first (\<lambda>curr. si_socket curr = sock) (nm_ss_list nm)\<rparr>"

text \<open>The search loop of the handlers: the first server at the address of a file.\<close>

definition find_ss :: "NameServer \<Rightarrow> FileMetadata \<Rightarrow> StorageServerInfo option" where
  "find_ss nm meta =
     List.find (\<lambda>ss. si_ip ss = fm_ss_ip meta \<and> si_client_port ss = fm_ss_client_port meta) (nm_ss_list nm)"

definition get_ss_for_new_file :: "NameServer \<Rightarrow> NameServer \<times> StorageServerInfo option" where
  "get_ss_for_new_file nm =
     (if nm_ss_list nm = [] then (nm, None)
      else
        let count = int (length (nm_ss_list nm));
            index = (if nm_next_ss_index nm \<ge> count then 0 else nm_next_ss_index nm)
        in (nm\<lparr>nm_next_ss_index := index + 1\<rparr>, Some (nm_ss_list nm ! nat index)))"

section \<open>Users\<close>

definition render_users :: "UserNode list \<Rightarrow> string" where
  "render_users us = concat (map (\<lambda>u. us_username u @ [CHR 0x0A]) us)"

definition nm_save_users :: "NameServer \<Rightarrow> NameServer" where
  "nm_save_users nm =
     (if \<not> fs_writable (nm_fs nm) NM_USERS_FILE then nm
      else nm\<lparr>nm_fs := fs_write (nm_fs nm) NM_USERS_FILE (render_users (nm_all_users nm))\<rparr>)"

definition nm_register_persistent_user :: "NameServer \<Rightarrow> string \<Rightarrow> NameServer option" where
  "nm_register_persistent_user nm username =
     (if list_ex (\<lambda>curr. us_username curr = username) (nm_all_users nm) then Some nm
      else map_option (\<lambda>u. nm_save_users (nm\<lparr>nm_all_users := \<lparr>us_username = u\<rparr> # nm_all_users nm\<rparr>))
             (strncpy_raw (MAX_USERNAME_LEN - 1) username))"

section \<open>Permissions\<close>

definition check_access :: "FileMetadata \<Rightarrow> string \<Rightarrow> char \<Rightarrow> bool" where
  "check_access metadata username required_perm =
     (if fm_owner metadata = username then True
      else
        let perm = get_access (fm_access_list metadata) username
        in if required_perm = CHR ''R'' \<and> (perm = CHR ''R'' \<or> perm = CHR ''W'') then True
           else if required_perm = CHR ''W'' \<and> perm = CHR ''W'' then True
           else False)"

lemma check_access_owner [simp]: "fm_owner m = u \<Longrightarrow> check_access m u p"
  by (simp add: check_access_def)

lemma check_access_write_read: "check_access m u (CHR ''W'') \<Longrightarrow> check_access m u (CHR ''R'')"
  by (auto simp: check_access_def Let_def split: if_splits)

section \<open>The contract of a connection list\<close>

locale conn_list =
  fixes conns :: "'s \<Rightarrow> 'c list" and sock_of :: "'c \<Rightarrow> c_int"
    and connect :: "'s \<Rightarrow> c_int \<Rightarrow> 'a \<Rightarrow> 's option" and disconnect :: "'s \<Rightarrow> c_int \<Rightarrow> 's"
  assumes connect_conns: "connect s k a = Some s' \<Longrightarrow> \<exists>c. sock_of c = k \<and> conns s' = c # conns s"
    and disconnect_conns: "conns (disconnect s k) = remove_first (\<lambda>c. sock_of c = k) (conns s)"
begin

text \<open>As long as the system hands out sockets that are not in use, a socket is listed once, and a
  disconnect takes exactly its own connection out.\<close>

lemma distinct_connect:
  "distinct (map sock_of (conns s)) \<Longrightarrow> k \<notin> sock_of ` set (conns s) \<Longrightarrow> connect s k a = Some s' \<Longrightarrow>
     distinct (map sock_of (conns s'))"
  using connect_conns [of s k a s'] by auto

lemma distinct_disconnect:
  "distinct (map sock_of (conns s)) \<Longrightarrow> distinct (map sock_of (conns (disconnect s k)))"
  by (simp add: disconnect_conns)

lemma socks_disconnect:
  "distinct (map sock_of (conns s)) \<Longrightarrow> sock_of ` set (conns (disconnect s k)) = sock_of ` set (conns s) - {k}"
  by (simp add: disconnect_conns image_remove_first)

lemma connect_disconnect: "connect s k a = Some s' \<Longrightarrow> conns (disconnect s' k) = conns s"
  using connect_conns [of s k a s'] by (auto simp: disconnect_conns)

end

interpretation clients: conn_list nm_client_list ci_socket add_client remove_client
  by unfold_locales (auto simp: add_client_def remove_client_def)

interpretation servers: conn_list nm_ss_list si_socket "\<lambda>nm sock (ip, port). add_ss nm sock ip port" remove_ss
  by unfold_locales (auto simp: add_ss_def remove_ss_def)

section \<open>Round robin\<close>

text \<open>The servers chosen for the next \<open>k\<close> files while the list of servers stays as it is.\<close>

fun assign_files :: "nat \<Rightarrow> NameServer \<Rightarrow> NameServer \<times> StorageServerInfo option list" where
  "assign_files 0 nm = (nm, [])"
| "assign_files (Suc k) nm =
     (case get_ss_for_new_file nm of (nm', ss) \<Rightarrow>
        (case assign_files k nm' of (nm'', sss) \<Rightarrow> (nm'', ss # sss)))"

definition first_index :: "NameServer \<Rightarrow> nat" where
  "first_index nm = (if nm_next_ss_index nm \<ge> int (length (nm_ss_list nm)) then 0 else nat (nm_next_ss_index nm))"

lemma get_ss_for_new_file_step:
  assumes "nm_ss_list nm \<noteq> []" "0 \<le> nm_next_ss_index nm"
  shows "\<exists>nm'. get_ss_for_new_file nm = (nm', Some (nm_ss_list nm ! first_index nm)) \<and>
    nm_ss_list nm' = nm_ss_list nm \<and> 0 \<le> nm_next_ss_index nm' \<and> first_index nm < length (nm_ss_list nm) \<and>
    first_index nm' = Suc (first_index nm) mod length (nm_ss_list nm)"
proof -
  let ?n = "length (nm_ss_list nm)"
  have lt: "first_index nm < ?n" using assms by (auto simp: first_index_def)
  have "get_ss_for_new_file nm = (nm\<lparr>nm_next_ss_index := int (first_index nm) + 1\<rparr>, Some (nm_ss_list nm ! first_index nm))"
    using assms by (simp add: get_ss_for_new_file_def first_index_def Let_def)
  moreover have "first_index (nm\<lparr>nm_next_ss_index := int (first_index nm) + 1\<rparr>) = Suc (first_index nm) mod ?n"
    using lt by (cases "Suc (first_index nm) = ?n") (auto simp: first_index_def [of "nm\<lparr>nm_next_ss_index := a\<rparr>" for a] nat_add_distrib)
  ultimately show ?thesis using lt by simp
qed

lemma assign_files_eq:
  assumes "nm_ss_list nm \<noteq> []" "0 \<le> nm_next_ss_index nm"
  shows "snd (assign_files k nm) =
    map (\<lambda>j. Some (nm_ss_list nm ! ((first_index nm + j) mod length (nm_ss_list nm)))) [0..<k]"
  using assms
proof (induction k arbitrary: nm)
  case (Suc k)
  let ?n = "length (nm_ss_list nm)"
  obtain nm' where nm': "get_ss_for_new_file nm = (nm', Some (nm_ss_list nm ! first_index nm))"
    "nm_ss_list nm' = nm_ss_list nm" "0 \<le> nm_next_ss_index nm'" "first_index nm < ?n"
    "first_index nm' = Suc (first_index nm) mod ?n"
    using get_ss_for_new_file_step [OF Suc.prems] by blast
  have "snd (assign_files k nm') = map (\<lambda>j. Some (nm_ss_list nm ! ((Suc (first_index nm) mod ?n + j) mod ?n))) [0..<k]"
    using Suc.IH [of nm'] nm' Suc.prems by simp
  also have "\<dots> = map (\<lambda>j. Some (nm_ss_list nm ! ((first_index nm + Suc j) mod ?n))) [0..<k]"
    by (simp add: mod_add_left_eq)
  finally show ?case
    using nm'(1,4) by (cases "assign_files k nm'") (simp add: map_upt_Suc del: upt_Suc)
qed simp

section \<open>Properties\<close>

text \<open>New files go round the connected storage servers in turn: of any \<open>k\<close> successive choices
  with the same servers connected, the \<open>j\<close>-th is the server at position \<open>start + j\<close> modulo their
  number, so every server is chosen once in each round.\<close>

theorem round_robin:
  assumes "nm_ss_list nm \<noteq> []" "0 \<le> nm_next_ss_index nm"
  shows "snd (assign_files k nm) =
    map (\<lambda>j. Some (nm_ss_list nm ! ((first_index nm + j) mod length (nm_ss_list nm)))) [0..<k]"
  by (rule assign_files_eq [OF assms])

theorem round_robin_witness:
  "map (map_option si_client_port) (snd (assign_files 4
     \<lparr>nm_file_table = ht_create, nm_file_trie = trie_create_node, nm_client_list = [],
      nm_ss_list = [\<lparr>si_socket = 5, si_ip = ''a'', si_client_port = 9001\<rparr>,
        \<lparr>si_socket = 4, si_ip = ''a'', si_client_port = 9002\<rparr>, \<lparr>si_socket = 3, si_ip = ''b'', si_client_port = 9003\<rparr>],
      nm_all_users = [], nm_next_ss_index = 1, nm_fs = \<lparr>fs_files = Map.empty, fs_writable = (\<lambda>_. True)\<rparr>\<rparr>)) =
   [Some 9002, Some 9003, Some 9001, Some 9002]"
  by (subst round_robin) (simp_all add: first_index_def upt_rec)

text \<open>The permission check grants everything to the owner, writing to users with \<open>W\<close>, reading
  to users with \<open>R\<close> or \<open>W\<close>, and nothing else to anyone; a user who may write may read.\<close>

theorem check_access_rule:
  "check_access m u (CHR ''W'') = (fm_owner m = u \<or> get_access (fm_access_list m) u = CHR ''W'') \<and>
   check_access m u (CHR ''R'') = (fm_owner m = u \<or> get_access (fm_access_list m) u \<in> {CHR ''R'', CHR ''W''}) \<and>
   (check_access m u (CHR ''W'') \<longrightarrow> check_access m u (CHR ''R''))"
  by (auto simp: check_access_def Let_def)

theorem check_access_rule_witness:
  "check_access \<lparr>fm_filename = ''f'', fm_owner = ''bob'', fm_access_list = [\<lparr>an_username = ''al'', an_permission = CHR ''W''\<rparr>],
     fm_ss_ip = [], fm_ss_client_port = 0, fm_size = 0, fm_word_count = 0, fm_char_count = 0, fm_created_at = 0,
     fm_last_modified = 0, fm_last_accessed = 0\<rparr> ''al'' (CHR ''R'')"
  using check_access_rule [of "\<lparr>fm_filename = ''f'', fm_owner = ''bob'',
     fm_access_list = [\<lparr>an_username = ''al'', an_permission = CHR ''W''\<rparr>],
     fm_ss_ip = [], fm_ss_client_port = 0, fm_size = 0, fm_word_count = 0, fm_char_count = 0, fm_created_at = 0,
     fm_last_modified = 0, fm_last_accessed = 0\<rparr>" "''al''"]
  by (simp add: get_access_def)

end
