(* ===== verification/NM_Persistence.thy ===== *)
theory NM_Persistence
  imports Name_Server "HOL-Library.Multiset"
begin

text \<open>
  The name server's state on disk (\<^verbatim>\<open>src/name_server/persistence.c\<close>): one line per file,
  \<open>filename|owner|ss_ip|ss_port|user,perm;...|size|words|chars|mod_time\<close>, and one line per
  user. \<open>clock k\<close> is what the \<open>k\<close>-th call of \<^verbatim>\<open>time(NULL)\<close> returns.

  The lemmas follow one record through \<open>fprintf\<close>, \<open>fgets\<close>, \<open>strtok_r\<close> and \<open>atol\<close>; the
  theorem puts a whole table back together from its file.
\<close>

section \<open>Saving\<close>

definition render_access :: "AccessNode list \<Rightarrow> string" where
  "render_access l = concat (map (\<lambda>anode. an_username anode @ '','' @ [an_permission anode] @ '';'') l)"

definition render_file :: "FileMetadata \<Rightarrow> string" where
  "render_file meta =
     fm_filename meta @ ''|'' @ fm_owner meta @ ''|'' @ fm_ss_ip meta @ ''|'' @
     show_int (fm_ss_client_port meta) @ ''|'' @
     render_access (fm_access_list meta) @
     ''|'' @ show_int (fm_size meta) @ ''|'' @ show_int (fm_word_count meta) @ ''|'' @
     show_int (fm_char_count meta) @ ''|'' @ show_int (fm_last_modified meta) @ [CHR 0x0A]"

definition nm_save_files :: "NameServer \<Rightarrow> NameServer" where
  "nm_save_files nm =
     (if \<not> fs_writable (nm_fs nm) NM_FILES_FILE then nm
      else nm\<lparr>nm_fs := fs_write (nm_fs nm) NM_FILES_FILE
             (concat (map render_file (ht_files (nm_file_table nm))))\<rparr>)"

section \<open>Loading\<close>

text \<open>The lines a loop \<open>while (fgets(line, n, f))\<close> sees: up to and with the next newline, at most
  \<open>n - 1\<close> bytes.\<close>

definition line_of :: "nat \<Rightarrow> string \<Rightarrow> string" where
  "line_of n s =
     (let l = takeWhile (\<lambda>c. c \<noteq> CHR 0x0A) s
      in take (n - 1) (l @ take 1 (drop (length l) s)))"

function fgets_lines :: "nat \<Rightarrow> string \<Rightarrow> string list" where
  "fgets_lines n s =
     (if s = [] \<or> n < 2 then [] else line_of n s # fgets_lines n (drop (length (line_of n s)) s))"
  by pat_completeness auto
termination
proof (relation "measure (\<lambda>(n, s). length s)", goal_cases)
  case (2 n s)
  then have "0 < length (line_of n s)" by (cases s) (auto simp: line_of_def Let_def)
  then show ?case using 2 by simp
qed simp

declare fgets_lines.simps [simp del]

text \<open>The pairs of the access field; what is no pair is skipped.\<close>

fun load_access :: "AccessNode list \<Rightarrow> string list \<Rightarrow> AccessNode list option" where
  "load_access l [] = Some l"
| "load_access l (p # ps) =
     (let pair = split_string '','' p
      in if length pair = 2
         then (case add_access l (pair ! 0) (hd (pair ! 1)) of None \<Rightarrow> None | Some l' \<Rightarrow> load_access l' ps)
         else load_access l ps)"

text \<open>The metadata of one line, or nothing for a line of fewer than nine fields.\<close>

definition load_file :: "(nat \<Rightarrow> c_long) \<Rightarrow> nat \<Rightarrow> string \<Rightarrow> FileMetadata option option" where
  "load_file clock k line =
     (let parts = split_string ''|'' (trim_newline (cstr line))
      in if length parts < 9 then Some None
         else
           let owner = strncpy_zeroed (MAX_USERNAME_LEN - 1) (parts ! 1)
           in case add_access [] owner (CHR ''W'') of
                None \<Rightarrow> None
              | Some acl \<Rightarrow>
                  (case load_access acl (split_string '';'' (parts ! 4)) of
                     None \<Rightarrow> None
                   | Some acl' \<Rightarrow> Some (Some
                       \<lparr>fm_filename = strncpy_zeroed (MAX_FILENAME_LEN - 1) (parts ! 0),
                        fm_owner = owner, fm_access_list = acl',
                        fm_ss_ip = strncpy_zeroed (MAX_IP_LEN - 1) (parts ! 2),
                        fm_ss_client_port = atoi (parts ! 3), fm_size = atol (parts ! 5),
                        fm_word_count = atoi (parts ! 6), fm_char_count = atoi (parts ! 7),
                        fm_created_at = clock k, fm_last_modified = atol (parts ! 8),
                        fm_last_accessed = clock (k + 1)\<rparr>)))"

fun load_lines :: "(nat \<Rightarrow> c_long) \<Rightarrow> nat \<Rightarrow> NameServer \<Rightarrow> string list \<Rightarrow> NameServer option" where
  "load_lines clock k nm [] = Some nm"
| "load_lines clock k nm (l # ls) =
     (case load_file clock k l of
        None \<Rightarrow> None
      | Some None \<Rightarrow> load_lines clock k nm ls
      | Some (Some meta) \<Rightarrow>
          load_lines clock (k + 2)
            (nm\<lparr>nm_file_table := fst (ht_insert (nm_file_table nm) meta),
                nm_file_trie := trie_insert (nm_file_trie nm) (fm_filename meta)\<rparr>) ls)"

definition nm_load_files :: "(nat \<Rightarrow> c_long) \<Rightarrow> NameServer \<Rightarrow> NameServer option" where
  "nm_load_files clock nm =
     (case fs_files (nm_fs nm) NM_FILES_FILE of
        None \<Rightarrow> Some nm
      | Some bytes \<Rightarrow> load_lines clock 0 nm (fgets_lines BUFFER_SIZE bytes))"

fun load_users :: "UserNode list \<Rightarrow> string list \<Rightarrow> UserNode list option" where
  "load_users us [] = Some us"
| "load_users us (l # ls) =
     (let user_line = trim_newline (cstr l)
      in if 0 < length user_line
         then (case strncpy_raw (MAX_USERNAME_LEN - 1) user_line of
                 None \<Rightarrow> None
               | Some u \<Rightarrow> load_users (\<lparr>us_username = u\<rparr> # us) ls)
         else load_users us ls)"

definition nm_load_users :: "NameServer \<Rightarrow> NameServer option" where
  "nm_load_users nm =
     (case fs_files (nm_fs nm) NM_USERS_FILE of
        None \<Rightarrow> Some nm
      | Some bytes \<Rightarrow>
          map_option (\<lambda>us. nm\<lparr>nm_all_users := us\<rparr>)
            (load_users (nm_all_users nm) (fgets_lines BUFFER_SIZE bytes)))"

text \<open>The state \<open>nm_create\<close> builds before it opens the listener.\<close>

definition nm_create :: "(nat \<Rightarrow> c_long) \<Rightarrow> FileSystem \<Rightarrow> NameServer option" where
  "nm_create clock fs =
     (case nm_load_files clock
        \<lparr>nm_file_table = ht_create, nm_file_trie = trie_create_node, nm_client_list = [], nm_ss_list = [],
         nm_all_users = [], nm_next_ss_index = 0, nm_fs = fs\<rparr> of
        None \<Rightarrow> None
      | Some nm \<Rightarrow> nm_load_users nm)"

section \<open>Lines\<close>

lemma line_of_newline:
  "CHR 0x0A \<notin> set b \<Longrightarrow> Suc (length b) < n \<Longrightarrow> line_of n (b @ CHR 0x0A # s) = b @ [CHR 0x0A]"
proof -
  assume b: "CHR 0x0A \<notin> set b" "Suc (length b) < n"
  then have "takeWhile (\<lambda>c. c \<noteq> CHR 0x0A) (b @ CHR 0x0A # s) = b"
    by (intro takeWhile_append_stop) auto
  then show ?thesis using b(2) by (simp add: line_of_def Let_def)
qed

lemma fgets_lines_Nil [simp]: "fgets_lines n [] = []"
  by (simp add: fgets_lines.simps)

lemma fgets_lines_concat:
  "(\<forall>l\<in>set ls. \<exists>b. l = b @ [CHR 0x0A] \<and> CHR 0x0A \<notin> set b \<and> length l < n) \<Longrightarrow>
     fgets_lines n (concat ls) = ls"
proof (induction ls)
  case (Cons l ls)
  then obtain b where b: "l = b @ [CHR 0x0A]" "CHR 0x0A \<notin> set b" "length l < n" by auto
  have "line_of n (concat (l # ls)) = l" using line_of_newline [of b n "concat ls"] b by simp
  then show ?case using Cons b by (subst fgets_lines.simps) simp
qed simp

section \<open>One record there and back\<close>

text \<open>What a name must be to survive: non-empty, and free of the separators of the format.\<close>

definition field_ok :: "string \<Rightarrow> bool" where
  "field_ok s \<longleftrightarrow> s \<noteq> [] \<and> set s \<inter> {CHR ''|'', CHR 0x0A, CHR 0x0D, CHR 0x00} = {}"

definition node_ok :: "AccessNode \<Rightarrow> bool" where
  "node_ok n \<longleftrightarrow> field_ok (an_username n) \<and> set (an_username n) \<inter> {CHR '','', CHR '';''} = {} \<and>
     an_permission n \<in> {CHR ''R'', CHR ''W''}"

definition record_ok :: "FileMetadata \<Rightarrow> bool" where
  "record_ok m \<longleftrightarrow>
     field_ok (fm_filename m) \<and> length (fm_filename m) < MAX_FILENAME_LEN \<and>
     field_ok (fm_owner m) \<and> length (fm_owner m) < MAX_USERNAME_LEN - 1 \<and>
     field_ok (fm_ss_ip m) \<and> length (fm_ss_ip m) < MAX_IP_LEN \<and>
     is_int32 (fm_ss_client_port m) \<and> is_int64 (fm_size m) \<and> is_int32 (fm_word_count m) \<and>
     is_int32 (fm_char_count m) \<and> is_int64 (fm_last_modified m) \<and>
     fm_access_list m \<noteq> [] \<and> access_inv (fm_access_list m) \<and> (\<forall>n\<in>set (fm_access_list m). node_ok n) \<and>
     length (render_file m) < BUFFER_SIZE"

text \<open>The same record up to the two times that are reset and the order of the access list, in
  which the owner always has an entry.\<close>

definition same_record :: "FileMetadata \<Rightarrow> FileMetadata \<Rightarrow> bool" where
  "same_record m m' \<longleftrightarrow>
     fm_filename m' = fm_filename m \<and> fm_owner m' = fm_owner m \<and> fm_ss_ip m' = fm_ss_ip m \<and>
     fm_ss_client_port m' = fm_ss_client_port m \<and> fm_size m' = fm_size m \<and>
     fm_word_count m' = fm_word_count m \<and> fm_char_count m' = fm_char_count m \<and>
     fm_last_modified m' = fm_last_modified m \<and>
     (\<forall>u. get_access (fm_access_list m') u =
        (if get_access (fm_access_list m) u = CHR 0x00 \<and> u = fm_owner m then CHR ''W''
         else get_access (fm_access_list m) u))"

lemma same_record_access: "same_record m m' \<Longrightarrow> check_access m' u p = check_access m u p"
  by (auto simp: same_record_def check_access_def Let_def)

text \<open>A record read back from its line: also, its access list holds the same entries, if the owner has one.\<close>

definition owner_listed :: "FileMetadata \<Rightarrow> bool" where
  "owner_listed m \<longleftrightarrow> fm_owner m \<in> an_username ` set (fm_access_list m)"

definition reloaded :: "FileMetadata \<Rightarrow> FileMetadata \<Rightarrow> bool" where
  "reloaded m m' \<longleftrightarrow> same_record m m' \<and> access_inv (fm_access_list m') \<and>
     (owner_listed m \<longrightarrow> mset (fm_access_list m') = mset (fm_access_list m))"

definition access_token :: "AccessNode \<Rightarrow> string" where
  "access_token n = an_username n @ CHR '','' # [an_permission n]"

lemma render_access_tokens: "render_access l = concat (map (\<lambda>t. t @ '';'') (map access_token l))"
  by (simp add: render_access_def access_token_def comp_def)

lemma split_render_access:
  assumes "\<forall>n\<in>set l. node_ok n"
  shows "split_string '';'' (render_access l) = map access_token l"
proof -
  have "t \<noteq> [] \<and> set t \<inter> set '';'' = {}" if "t \<in> set (map access_token l)" for t
    using that assms by (auto simp: access_token_def node_ok_def)
  then show ?thesis unfolding render_access_tokens by (intro split_string_concat) simp_all
qed

lemma split_access_token: "node_ok n \<Longrightarrow> split_string '','' (access_token n) = [an_username n, [an_permission n]]"
  unfolding access_token_def
  by (subst split_string_field) (auto simp: node_ok_def field_ok_def split_string_last)

lemma load_access_grants:
  "\<forall>n\<in>set ns. node_ok n \<Longrightarrow>
     load_access l (map access_token ns) =
       grant_all add_access l (map (\<lambda>n. (an_username n, an_permission n)) ns)"
proof (induction ns arbitrary: l)
  case (Cons n ns)
  then have "split_string '','' (access_token n) = [an_username n, [an_permission n]]"
    by (intro split_access_token) simp
  then show ?case using Cons by (simp add: Let_def split: option.split)
qed simp

lemma grant_all_short:
  "\<forall>g\<in>set gs. length (fst g) < MAX_USERNAME_LEN - 1 \<Longrightarrow> \<exists>l'. grant_all add_access l gs = Some l'"
proof (induction gs arbitrary: l)
  case (Cons g gs)
  obtain u p where g: "g = (u, p)" by (cases g)
  have "add_access l u p \<noteq> None" using Cons.prems g by (simp add: add_access_None_iff)
  then show ?case using Cons g by fastforce
qed simp

lemma get_access_map_of:
  "get_access l u = (case map_of (map (\<lambda>n. (an_username n, an_permission n)) l) u of Some p \<Rightarrow> p | None \<Rightarrow> CHR 0x00)"
  by (induction l) (auto simp: get_access_def)

lemma mset_loaded_access:
  assumes "access_inv l" "owner \<in> an_username ` set l" "add_access [] owner (CHR ''W'') = Some acl"
    and "grant_all add_access acl (grants l) = Some acl'"
  shows "mset acl' = mset l"
proof -
  have inv: "access_inv acl" using acl.inv_grant [OF acl.inv_empty assms(3)] .
  have acl: "set (grants acl) = {(owner, CHR ''W'')}"
    using add_access_set [OF acl.inv_empty assms(3)] by (simp add: grants_def)
  have "distinct (map fst (grants l))" using assms(1) by (simp add: access_inv_def)
  then have "set (grants acl') = set (grants l)"
    using grant_all_set [OF inv _ assms(4)] assms(2) unfolding acl users_grants by auto
  then have "set acl' = set l" by (rule grants_inj)
  moreover have "distinct (map an_username acl')" "distinct (map an_username l)"
    using acl.inv_grant_all [OF inv assms(4)] assms(1) by (simp_all add: access_inv_def)
  ultimately show ?thesis by (simp add: set_eq_iff_mset_eq_distinct distinct_map)
qed

lemma load_access_same:
  assumes "access_inv l" "\<forall>n\<in>set l. node_ok n" "length owner < MAX_USERNAME_LEN - 1"
  shows "\<exists>acl acl'. add_access [] owner (CHR ''W'') = Some acl \<and> load_access acl (map access_token l) = Some acl' \<and>
    access_inv acl' \<and> (owner \<in> an_username ` set l \<longrightarrow> mset acl' = mset l) \<and>
    (\<forall>u. get_access acl' u = (if get_access l u = CHR 0x00 \<and> u = owner then CHR ''W'' else get_access l u))"
proof -
  let ?gs = "map (\<lambda>n. (an_username n, an_permission n)) l"
  have "add_access [] owner (CHR ''W'') \<noteq> None" using assms(3) by (simp add: add_access_None_iff)
  then obtain acl where acl: "add_access [] owner (CHR ''W'') = Some acl" by auto
  have short: "\<forall>g\<in>set ?gs. length (fst g) < MAX_USERNAME_LEN - 1"
    using assms(1) by (simp add: access_inv_def)
  obtain acl' where acl': "grant_all add_access acl ?gs = Some acl'" using grant_all_short [OF short] by blast
  have inv: "access_inv acl'" using acl.inv_grant_all acl.inv_grant acl.inv_empty acl acl' by blast
  have "distinct (map fst ?gs)" using assms(1) by (simp add: access_inv_def comp_def)
  then have "map_of (rev ?gs) = map_of ?gs"
    by (subst map_of_inject_set) (simp_all add: rev_map [symmetric] del: map_map)
  then have rev: "map_of (rev ?gs) u = map_of ?gs u" for u by simp
  have "map_of ?gs u = None \<longleftrightarrow> get_access l u = CHR 0x00" for u
  proof -
    have "map_of ?gs u = Some p \<Longrightarrow> p \<noteq> CHR 0x00" for p
      using map_of_SomeD [of ?gs u p] assms(2) by (auto simp: node_ok_def)
    then show ?thesis by (auto simp: get_access_map_of split: option.splits)
  qed
  note none = this
  have "get_access acl' u = (if get_access l u = CHR 0x00 \<and> u = owner then CHR ''W'' else get_access l u)" for u
  proof (cases "map_of ?gs u")
    case None
    then have "get_access acl' u = (if u = owner then CHR ''W'' else CHR 0x00)"
      using acl.get_grant_all [OF acl', of u] acl.get_grant [OF acl, of u] rev [of u] acl.get_empty [of u] by simp
    then show ?thesis using none [of u] None by simp
  next
    case (Some p)
    then have "get_access acl' u = p" "get_access l u = p"
      using acl.get_grant_all [OF acl', of u] rev [of u] by (simp_all add: get_access_map_of [of l])
    then show ?thesis using none [of u] Some by simp
  qed
  moreover have "mset acl' = mset l" if "owner \<in> an_username ` set l"
    using mset_loaded_access [OF assms(1) that acl] acl' by (simp add: grants_def)
  ultimately show ?thesis using acl acl' inv load_access_grants [OF assms(2)] by auto
qed

lemma field_ok_show_int [simp]: "field_ok (show_int n)"
  using show_int_no_separator [of n] by (auto simp: field_ok_def)

lemma field_ok_render_access:
  assumes "l \<noteq> []" "\<forall>n\<in>set l. node_ok n"
  shows "field_ok (render_access l)"
proof -
  obtain n ns where l: "l = n # ns" using assms(1) by (cases l) auto
  have entry: "c \<notin> set (an_username n @ '','' @ [an_permission n] @ '';'')"
    if "node_ok n" "c \<in> {CHR ''|'', CHR 0x0A, CHR 0x0D, CHR 0x00}" for n c
    using that by (auto simp: node_ok_def field_ok_def)
  have "c \<notin> set (render_access l)" if "c \<in> {CHR ''|'', CHR 0x0A, CHR 0x0D, CHR 0x00}" for c
    unfolding render_access_def set_concat set_map using entry [OF _ that] assms(2) by blast
  then have "set (render_access l) \<inter> {CHR ''|'', CHR 0x0A, CHR 0x0D, CHR 0x00} = {}" by blast
  then show ?thesis by (simp add: field_ok_def render_access_def l)
qed

text \<open>The line without its newline, and its nine fields.\<close>

definition fields_of :: "FileMetadata \<Rightarrow> string list" where
  "fields_of m = [fm_filename m, fm_owner m, fm_ss_ip m, show_int (fm_ss_client_port m),
     render_access (fm_access_list m), show_int (fm_size m), show_int (fm_word_count m),
     show_int (fm_char_count m), show_int (fm_last_modified m)]"

lemma render_file_fields: "render_file m = sep_by (CHR ''|'') (fields_of m) @ [CHR 0x0A]"
  by (simp add: render_file_def fields_of_def)

lemma split_sep_by:
  "\<forall>x\<in>set xs. field_ok x \<Longrightarrow> split_string ''|'' (sep_by (CHR ''|'') xs) = xs"
  by (intro split_string_sep_by) (auto simp: field_ok_def)

lemma fields_ok: "record_ok m \<Longrightarrow> \<forall>x\<in>set (fields_of m). field_ok x"
  by (simp add: fields_of_def record_ok_def field_ok_render_access)

lemma sep_by_fields_clean:
  assumes "record_ok m" "c \<in> {CHR 0x0A, CHR 0x0D, CHR 0x00}"
  shows "c \<notin> set (sep_by (CHR ''|'') (fields_of m))"
proof
  assume "c \<in> set (sep_by (CHR ''|'') (fields_of m))"
  then have "c = CHR ''|'' \<or> (\<exists>x\<in>set (fields_of m). c \<in> set x)" using set_sep_by by fastforce
  then show False using assms(2) fields_ok [OF assms(1)] unfolding field_ok_def by fastforce
qed

lemma load_render_file:
  assumes "record_ok m"
  shows "\<exists>m'. load_file clock k (render_file m) = Some (Some m') \<and> reloaded m m'"
proof -
  let ?b = "sep_by (CHR ''|'') (fields_of m)"
  note clean = sep_by_fields_clean [OF assms]
  have "trim_newline (cstr (render_file m)) = ?b"
    using clean by (simp add: render_file_fields)
  then have parts: "split_string ''|'' (trim_newline (cstr (render_file m))) = fields_of m"
    using split_sep_by [OF fields_ok [OF assms]] by simp
  have acl_ok: "access_inv (fm_access_list m)" "\<forall>n\<in>set (fm_access_list m). node_ok n"
    "length (fm_owner m) < MAX_USERNAME_LEN - 1" using assms by (simp_all add: record_ok_def)
  obtain acl acl' where acl: "add_access [] (fm_owner m) (CHR ''W'') = Some acl"
    "load_access acl (map access_token (fm_access_list m)) = Some acl'" "access_inv acl'"
    "fm_owner m \<in> an_username ` set (fm_access_list m) \<longrightarrow> mset acl' = mset (fm_access_list m)"
    "\<forall>u. get_access acl' u = (if get_access (fm_access_list m) u = CHR 0x00 \<and> u = fm_owner m then CHR ''W''
        else get_access (fm_access_list m) u)"
    using load_access_same [OF acl_ok] by blast
  let ?m' = "m\<lparr>fm_access_list := acl', fm_created_at := clock k, fm_last_accessed := clock (k + 1)\<rparr>"
  have "load_file clock k (render_file m) = Some (Some ?m')"
    unfolding load_file_def parts using assms acl(1,2)
    by (simp add: fields_of_def Let_def split_render_access [OF acl_ok(2)] record_ok_def)
  moreover have "reloaded m ?m'" using acl(3-5) by (simp add: reloaded_def same_record_def owner_listed_def)
  ultimately show ?thesis by blast
qed

section \<open>The whole table\<close>

lemma load_lines_records:
  "\<forall>m\<in>set ms. record_ok m \<Longrightarrow>
     \<exists>ms'. list_all2 reloaded ms ms' \<and>
       load_lines clock k nm (map render_file ms) =
         Some (nm\<lparr>nm_file_table := foldl (\<lambda>t m. fst (ht_insert t m)) (nm_file_table nm) ms',
                  nm_file_trie := foldl (\<lambda>t m. trie_insert t (fm_filename m)) (nm_file_trie nm) ms'\<rparr>)"
proof (induction ms arbitrary: k nm)
  case (Cons m ms)
  obtain m' where m': "load_file clock k (render_file m) = Some (Some m')" "reloaded m m'"
    using load_render_file [of m clock k] Cons.prems by auto
  let ?nm = "nm\<lparr>nm_file_table := fst (ht_insert (nm_file_table nm) m'),
    nm_file_trie := trie_insert (nm_file_trie nm) (fm_filename m')\<rparr>"
  obtain ms' where "list_all2 reloaded ms ms'"
    "load_lines clock (k + 2) ?nm (map render_file ms) =
       Some (?nm\<lparr>nm_file_table := foldl (\<lambda>t m. fst (ht_insert t m)) (nm_file_table ?nm) ms',
         nm_file_trie := foldl (\<lambda>t m. trie_insert t (fm_filename m)) (nm_file_trie ?nm) ms'\<rparr>)"
    using Cons.IH [of "k + 2" ?nm] Cons.prems by auto
  then show ?case using m' by (intro exI [of _ "m' # ms'"]) simp
qed simp

lemma trie_search_insert_list:
  "trie_search (foldl (\<lambda>t m. trie_insert t (fm_filename m)) t ms) s \<longleftrightarrow>
     s \<in> fm_filename ` set ms \<or> trie_search t s"
  by (induction ms arbitrary: t) (auto simp: trie_search_insert)

lemma reloaded_names: "list_all2 reloaded ms ms' \<Longrightarrow> map fm_filename ms' = map fm_filename ms"
  by (induction rule: list_all2_induct) (auto simp: reloaded_def same_record_def)

lemma find_reloaded:
  "list_all2 reloaded ms ms' \<Longrightarrow>
     rel_option reloaded (List.find (\<lambda>m. fm_filename m = n) ms) (List.find (\<lambda>m. fm_filename m = n) ms')"
  by (induction rule: list_all2_induct) (auto simp: reloaded_def same_record_def)

lemma find_ht_files: "ht_inv t \<Longrightarrow> List.find (\<lambda>m. fm_filename m = n) (ht_files t) = ht_get t n"
proof (cases "ht_get t n")
  case None
  assume "ht_inv t"
  then have "n \<notin> fm_filename ` set (ht_files t)" using None by (auto simp: ht_files_iff)
  then show ?thesis using None by (simp add: find_key_None)
next
  case (Some m)
  assume inv: "ht_inv t"
  have n: "fm_filename m = n" using Some by (rule ht.lookup_name)
  then have "m \<in> set (ht_files t)" using ht_files_iff [OF inv] Some by simp
  then show ?thesis using find_distinct_key [OF ht_files_distinct [OF inv]] n Some by force
qed

lemma table_reloaded:
  assumes "ht_inv t" "list_all2 reloaded (ht_files t) ms'"
  defines "t' \<equiv> foldl (\<lambda>t m. fst (ht_insert t m)) ht_create ms'"
  shows "ht_inv t'" "rel_option reloaded (ht_get t n) (ht_get t' n)"
proof -
  show "ht_inv t'" unfolding t'_def by (rule ht.inv_insert_list [OF ht.inv_empty])
  have "distinct (map fm_filename ms')"
    using ht_files_distinct [OF assms(1)] reloaded_names [OF assms(2)] by simp
  then have "ht_get t' n = List.find (\<lambda>m. fm_filename m = n) ms'"
    unfolding t'_def by (subst ht.lookup_insert_list) (simp_all add: ht.lookup_empty split: option.split)
  then show "rel_option reloaded (ht_get t n) (ht_get t' n)"
    using find_reloaded [OF assms(2), of n] find_ht_files [OF assms(1), of n] by simp
qed

definition user_ok :: "UserNode \<Rightarrow> bool" where
  "user_ok u \<longleftrightarrow> field_ok (us_username u) \<and> length (us_username u) < MAX_USERNAME_LEN - 1"

lemma load_users_rendered:
  "\<forall>u\<in>set us. user_ok u \<Longrightarrow>
     load_users acc (map (\<lambda>u. us_username u @ [CHR 0x0A]) us) = Some (rev us @ acc)"
proof (induction us arbitrary: acc)
  case (Cons u us)
  have "trim_newline (cstr (us_username u @ [CHR 0x0A])) = us_username u" "us_username u \<noteq> []"
    "length (us_username u) < MAX_USERNAME_LEN - 1"
    using Cons.prems by (auto simp: user_ok_def field_ok_def)
  then show ?case using Cons by (simp add: strncpy_raw_def)
qed simp

lemma line_ok:
  "record_ok m \<Longrightarrow> \<exists>b. render_file m = b @ [CHR 0x0A] \<and> CHR 0x0A \<notin> set b \<and> length (render_file m) < BUFFER_SIZE"
  using sep_by_fields_clean [of m "CHR 0x0A"] render_file_fields [of m] by (auto simp: record_ok_def)

text \<open>The disk holds the current table and users.\<close>

definition files_saved :: "NameServer \<Rightarrow> bool" where
  "files_saved nm \<longleftrightarrow>
     fs_files (nm_fs nm) NM_FILES_FILE = Some (concat (map render_file (ht_files (nm_file_table nm))))"

definition users_saved :: "NameServer \<Rightarrow> bool" where
  "users_saved nm \<longleftrightarrow> fs_files (nm_fs nm) NM_USERS_FILE = Some (render_users (nm_all_users nm))"

lemma restart_reloaded:
  assumes "ht_inv (nm_file_table nm)" "\<forall>m\<in>set (ht_files (nm_file_table nm)). record_ok m"
    and "\<forall>u\<in>set (nm_all_users nm). user_ok u" "files_saved nm" "users_saved nm"
  shows "\<exists>nm'. nm_create clock (nm_fs nm) = Some nm' \<and>
    nm_all_users nm' = rev (nm_all_users nm) \<and> ht_inv (nm_file_table nm') \<and>
    (\<forall>f. rel_option reloaded (ht_get (nm_file_table nm) f) (ht_get (nm_file_table nm') f)) \<and>
    (\<forall>f. trie_search (nm_file_trie nm') f \<longleftrightarrow> ht_get (nm_file_table nm) f \<noteq> None)"
proof -
  let ?t = "nm_file_table nm" and ?fs = "nm_fs nm"
  let ?nm0 = "\<lparr>nm_file_table = ht_create, nm_file_trie = trie_create_node, nm_client_list = [], nm_ss_list = [],
         nm_all_users = [], nm_next_ss_index = 0, nm_fs = ?fs\<rparr>"
  have files: "fs_files ?fs NM_FILES_FILE = Some (concat (map render_file (ht_files ?t)))"
    "fs_files ?fs NM_USERS_FILE = Some (concat (map (\<lambda>u. us_username u @ [CHR 0x0A]) (nm_all_users nm)))"
    using assms(4,5) by (simp_all add: files_saved_def users_saved_def render_users_def)
  have "fgets_lines BUFFER_SIZE (concat (map render_file (ht_files ?t))) = map render_file (ht_files ?t)"
    using line_ok assms(2) by (intro fgets_lines_concat) auto
  moreover obtain ms' where ms': "list_all2 reloaded (ht_files ?t) ms'"
    "load_lines clock 0 ?nm0 (map render_file (ht_files ?t)) =
       Some (?nm0\<lparr>nm_file_table := foldl (\<lambda>t m. fst (ht_insert t m)) ht_create ms',
         nm_file_trie := foldl (\<lambda>t m. trie_insert t (fm_filename m)) trie_create_node ms'\<rparr>)"
    using load_lines_records [OF assms(2), of clock 0 ?nm0] by auto
  ultimately have load: "nm_load_files clock ?nm0 =
    Some (?nm0\<lparr>nm_file_table := foldl (\<lambda>t m. fst (ht_insert t m)) ht_create ms',
         nm_file_trie := foldl (\<lambda>t m. trie_insert t (fm_filename m)) trie_create_node ms'\<rparr>)"
    by (simp add: nm_load_files_def files)
  have "fgets_lines BUFFER_SIZE (concat (map (\<lambda>u. us_username u @ [CHR 0x0A]) (nm_all_users nm))) =
      map (\<lambda>u. us_username u @ [CHR 0x0A]) (nm_all_users nm)"
    using assms(3) by (intro fgets_lines_concat) (auto simp: user_ok_def field_ok_def)
  then have create: "nm_create clock ?fs =
    Some (?nm0\<lparr>nm_file_table := foldl (\<lambda>t m. fst (ht_insert t m)) ht_create ms',
         nm_file_trie := foldl (\<lambda>t m. trie_insert t (fm_filename m)) trie_create_node ms',
         nm_all_users := rev (nm_all_users nm)\<rparr>)"
    using load_users_rendered [OF assms(3), of "[]"]
    by (simp add: nm_create_def load nm_load_users_def files)
  have "f \<in> fm_filename ` set ms' \<longleftrightarrow> ht_get ?t f \<noteq> None" for f
    using find_ht_files [OF assms(1), of f] find_key_None [of fm_filename f "ht_files ?t"]
      reloaded_names [OF ms'(1)] by (metis set_map)
  then have "trie_search (foldl (\<lambda>t m. trie_insert t (fm_filename m)) trie_create_node ms') f \<longleftrightarrow> ht_get ?t f \<noteq> None" for f
    by (simp only: trie_search_insert_list trie_search_create simp_thms)
  then show ?thesis using create table_reloaded [OF assms(1) ms'(1)] by simp
qed

lemma restart:
  assumes "ht_inv (nm_file_table nm)" "\<forall>m\<in>set (ht_files (nm_file_table nm)). record_ok m"
    and "\<forall>u\<in>set (nm_all_users nm). user_ok u" "files_saved nm" "users_saved nm"
  shows "\<exists>nm'. nm_create clock (nm_fs nm) = Some nm' \<and>
    nm_all_users nm' = rev (nm_all_users nm) \<and> ht_inv (nm_file_table nm') \<and>
    (\<forall>f. rel_option same_record (ht_get (nm_file_table nm) f) (ht_get (nm_file_table nm') f)) \<and>
    (\<forall>f. trie_search (nm_file_trie nm') f \<longleftrightarrow> ht_get (nm_file_table nm) f \<noteq> None)"
proof -
  obtain nm' where nm': "nm_create clock (nm_fs nm) = Some nm'" "nm_all_users nm' = rev (nm_all_users nm)"
    "ht_inv (nm_file_table nm')"
    "\<forall>f. rel_option reloaded (ht_get (nm_file_table nm) f) (ht_get (nm_file_table nm') f)"
    "\<forall>f. trie_search (nm_file_trie nm') f \<longleftrightarrow> ht_get (nm_file_table nm) f \<noteq> None"
    using restart_reloaded [OF assms, of clock] by (elim exE conjE)
  have "rel_option same_record (ht_get (nm_file_table nm) f) (ht_get (nm_file_table nm') f)" for f
    by (rule option.rel_mono_strong [OF nm'(4) [rule_format]]) (simp add: reloaded_def)
  then show ?thesis using nm' by (intro exI [of _ nm'] conjI) blast+
qed

text \<open>A record read back can be stored and read again.\<close>

lemma length_render_access: "length (render_access l) = sum_list (map (\<lambda>n. length (an_username n) + 3) l)"
  by (induction l) (auto simp: render_access_def)

lemma reloaded_record_ok:
  assumes "reloaded m m'" "record_ok m" "owner_listed m"
  shows "record_ok m' \<and> owner_listed m'"
proof -
  have acl: "mset (fm_access_list m') = mset (fm_access_list m)" and inv: "access_inv (fm_access_list m')"
    using assms(1,3) by (simp_all add: reloaded_def)
  have set: "set (fm_access_list m') = set (fm_access_list m)" using acl by (rule mset_eq_setD)
  have "length (render_access (fm_access_list m')) = length (render_access (fm_access_list m))"
    by (simp only: length_render_access sum_mset_sum_list [symmetric] mset_map acl)
  then have len: "length (render_file m') = length (render_file m)"
    using assms(1) by (simp add: reloaded_def same_record_def render_file_def)
  have same: "fm_filename m' = fm_filename m" "fm_owner m' = fm_owner m" "fm_ss_ip m' = fm_ss_ip m"
    "fm_ss_client_port m' = fm_ss_client_port m" "fm_size m' = fm_size m" "fm_word_count m' = fm_word_count m"
    "fm_char_count m' = fm_char_count m" "fm_last_modified m' = fm_last_modified m"
    using assms(1) by (simp_all add: reloaded_def same_record_def)
  have "fm_access_list m' \<noteq> []" using set assms(3) by (auto simp: owner_listed_def)
  then have "record_ok m'" using assms(2) inv unfolding record_ok_def len same set by simp
  then show ?thesis using assms(3) unfolding owner_listed_def same set by simp
qed

text \<open>An empty access field leaves two separators side by side, which \<open>strtok_r\<close> takes for one.\<close>

lemma trim_line:
  "CHR 0x0A \<notin> set s \<Longrightarrow> CHR 0x0D \<notin> set s \<Longrightarrow> CHR 0x00 \<notin> set s \<Longrightarrow> trim_newline (cstr (s @ [CHR 0x0A])) = s"
  by simp

lemma load_empty_access:
  assumes "fm_access_list m = []" "field_ok (fm_filename m)" "field_ok (fm_owner m)" "field_ok (fm_ss_ip m)"
  shows "load_file clock k (render_file m) = Some None"
proof -
  let ?a = "[fm_filename m, fm_owner m, fm_ss_ip m, show_int (fm_ss_client_port m)]"
  let ?b = "[show_int (fm_size m), show_int (fm_word_count m), show_int (fm_char_count m), show_int (fm_last_modified m)]"
  let ?line = "sep_by (CHR ''|'') ?a @ CHR ''|'' # CHR ''|'' # sep_by (CHR ''|'') ?b"
  have ok: "\<forall>x\<in>set ?a. field_ok x" "\<forall>x\<in>set ?b. field_ok x" using assms by simp_all
  have line: "render_file m = ?line @ [CHR 0x0A]"
    using assms(1) by (simp add: render_file_def render_access_def)
  have clean: "c \<notin> set (sep_by (CHR ''|'') xs)"
    if "\<forall>x\<in>set xs. field_ok x" "c \<in> {CHR 0x0A, CHR 0x0D, CHR 0x00}" for c xs
    using that set_sep_by [of "CHR ''|''" xs] unfolding field_ok_def by fastforce
  have "c \<notin> set ?line" if "c \<in> {CHR 0x0A, CHR 0x0D, CHR 0x00}" for c
    using clean [OF ok(1) that] clean [OF ok(2) that] that by auto
  then have "trim_newline (cstr (render_file m)) = ?line"
    unfolding line by (intro trim_line) blast+
  moreover have "split_string ''|'' ?line = ?a @ ?b"
    using split_sep_by [OF ok(1)] split_sep_by [OF ok(2)]
    by (subst split_string_sep) simp_all
  ultimately show ?thesis by (simp add: load_file_def Let_def)
qed

lemma saved_both:
  "nm_file_table (nm_save_users (nm_save_files nm)) = nm_file_table nm"
  "nm_file_trie (nm_save_users (nm_save_files nm)) = nm_file_trie nm"
  "nm_all_users (nm_save_users (nm_save_files nm)) = nm_all_users nm"
  "fs_writable (nm_fs nm) NM_FILES_FILE \<Longrightarrow> files_saved (nm_save_users (nm_save_files nm))"
  "fs_writable (nm_fs nm) NM_USERS_FILE \<Longrightarrow> users_saved (nm_save_users (nm_save_files nm))"
  by (auto simp: nm_save_files_def nm_save_users_def fs_write_def files_saved_def users_saved_def
      NM_FILES_FILE_def NM_USERS_FILE_def)

section \<open>Properties\<close>

text \<open>A restart keeps the files: with well-formed names, a name server that saved its state
  comes back from disk with the same files, each with the same owner, place and statistics and
  with the same answer of the permission check for every user; the name index holds exactly
  these names, and the users are all there.\<close>

theorem restart_keeps_files:
  assumes "ht_inv (nm_file_table nm)" "\<forall>m\<in>set (ht_files (nm_file_table nm)). record_ok m"
    and "\<forall>u\<in>set (nm_all_users nm). user_ok u"
    and "fs_writable (nm_fs nm) NM_FILES_FILE" "fs_writable (nm_fs nm) NM_USERS_FILE"
  shows "\<exists>nm'. nm_create clock (nm_fs (nm_save_users (nm_save_files nm))) = Some nm' \<and>
    nm_all_users nm' = rev (nm_all_users nm) \<and> ht_inv (nm_file_table nm') \<and>
    (\<forall>f. rel_option (\<lambda>m m'. fm_owner m' = fm_owner m \<and> fm_ss_ip m' = fm_ss_ip m \<and>
        fm_ss_client_port m' = fm_ss_client_port m \<and> fm_size m' = fm_size m \<and>
        fm_word_count m' = fm_word_count m \<and> fm_char_count m' = fm_char_count m \<and>
        fm_last_modified m' = fm_last_modified m \<and> (\<forall>u p. check_access m' u p = check_access m u p))
      (ht_get (nm_file_table nm) f) (ht_get (nm_file_table nm') f)) \<and>
    (\<forall>f. trie_search (nm_file_trie nm') f \<longleftrightarrow> ht_get (nm_file_table nm) f \<noteq> None)"
proof -
  obtain nm' where nm': "nm_create clock (nm_fs (nm_save_users (nm_save_files nm))) = Some nm'"
    "nm_all_users nm' = rev (nm_all_users nm)" "ht_inv (nm_file_table nm')"
    "\<forall>f. rel_option same_record (ht_get (nm_file_table nm) f) (ht_get (nm_file_table nm') f)"
    "\<forall>f. trie_search (nm_file_trie nm') f \<longleftrightarrow> ht_get (nm_file_table nm) f \<noteq> None"
    using restart [of "nm_save_users (nm_save_files nm)" clock] assms by (auto simp: saved_both)
  let ?same = "\<lambda>m m'. fm_owner m' = fm_owner m \<and> fm_ss_ip m' = fm_ss_ip m \<and>
        fm_ss_client_port m' = fm_ss_client_port m \<and> fm_size m' = fm_size m \<and>
        fm_word_count m' = fm_word_count m \<and> fm_char_count m' = fm_char_count m \<and>
        fm_last_modified m' = fm_last_modified m \<and> (\<forall>u p. check_access m' u p = check_access m u p)"
  have same: "same_record m m' \<Longrightarrow> ?same m m'" for m m'
    using same_record_access [of m m'] by (simp add: same_record_def)
  have "rel_option ?same (ht_get (nm_file_table nm) f) (ht_get (nm_file_table nm') f)" for f
    by (rule option.rel_mono_strong [OF nm'(4) [rule_format]]) (rule same)
  then show ?thesis using nm'(1,2,3,5) by blast
qed

definition demo_meta :: FileMetadata where
  "demo_meta = \<lparr>fm_filename = ''f'', fm_owner = ''bob'',
     fm_access_list = [\<lparr>an_username = ''al'', an_permission = CHR ''R''\<rparr>, \<lparr>an_username = ''bob'', an_permission = CHR ''W''\<rparr>],
     fm_ss_ip = ''10.0.0.1'', fm_ss_client_port = 91, fm_size = 12, fm_word_count = 3, fm_char_count = 12,
     fm_created_at = 5, fm_last_modified = 6, fm_last_accessed = 7\<rparr>"

definition demo_nm :: NameServer where
  "demo_nm = \<lparr>nm_file_table = fst (ht_insert ht_create demo_meta), nm_file_trie = trie_create_node,
     nm_client_list = [], nm_ss_list = [\<lparr>si_socket = 5, si_ip = ''10.0.0.1'', si_client_port = 91\<rparr>],
     nm_all_users = [\<lparr>us_username = ''bob''\<rparr>, \<lparr>us_username = ''al''\<rparr>], nm_next_ss_index = 0,
     nm_fs = \<lparr>fs_files = Map.empty, fs_writable = (\<lambda>_. True)\<rparr>\<rparr>"

lemma demo_nm_facts:
  "ht_inv (nm_file_table demo_nm)" "ht_get (nm_file_table demo_nm) ''f'' = Some demo_meta"
  "record_ok demo_meta" "m \<in> set (ht_files (nm_file_table demo_nm)) \<Longrightarrow> m = demo_meta"
  "fs_writable (nm_fs demo_nm) p" "\<forall>u\<in>set (nm_all_users demo_nm). user_ok u"
proof -
  show inv: "ht_inv (nm_file_table demo_nm)" using ht.inv_insert [OF ht.inv_empty] by (simp add: demo_nm_def)
  have get: "ht_get (nm_file_table demo_nm) n = (if n = ''f'' then Some demo_meta else None)" for n
    by (simp add: demo_nm_def ht.lookup_insert_if ht.lookup_empty demo_meta_def)
  then show "ht_get (nm_file_table demo_nm) ''f'' = Some demo_meta" by simp
  show "m = demo_meta" if m: "m \<in> set (ht_files (nm_file_table demo_nm))"
  proof -
    have "(if fm_filename m = ''f'' then Some demo_meta else None) = Some m"
      using m unfolding get [symmetric] by (simp only: ht_files_iff [OF inv])
    then show ?thesis by (simp split: if_splits)
  qed
  have "show_int 91 = ''91''" "show_int 12 = ''12''" "show_int 3 = ''3''" "show_int 6 = ''6''" by code_simp+
  then show "record_ok demo_meta"
    by (simp add: record_ok_def demo_meta_def field_ok_def node_ok_def access_inv_def is_int32_def is_int64_def
        render_file_def render_access_def)
  show "\<forall>u\<in>set (nm_all_users demo_nm). user_ok u" by code_simp
qed (simp add: demo_nm_def)

theorem restart_keeps_files_witness:
  "\<exists>nm' m'. nm_create (\<lambda>k. int k) (nm_fs (nm_save_users (nm_save_files demo_nm))) = Some nm' \<and>
     ht_get (nm_file_table nm') ''f'' = Some m' \<and> check_access m' ''al'' (CHR ''R'')"
proof -
  have ok: "\<forall>m\<in>set (ht_files (nm_file_table demo_nm)). record_ok m" using demo_nm_facts(3,4) by blast
  have acc: "check_access demo_meta ''al'' (CHR ''R'')" by code_simp
  let ?R = "\<lambda>m m'. fm_owner m' = fm_owner m \<and> fm_ss_ip m' = fm_ss_ip m \<and>
        fm_ss_client_port m' = fm_ss_client_port m \<and> fm_size m' = fm_size m \<and>
        fm_word_count m' = fm_word_count m \<and> fm_char_count m' = fm_char_count m \<and>
        fm_last_modified m' = fm_last_modified m \<and> (\<forall>u p. check_access m' u p = check_access m u p)"
  obtain nm' where nm': "nm_create (\<lambda>k. int k) (nm_fs (nm_save_users (nm_save_files demo_nm))) = Some nm'"
    "\<forall>f. rel_option ?R (ht_get (nm_file_table demo_nm) f) (ht_get (nm_file_table nm') f)"
    using restart_keeps_files [OF demo_nm_facts(1) ok demo_nm_facts(6,5,5), of "\<lambda>k. int k"] by (elim exE conjE)
  then have "rel_option ?R (Some demo_meta) (ht_get (nm_file_table nm') ''f'')"
    using nm'(2) [rule_format, of "''f''"] by (simp only: demo_nm_facts(2))
  then show ?thesis using nm'(1) acc by (auto simp: option_rel_Some1)
qed

text \<open>A file whose access list is empty (its owner removed the own entry) is lost by a restart:
  its line has two separators side by side, splits into eight fields instead of nine and is
  skipped.\<close>

theorem empty_access_list_is_lost:
  assumes "fm_access_list m = []" "field_ok (fm_filename m)" "field_ok (fm_owner m)" "field_ok (fm_ss_ip m)"
  shows "load_file clock k (render_file m) = Some None"
  by (rule load_empty_access [OF assms])

theorem empty_access_list_is_lost_witness:
  "load_file (\<lambda>_. 0) 0 (render_file (demo_meta\<lparr>fm_access_list := []\<rparr>)) = Some None"
  by (rule empty_access_list_is_lost) (simp_all add: demo_meta_def field_ok_def)

end
