(* ===== verification/NM_Handlers.thy ===== *)
theory NM_Handlers
  imports NM_Persistence
begin

text \<open>
  The handlers of the name server: the client commands (\<^verbatim>\<open>client_handler.c\<close>,
  \<^verbatim>\<open>exec_handler.c\<close>), the registration of a storage server and its messages
  (\<^verbatim>\<open>ss_handler.c\<close>). A handler takes the state and the arguments and returns the state and
  the messages sent, with the socket each goes to; the log is left out. \<open>None\<close> is undefined
  behaviour (an overflowed buffer, an unterminated name).

  \<open>Env\<close> is the world outside: the clock, the local time, and for EXEC the connection to the
  storage server and the shell.
\<close>

section \<open>The environment\<close>

text \<open>\<open>env_clock k\<close>: the \<open>k\<close>-th \<^verbatim>\<open>time(NULL)\<close> of the handler. \<open>env_strftime fmt t\<close>: the text
  \<^verbatim>\<open>strftime\<close> leaves in its 100-byte buffer for the local time \<open>t\<close>. \<open>env_connect\<close>: whether the
  address answers; \<open>env_fetch ip port req\<close>: the bytes the first \<^verbatim>\<open>recv\<close> returns, none for an
  error; \<open>env_tmp\<close>: whether \<^verbatim>\<open>mkstemp\<close> succeeds; \<open>env_run script\<close>: the pieces \<^verbatim>\<open>fgets\<close> reads
  from the script's output, or that \<^verbatim>\<open>popen\<close> failed.\<close>

record Env =
  env_clock :: "nat \<Rightarrow> c_long"
  env_strftime :: "string \<Rightarrow> c_long \<Rightarrow> string"
  env_connect :: "string \<Rightarrow> c_int \<Rightarrow> bool"
  env_fetch :: "string \<Rightarrow> c_int \<Rightarrow> string \<Rightarrow> string"
  env_tmp :: bool
  env_run :: "string \<Rightarrow> string list option"

type_synonym nm_out = "c_int \<times> string"

section \<open>VIEW\<close>

text \<open>\<^verbatim>\<open>%-ns\<close> and \<^verbatim>\<open>%-nd\<close>.\<close>

definition pad_right :: "nat \<Rightarrow> string \<Rightarrow> string" where
  "pad_right n s = s @ replicate (n - length s) (CHR '' '')"

definition view_line :: "Env \<Rightarrow> FileMetadata \<Rightarrow> string" where
  "view_line env meta =
     snprintf 512 (''| '' @ pad_right 20 (fm_filename meta) @ '' | '' @ pad_right 9 (fm_owner meta) @ '' | '' @
       pad_right 8 (show_int (fm_size meta)) @ '' | '' @ pad_right 5 (show_int (fm_word_count meta)) @ '' | '' @
       pad_right 5 (show_int (fm_char_count meta)) @ '' | '' @
       env_strftime env ''%Y-%m-%d %H:%M'' (fm_last_modified meta) @ [CHR 0x0A])"

definition VIEW_BUFFER :: nat where "VIEW_BUFFER = BUFFER_SIZE * 10"

definition view_rule :: string where
  "view_rule = ''--------------------------------------------------------------------------------'' @ [CHR 0x0A]"

definition view_header :: string where
  "view_header = view_rule @
     ''| Filename             | Owner     | Size     | Words | Chars | Last Modified'' @ [CHR 0x0A] @
     ''|----------------------|-----------|----------|-------|-------|-------------------'' @ [CHR 0x0A]"

fun view_loop :: "Env \<Rightarrow> string \<Rightarrow> bool \<Rightarrow> bool \<Rightarrow> FileMetadata list \<Rightarrow> string \<Rightarrow> string option" where
  "view_loop env username show_all show_details [] response = Some response"
| "view_loop env username show_all show_details (meta # rest) response =
     (if show_all \<or> check_access meta username (CHR ''R'') then
        (case strcat VIEW_BUFFER response
            (if show_details then view_line env meta else fm_filename meta @ [CHR 0x0A]) of
           None \<Rightarrow> None
         | Some response' \<Rightarrow> view_loop env username show_all show_details rest response')
      else view_loop env username show_all show_details rest response)"

definition handle_view :: "Env \<Rightarrow> NameServer \<Rightarrow> c_int \<Rightarrow> string \<Rightarrow> string list \<Rightarrow> (NameServer \<times> nm_out list) option" where
  "handle_view env nm client_sock username args =
     (let show_all = (1 < length args \<and> CHR ''a'' \<in> set (args ! 1));
          show_details = (1 < length args \<and> CHR ''l'' \<in> set (args ! 1))
      in do {
        response \<leftarrow> view_loop env username show_all show_details (ht_files (nm_file_table nm))
          (if show_details then view_header else []);
        response \<leftarrow> (if show_details then strcat VIEW_BUFFER response view_rule else Some response);
        let response = (if response = [] then ''(No files to display)'' @ [CHR 0x0A] else response);
        Some (nm, [(client_sock, response)])
      })"

section \<open>CREATE and DELETE\<close>

text \<open>The \<open>calloc\<close>ed metadata of a new file.\<close>

definition new_file ::
  "Env \<Rightarrow> string \<Rightarrow> string \<Rightarrow> AccessNode list \<Rightarrow> StorageServerInfo \<Rightarrow> FileMetadata" where
  "new_file env username filename acl ss =
     \<lparr>fm_filename = strncpy_zeroed (MAX_FILENAME_LEN - 1) filename,
      fm_owner = strncpy_zeroed (MAX_USERNAME_LEN - 1) username, fm_access_list = acl,
      fm_ss_ip = strncpy_zeroed (MAX_IP_LEN - 1) (si_ip ss),
      fm_ss_client_port = si_client_port ss, fm_size = 0, fm_word_count = 0, fm_char_count = 0,
      fm_created_at = env_clock env 0, fm_last_modified = env_clock env 1,
      fm_last_accessed = env_clock env 2\<rparr>"

definition handle_create :: "Env \<Rightarrow> NameServer \<Rightarrow> c_int \<Rightarrow> string \<Rightarrow> string \<Rightarrow> (NameServer \<times> nm_out list) option" where
  "handle_create env nm client_sock username filename =
     (if ht_get (nm_file_table nm) filename \<noteq> None
      then Some (nm, [(client_sock, ''409 ERROR: File already exists.'')])
      else case get_ss_for_new_file nm of
        (nm, None) \<Rightarrow> Some (nm, [(client_sock, ''503 ERROR: No storage servers available.'')])
      | (nm, Some ss) \<Rightarrow>
          (case add_access [] username (CHR ''W'') of
             None \<Rightarrow> None
           | Some acl \<Rightarrow>
               let meta = new_file env username filename acl ss;
                   nm = nm\<lparr>nm_file_table := fst (ht_insert (nm_file_table nm) meta),
                           nm_file_trie := trie_insert (nm_file_trie nm) filename\<rparr>
               in Some (nm_save_files nm,
                    [(si_socket ss, snprintf BUFFER_SIZE (''CREATE '' @ filename)),
                     (client_sock, ''201 OK: File created successfully!'')])))"

definition handle_delete :: "NameServer \<Rightarrow> c_int \<Rightarrow> string \<Rightarrow> string \<Rightarrow> NameServer \<times> nm_out list" where
  "handle_delete nm client_sock username filename =
     (case ht_get (nm_file_table nm) filename of
        None \<Rightarrow> (nm, [(client_sock, ''404 ERROR: File not found.'')])
      | Some meta \<Rightarrow>
          if fm_owner meta \<noteq> username
          then (nm, [(client_sock, ''401 ERROR: Only the owner can delete a file.'')])
          else
            let notify = (case find_ss nm meta of
                  Some ss \<Rightarrow> if si_socket ss \<noteq> -1
                    then [(si_socket ss, snprintf BUFFER_SIZE (''DELETE '' @ filename))] else []
                | None \<Rightarrow> []);
                nm = nm\<lparr>nm_file_table := ht_delete (nm_file_table nm) filename,
                        nm_file_trie := trie_delete (nm_file_trie nm) filename\<rparr>
            in (nm_save_files nm, notify @ [(client_sock, ''200 OK: File deleted successfully.'')]))"

definition handle_create_delete ::
  "Env \<Rightarrow> NameServer \<Rightarrow> c_int \<Rightarrow> string \<Rightarrow> string list \<Rightarrow> bool \<Rightarrow> (NameServer \<times> nm_out list) option" where
  "handle_create_delete env nm client_sock username args is_create =
     (if length args < 2 then Some (nm, [(client_sock, ''400 ERROR: Usage: CREATE/DELETE <filename>'')])
      else if is_create then handle_create env nm client_sock username (args ! 1)
      else Some (handle_delete nm client_sock username (args ! 1)))"

section \<open>READ, WRITE, STREAM and UNDO: the address of the file\<close>

definition handle_read_write_stream ::
  "Env \<Rightarrow> NameServer \<Rightarrow> c_int \<Rightarrow> string \<Rightarrow> string list \<Rightarrow> NameServer \<times> nm_out list" where
  "handle_read_write_stream env nm client_sock username args =
     (if length args < 2 then (nm, [(client_sock, ''400 ERROR: Missing filename.'')])
      else
        let filename = args ! 1; cmd = args ! 0
        in case ht_get (nm_file_table nm) filename of
             None \<Rightarrow> (nm, [(client_sock, ''404 ERROR: File not found.'')])
           | Some meta \<Rightarrow>
               let perm = (if cmd = ''WRITE'' \<or> cmd = ''UNDO'' then CHR ''W'' else CHR ''R'')
               in if \<not> check_access meta username perm
                  then (nm, [(client_sock, snprintf 100 (''401 ERROR: '' @ [perm] @ '' access denied.''))])
                  else
                    let nm = nm\<lparr>nm_file_table := ht_update (nm_file_table nm) filename
                               (\<lambda>m. m\<lparr>fm_last_accessed := env_clock env 0\<rparr>)\<rparr>
                    in if find_ss nm meta = None
                       then (nm, [(client_sock, ''503 ERROR: Storage server for this file is offline.'')])
                       else (nm, [(client_sock, snprintf BUFFER_SIZE
                              (''202 OK '' @ fm_ss_ip meta @ '':'' @ show_int (fm_ss_client_port meta)))]))"

section \<open>INFO\<close>

text \<open>The LRU cache is not implemented in the code: a lookup finds nothing, an insertion is dropped.\<close>

definition lru_get :: "string \<Rightarrow> string option" where
  "lru_get filename = None"

definition INFO_BUFFER :: nat where "INFO_BUFFER = BUFFER_SIZE * 2"

definition stats_text :: "FileMetadata \<Rightarrow> string" where
  "stats_text meta =
     snprintf 200 ([CHR 0x0A] @ ''  Size: '' @ show_int (fm_size meta) @ '' bytes'' @ [CHR 0x0A] @ ''  Words: '' @
       show_int (fm_word_count meta) @ [CHR 0x0A] @ ''  Chars: '' @ show_int (fm_char_count meta))"

fun strcat_all :: "nat \<Rightarrow> string \<Rightarrow> string list \<Rightarrow> string option" where
  "strcat_all n buf [] = Some buf"
| "strcat_all n buf (s # ss) = (case strcat n buf s of None \<Rightarrow> None | Some buf' \<Rightarrow> strcat_all n buf' ss)"

definition info_text :: "Env \<Rightarrow> FileMetadata \<Rightarrow> string option" where
  "info_text env meta =
     do {
       access_buf \<leftarrow> format_access_list BUFFER_SIZE (fm_access_list meta);
       let time = (\<lambda>t. env_strftime env ''%Y-%m-%d %H:%M:%S'' t);
       strcat_all INFO_BUFFER
         (snprintf INFO_BUFFER (''--- File Info: '' @ fm_filename meta @ '' ---'' @ [CHR 0x0A]))
         [''  Owner: '', fm_owner meta,
          [CHR 0x0A] @ ''  Created: '', time (fm_created_at meta),
          [CHR 0x0A] @ ''  Modified: '', time (fm_last_modified meta),
          [CHR 0x0A] @ ''  Accessed: '', time (fm_last_accessed meta),
          stats_text meta, [CHR 0x0A] @ ''  Access: '', access_buf]
     }"

definition handle_info :: "Env \<Rightarrow> NameServer \<Rightarrow> c_int \<Rightarrow> string \<Rightarrow> string list \<Rightarrow> (NameServer \<times> nm_out list) option" where
  "handle_info env nm client_sock username args =
     (if length args < 2 then Some (nm, [(client_sock, ''400 ERROR: Usage: INFO <filename>'')])
      else
        let filename = args ! 1
        in case lru_get filename of
             Some cached_info \<Rightarrow> Some (nm, [(client_sock, cached_info)])
           | None \<Rightarrow>
               (case ht_get (nm_file_table nm) filename of
                  None \<Rightarrow> Some (nm, [(client_sock, ''404 ERROR: File not found.'')])
                | Some meta \<Rightarrow>
                    if \<not> check_access meta username (CHR ''R'')
                    then Some (nm, [(client_sock, ''401 ERROR: Read access denied.'')])
                    else map_option (\<lambda>response. (nm, [(client_sock, response)])) (info_text env meta)))"

section \<open>ADDACCESS and REMACCESS\<close>

definition access_usage :: string where
  "access_usage = ''400 ERROR: Usage:'' @ [CHR 0x0A] @ ''  ADDACCESS -R|-W <filename> <username>'' @ [CHR 0x0A] @
     ''  REMACCESS <filename> <username>''"

text \<open>What the argument parsing leaves: the file, the user and the permission to grant, if any.\<close>

definition parse_access :: "string list \<Rightarrow> (string, string \<times> string \<times> char option) sum" where
  "parse_access args =
     (let cmd = args ! 0; is_add = (cmd = ''ADDACCESS''); is_rem = (cmd = ''REMACCESS'')
      in if is_add \<and> length args = 4 then
           (if args ! 1 = ''-W'' then Inr (args ! 2, args ! 3, Some (CHR ''W''))
            else if args ! 1 = ''-R'' then Inr (args ! 2, args ! 3, Some (CHR ''R''))
            else Inl ''400 ERROR: Invalid permission flag. Use -R or -W.'')
         else if is_rem \<and> length args = 3 then Inr (args ! 1, args ! 2, None)
         else Inl access_usage)"

definition handle_access :: "NameServer \<Rightarrow> c_int \<Rightarrow> string \<Rightarrow> string list \<Rightarrow> (NameServer \<times> nm_out list) option" where
  "handle_access nm client_sock username args =
     (case parse_access args of
        Inl err \<Rightarrow> Some (nm, [(client_sock, err)])
      | Inr (filename, target_user, grant) \<Rightarrow>
          (case ht_get (nm_file_table nm) filename of
             None \<Rightarrow> Some (nm, [(client_sock, ''404 ERROR: File not found.'')])
           | Some meta \<Rightarrow>
               if fm_owner meta \<noteq> username
               then Some (nm, [(client_sock, ''401 ERROR: Only the owner can change permissions.'')])
               else
                 (case (case grant of
                      Some perm \<Rightarrow> map_option (\<lambda>l. (l, ''200 OK: Access granted.''))
                        (add_access (fm_access_list meta) target_user perm)
                    | None \<Rightarrow> Some (remove_access (fm_access_list meta) target_user, ''200 OK: Access removed.'')) of
                    None \<Rightarrow> None
                  | Some (acl, reply) \<Rightarrow>
                      Some (nm_save_files (nm\<lparr>nm_file_table := ht_update (nm_file_table nm) filename
                              (\<lambda>m. m\<lparr>fm_access_list := acl\<rparr>)\<rparr>),
                            [(client_sock, reply)]))))"

section \<open>LIST\<close>

definition handle_list :: "NameServer \<Rightarrow> c_int \<Rightarrow> (NameServer \<times> nm_out list) option" where
  "handle_list nm client_sock =
     map_option (\<lambda>response. (nm, [(client_sock, response)]))
       (strcat_all (BUFFER_SIZE * 2) (''--- Registered Users ---'' @ [CHR 0x0A])
         (concat (map (\<lambda>u. [us_username u, [CHR 0x0A]]) (nm_all_users nm))))"

section \<open>EXEC\<close>

definition handle_exec :: "Env \<Rightarrow> NameServer \<Rightarrow> c_int \<Rightarrow> string \<Rightarrow> string list \<Rightarrow> NameServer \<times> nm_out list" where
  "handle_exec env nm client_sock username args =
     (if length args < 2 then (nm, [(client_sock, ''400 ERROR: Usage: EXEC <filename>'')])
      else
        let filename = args ! 1
        in case ht_get (nm_file_table nm) filename of
             None \<Rightarrow> (nm, [(client_sock, ''404 ERROR: File not found.'')])
           | Some meta \<Rightarrow>
               if \<not> check_access meta username (CHR ''R'')
               then (nm, [(client_sock, ''401 ERROR: Read access denied.'')])
               else if (case find_ss nm meta of None \<Rightarrow> -1 | Some ss \<Rightarrow> si_socket ss) = -1
               then (nm, [(client_sock, ''503 ERROR: Storage server for this file is offline.'')])
               else if \<not> env_connect env (fm_ss_ip meta) (fm_ss_client_port meta)
               then (nm, [(client_sock, ''503 ERROR: Could not connect to SS to fetch script.'')])
               else
                 let req_buf = snprintf BUFFER_SIZE (''GET_CONTENT '' @ filename);
                     file_content = env_fetch env (fm_ss_ip meta) (fm_ss_client_port meta) req_buf
                 in if file_content = []
                    then (nm, [(client_sock, ''500 ERROR: Failed to read script content from SS.'')])
                    else if \<not> env_tmp env
                    then (nm, [(client_sock, ''500 ERROR: Could not create temp script.'')])
                    else (case env_run env file_content of
                        None \<Rightarrow> (nm, [(client_sock, ''500 ERROR: Failed to execute script.'')])
                      | Some out \<Rightarrow> (nm, map (\<lambda>piece. (client_sock, cstr piece)) out @
                          [(client_sock, ''201 OK: Execution finished.'')])))"

section \<open>The command loop\<close>

text \<open>One message of a client after its INIT.\<close>

definition nm_client_command ::
  "Env \<Rightarrow> NameServer \<Rightarrow> c_int \<Rightarrow> string \<Rightarrow> string \<Rightarrow> (NameServer \<times> nm_out list) option" where
  "nm_client_command env nm client_sock username bytes =
     (let args = split_string '' '' (trim_newline (cstr bytes)); cmd = args ! 0
      in if args = [] then Some (nm, [])
         else if cmd = ''VIEW'' then handle_view env nm client_sock username args
         else if cmd = ''CREATE'' then handle_create_delete env nm client_sock username args True
         else if cmd = ''DELETE'' then handle_create_delete env nm client_sock username args False
         else if cmd = ''READ'' \<or> cmd = ''WRITE'' \<or> cmd = ''STREAM'' \<or> cmd = ''UNDO''
         then Some (handle_read_write_stream env nm client_sock username args)
         else if cmd = ''INFO'' then handle_info env nm client_sock username args
         else if cmd = ''ADDACCESS'' \<or> cmd = ''REMACCESS'' then handle_access nm client_sock username args
         else if cmd = ''EXEC'' then Some (handle_exec env nm client_sock username args)
         else if cmd = ''LIST'' then handle_list nm client_sock
         else Some (nm, [(client_sock, ''400 ERROR: Unknown command.'')]))"

text \<open>The loop, over the messages received (with the environment of each), up to the disconnect.\<close>

fun nm_client_loop ::
  "NameServer \<Rightarrow> c_int \<Rightarrow> string \<Rightarrow> (Env \<times> string) list \<Rightarrow> (NameServer \<times> nm_out list) option" where
  "nm_client_loop nm client_sock username [] = Some (remove_client nm client_sock, [])"
| "nm_client_loop nm client_sock username ((env, m) # ms) =
     (if m = [] then Some (remove_client nm client_sock, [])
      else do {
        (nm, outs) \<leftarrow> nm_client_command env nm client_sock username m;
        (nm, outs') \<leftarrow> nm_client_loop nm client_sock username ms;
        Some (nm, outs @ outs')
      })"

text \<open>The INIT of a client that was accepted: it is connected and registered.\<close>

definition nm_client_init :: "NameServer \<Rightarrow> c_int \<Rightarrow> string \<Rightarrow> (NameServer \<times> string) option" where
  "nm_client_init nm client_sock name =
     do {
       username \<leftarrow> strncpy_raw (MAX_USERNAME_LEN - 1) name;
       nm \<leftarrow> add_client nm client_sock username;
       nm \<leftarrow> nm_register_persistent_user nm username;
       Some (nm, username)
     }"

definition nm_handle_client_request ::
  "NameServer \<Rightarrow> c_int \<Rightarrow> string \<Rightarrow> (Env \<times> string) list \<Rightarrow> (NameServer \<times> nm_out list) option" where
  "nm_handle_client_request nm client_sock init ms =
     (if init = [] then Some (nm, [])
      else
        let parts = split_string '' '' (cstr init)
        in if length parts < 2 \<or> parts ! 0 \<noteq> ''INIT_CLIENT''
           then Some (nm, [(client_sock, ''400 ERROR: Invalid INIT_CLIENT'')])
           else do {
             (nm, username) \<leftarrow> nm_client_init nm client_sock (parts ! 1);
             nm_client_loop nm client_sock username ms
           })"

section \<open>Storage servers\<close>

text \<open>The files of an INIT_SS: those the name server knows move to the server's address.\<close>

fun ss_files_online :: "HashTable \<Rightarrow> string \<Rightarrow> c_int \<Rightarrow> string list \<Rightarrow> HashTable" where
  "ss_files_online table ip client_port [] = table"
| "ss_files_online table ip client_port (f # fs) =
     ss_files_online
       (case ht_get table f of
          None \<Rightarrow> table
        | Some meta \<Rightarrow> ht_update table f (\<lambda>m. m\<lparr>fm_ss_ip := strncpy_zeroed (MAX_IP_LEN - 1) ip,
            fm_ss_client_port := client_port\<rparr>)) ip client_port fs"

definition nm_handle_ss_init :: "NameServer \<Rightarrow> c_int \<Rightarrow> string \<Rightarrow> string \<Rightarrow> (NameServer \<times> nm_out list) option" where
  "nm_handle_ss_init nm ss_sock ss_ip bytes =
     (if bytes = [] then Some (nm, [])
      else
        let parts = split_string '' '' (cstr bytes)
        in if length parts < 3 \<or> parts ! 0 \<noteq> ''INIT_SS''
           then Some (nm, [(ss_sock, ''400 ERROR: Invalid INIT_SS'')])
           else do {
             let client_port = atoi (parts ! 1);
             nm \<leftarrow> add_ss nm ss_sock ss_ip client_port;
             let file_list_str = tl (butlast (parts ! 2));
             Some (nm\<lparr>nm_file_table :=
                       (if 0 < length file_list_str
                        then ss_files_online (nm_file_table nm) ss_ip client_port (split_string '','' file_list_str)
                        else nm_file_table nm)\<rparr>, [])
           })"

text \<open>One message of a storage server.\<close>

definition nm_ss_message :: "Env \<Rightarrow> NameServer \<Rightarrow> string \<Rightarrow> NameServer" where
  "nm_ss_message env nm bytes =
     (let parts = split_string '' '' (cstr bytes)
      in if length parts < 2 then nm
         else if parts ! 0 = ''INFO_UPDATE'' \<and> length parts = 5 then
           (case ht_get (nm_file_table nm) (parts ! 1) of
              None \<Rightarrow> nm
            | Some meta \<Rightarrow> nm_save_files (nm\<lparr>nm_file_table := ht_update (nm_file_table nm) (parts ! 1)
                (\<lambda>m. m\<lparr>fm_size := atol (parts ! 2), fm_word_count := atoi (parts ! 3),
                      fm_char_count := atoi (parts ! 4), fm_last_modified := env_clock env 0\<rparr>)\<rparr>))
         else nm)"

fun nm_handle_ss_messages :: "NameServer \<Rightarrow> c_int \<Rightarrow> (Env \<times> string) list \<Rightarrow> NameServer" where
  "nm_handle_ss_messages nm ss_sock [] = remove_ss nm ss_sock"
| "nm_handle_ss_messages nm ss_sock ((env, m) # ms) =
     (if m = [] then remove_ss nm ss_sock
      else nm_handle_ss_messages (nm_ss_message env nm m) ss_sock ms)"

section \<open>A new connection\<close>

text \<open>The first message, looked at without taking it, decides what the connection is. A registered
  storage server gets a listener for its messages.\<close>

definition nm_handle_new_connection ::
  "NameServer \<Rightarrow> c_int \<Rightarrow> string \<Rightarrow> (Env \<times> string) list \<Rightarrow> (NameServer \<times> nm_out list) option" where
  "nm_handle_new_connection nm sock ip ms =
     (case ms of
        [] \<Rightarrow> Some (nm, [])
      | (env, m) # rest \<Rightarrow>
          if m = [] then Some (nm, [])
          else if starts_with ''INIT_CLIENT'' (cstr m) then nm_handle_client_request nm sock m rest
          else if starts_with ''INIT_SS'' (cstr m) then
            (case nm_handle_ss_init nm sock ip m of
               None \<Rightarrow> None
             | Some (nm', []) \<Rightarrow> Some (nm_handle_ss_messages nm' sock rest, [])
             | Some (nm', outs) \<Rightarrow> Some (nm', outs))
          else Some (nm, [(sock, ''400 ERROR: Invalid INIT message.'')]))"

end
