(* ===== verification/NM_Laws.thy ===== *)
theory NM_Laws
  imports NM_Handlers
begin

text \<open>
  What the name server promises about its files. \<open>guarded_store\<close> is the interface: a step by a
  user keeps the invariant and every file another user owns. The client commands are its
  instance, so no sequence of commands by other users changes a file's owner, permissions,
  place or statistics.
\<close>

section \<open>The interface\<close>

locale guarded_store =
  fixes step :: "'s \<Rightarrow> 'c \<Rightarrow> ('s \<times> 'o list) option"
    and inv :: "'s \<Rightarrow> bool"
    and view :: "'s \<Rightarrow> 'k \<Rightarrow> 'v option"
    and owner :: "'v \<Rightarrow> 'u" and actor :: "'c \<Rightarrow> 'u"
  assumes step_inv: "inv s \<Longrightarrow> step s c = Some (s', outs) \<Longrightarrow> inv s'"
    and step_guard: "inv s \<Longrightarrow> step s c = Some (s', outs) \<Longrightarrow> view s k = Some v \<Longrightarrow> owner v \<noteq> actor c \<Longrightarrow>
      view s' k = Some v"
begin

lemma run_guard:
  "run_steps step s cs = Some (s', outs) \<Longrightarrow> inv s \<Longrightarrow>
     inv s' \<and> (view s k = Some v \<longrightarrow> (\<forall>c\<in>set cs. actor c \<noteq> owner v) \<longrightarrow> view s' k = Some v)"
proof (induction cs arbitrary: s outs)
  case (Cons c cs)
  then obtain s1 o1 o2 where s1: "step s c = Some (s1, o1)" "run_steps step s1 cs = Some (s', o2)"
    by (auto split: option.splits)
  have "inv s1" using step_inv Cons.prems(2) s1(1) by blast
  moreover have "view s1 k = Some v" if "view s k = Some v" "actor c \<noteq> owner v"
    using step_guard [OF Cons.prems(2) s1(1) that(1)] that(2) by auto
  ultimately show ?case using Cons.IH [OF s1(2)] by auto
qed simp

end

section \<open>The invariant\<close>

definition nm_inv :: "NameServer \<Rightarrow> bool" where
  "nm_inv nm \<longleftrightarrow> ht_inv (nm_file_table nm) \<and> 0 \<le> nm_next_ss_index nm \<and>
     (\<forall>f m. ht_get (nm_file_table nm) f = Some m \<longrightarrow>
        access_inv (fm_access_list m) \<and> length f < MAX_FILENAME_LEN)"

text \<open>A file as the other users may rely on it: everything but the time of the last access.\<close>

definition file_view :: "NameServer \<Rightarrow> string \<Rightarrow> FileMetadata option" where
  "file_view nm f = map_option (\<lambda>m. m\<lparr>fm_last_accessed := 0\<rparr>) (ht_get (nm_file_table nm) f)"

definition guarded_change :: "string \<Rightarrow> NameServer \<Rightarrow> NameServer \<Rightarrow> bool" where
  "guarded_change user nm nm' \<longleftrightarrow> nm_inv nm' \<and>
     (\<forall>f m. file_view nm f = Some m \<longrightarrow> fm_owner m \<noteq> user \<longrightarrow> file_view nm' f = Some m)"

lemma nm_save_files_simps [simp]:
  "nm_file_table (nm_save_files nm) = nm_file_table nm" "nm_next_ss_index (nm_save_files nm) = nm_next_ss_index nm"
  "nm_file_trie (nm_save_files nm) = nm_file_trie nm" "nm_ss_list (nm_save_files nm) = nm_ss_list nm"
  "nm_all_users (nm_save_files nm) = nm_all_users nm" "nm_client_list (nm_save_files nm) = nm_client_list nm"
  by (simp_all add: nm_save_files_def)

lemma nm_inv_cong:
  "nm_file_table a = nm_file_table b \<Longrightarrow> 0 \<le> nm_next_ss_index a \<Longrightarrow> nm_inv b \<Longrightarrow> nm_inv a"
  by (simp add: nm_inv_def)

lemma guarded_refl [simp]: "guarded_change user nm nm \<longleftrightarrow> nm_inv nm"
  by (simp add: guarded_change_def)

lemma get_ss_keeps:
  "get_ss_for_new_file nm = (nm', ss) \<Longrightarrow> nm_inv nm \<Longrightarrow>
     nm_inv nm' \<and> nm_file_table nm' = nm_file_table nm \<and> nm_file_trie nm' = nm_file_trie nm \<and>
     nm_ss_list nm' = nm_ss_list nm \<and> nm_fs nm' = nm_fs nm"
  by (auto simp: get_ss_for_new_file_def nm_inv_def Let_def split: if_splits)

section \<open>The handlers\<close>

lemma handle_view_same: "handle_view env nm k u args = Some (nm', outs) \<Longrightarrow> nm' = nm"
  by (auto simp: handle_view_def Let_def split: Option.bind_splits if_splits)

lemma handle_info_same: "handle_info env nm k u args = Some (nm', outs) \<Longrightarrow> nm' = nm"
  by (auto simp: handle_info_def Let_def split: option.splits if_splits)

lemma handle_list_same: "handle_list nm k = Some (nm', outs) \<Longrightarrow> nm' = nm"
  by (auto simp: handle_list_def)

lemma handle_exec_same: "handle_exec env nm k u args = (nm', outs) \<Longrightarrow> nm' = nm"
  by (auto simp: handle_exec_def Let_def split: option.splits if_splits)

text \<open>A write through a looked-up entry that keeps the name and a sound access list.\<close>

lemma nm_inv_update:
  assumes "nm_inv nm" "\<And>m. fm_filename (g m) = fm_filename m"
    and "\<And>m. ht_get (nm_file_table nm) f = Some m \<Longrightarrow> access_inv (fm_access_list (g m))"
  shows "nm_inv (nm\<lparr>nm_file_table := ht_update (nm_file_table nm) f g\<rparr>)"
  using assms ht.inv_update [of "nm_file_table nm" g f] ht.lookup_update [of g "nm_file_table nm" f]
  by (auto simp: nm_inv_def split: if_splits)

lemma file_view_update:
  "(\<And>m. fm_filename (g m) = fm_filename m) \<Longrightarrow>
     file_view (nm\<lparr>nm_file_table := ht_update (nm_file_table nm) f g\<rparr>) h =
       (if h = f then map_option (\<lambda>m. (g m)\<lparr>fm_last_accessed := 0\<rparr>) (ht_get (nm_file_table nm) f) else file_view nm h)"
  using ht.lookup_update [of g "nm_file_table nm" f] by (simp add: file_view_def option.map_comp comp_def)

lemma handle_rws_guarded:
  assumes "handle_read_write_stream env nm k u args = (nm', outs)" "nm_inv nm"
  shows "guarded_change u nm nm'"
proof -
  let ?g = "\<lambda>m. m\<lparr>fm_last_accessed := env_clock env 0\<rparr>"
  have "nm' = nm \<or> nm' = nm\<lparr>nm_file_table := ht_update (nm_file_table nm) (args ! 1) ?g\<rparr>"
    using assms(1) by (auto simp: handle_read_write_stream_def Let_def split: option.splits if_splits)
  moreover have "nm_inv (nm\<lparr>nm_file_table := ht_update (nm_file_table nm) (args ! 1) ?g\<rparr>)"
    using assms(2) by (intro nm_inv_update) (auto simp: nm_inv_def)
  moreover have "file_view (nm\<lparr>nm_file_table := ht_update (nm_file_table nm) (args ! 1) ?g\<rparr>) h = file_view nm h" for h
    by (subst file_view_update) (auto simp: file_view_def)
  ultimately show ?thesis using assms(2) by (auto simp: guarded_change_def)
qed

lemma new_file_simps [simp]:
  "fm_filename (new_file env u f acl ss) = take (MAX_FILENAME_LEN - 1) f"
  "fm_owner (new_file env u f acl ss) = take (MAX_USERNAME_LEN - 1) u"
  "fm_access_list (new_file env u f acl ss) = acl"
  by (simp_all add: new_file_def strncpy_zeroed_def)

lemma handle_create_cases:
  assumes "handle_create env nm k u f = Some (nm', outs)"
  obtains (exists) "ht_get (nm_file_table nm) f \<noteq> None" "nm' = nm" "outs = [(k, ''409 ERROR: File already exists.'')]"
  | (no_server) "ht_get (nm_file_table nm) f = None" "get_ss_for_new_file nm = (nm', None)"
      "outs = [(k, ''503 ERROR: No storage servers available.'')]"
  | (created) nm1 ss acl where "ht_get (nm_file_table nm) f = None" "get_ss_for_new_file nm = (nm1, Some ss)"
      "add_access [] u (CHR ''W'') = Some acl"
      "nm' = nm_save_files (nm1\<lparr>nm_file_table := fst (ht_insert (nm_file_table nm1) (new_file env u f acl ss)),
         nm_file_trie := trie_insert (nm_file_trie nm1) f\<rparr>)"
      "outs = [(si_socket ss, snprintf BUFFER_SIZE (''CREATE '' @ f)), (k, ''201 OK: File created successfully!'')]"
proof (cases "ht_get (nm_file_table nm) f")
  case None
  obtain nm1 ssopt where g: "get_ss_for_new_file nm = (nm1, ssopt)" by (cases "get_ss_for_new_file nm")
  show ?thesis
  proof (cases ssopt)
    case None
    then show ?thesis using assms \<open>ht_get (nm_file_table nm) f = None\<close> g
      by (intro no_server) (simp_all add: handle_create_def)
  next
    case (Some ss)
    then obtain acl where "add_access [] u (CHR ''W'') = Some acl"
      using assms None g by (auto simp: handle_create_def split: option.splits)
    then show ?thesis using assms None g Some by (intro created) (auto simp: handle_create_def Let_def)
  qed
next
  case (Some m)
  then show ?thesis using assms by (intro exists) (simp_all add: handle_create_def)
qed

lemma handle_create_guarded:
  assumes "handle_create env nm k u f = Some (nm', outs)" "nm_inv nm"
  shows "guarded_change u nm nm'"
  using assms(1)
proof (cases rule: handle_create_cases)
  case no_server
  then show ?thesis using get_ss_keeps [OF no_server(2) assms(2)] by (simp add: guarded_change_def file_view_def)
next
  case (created nm1 ss acl)
  let ?meta = "new_file env u f acl ss"
  note keep = get_ss_keeps [OF created(2) assms(2)]
  have acl: "access_inv acl" using acl.inv_grant [OF acl.inv_empty created(3)] .
  have get: "ht_get (nm_file_table nm') n = (if ht_get (nm_file_table nm) (fm_filename ?meta) = None \<and>
      n = fm_filename ?meta then Some ?meta else ht_get (nm_file_table nm) n)" for n
    using created(4) keep by (simp add: ht.lookup_insert_if del: new_file_simps)
  have "length (fm_filename ?meta) < MAX_FILENAME_LEN" by simp
  then have "nm_inv nm'"
    using created(4) keep acl get ht.inv_insert [of "nm_file_table nm1" ?meta]
    by (auto simp: nm_inv_def split: if_splits)
  moreover have "file_view nm n = Some m \<Longrightarrow> file_view nm' n = Some m" for n m
    by (auto simp: file_view_def get simp del: new_file_simps)
  ultimately show ?thesis by (simp add: guarded_change_def)
qed (use assms(2) in simp)

lemma handle_delete_guarded:
  assumes "handle_delete nm k u f = (nm', outs)" "nm_inv nm"
  shows "guarded_change u nm nm'"
proof (cases "nm' = nm")
  case False
  then obtain m where m: "ht_get (nm_file_table nm) f = Some m" "fm_owner m = u"
    "nm_file_table nm' = ht_delete (nm_file_table nm) f" "nm_next_ss_index nm' = nm_next_ss_index nm"
    using assms(1) by (auto simp: handle_delete_def Let_def split: option.splits if_splits)
  have inv: "ht_inv (nm_file_table nm)" using assms(2) by (simp add: nm_inv_def)
  have get: "ht_get (nm_file_table nm') n = (if n = f then None else ht_get (nm_file_table nm) n)" for n
    using m(3) ht.lookup_delete [OF inv, of f] by simp
  have "nm_inv nm'"
    using m(3,4) get assms(2) ht.inv_delete [OF inv, of f] by (auto simp: nm_inv_def split: if_splits)
  moreover have "file_view nm n = Some v \<Longrightarrow> fm_owner v \<noteq> u \<Longrightarrow> file_view nm' n = Some v" for n v
    using m(1,2) by (auto simp: file_view_def get)
  ultimately show ?thesis by (simp add: guarded_change_def)
qed (use assms(2) in simp)

lemma handle_access_guarded:
  assumes "handle_access nm k u args = Some (nm', outs)" "nm_inv nm"
  shows "guarded_change u nm nm'"
proof (cases "nm' = nm")
  case False
  then obtain f target grant m acl where m: "parse_access args = Inr (f, target, grant)"
    "ht_get (nm_file_table nm) f = Some m" "fm_owner m = u"
    "(case grant of Some p \<Rightarrow> add_access (fm_access_list m) target p
      | None \<Rightarrow> Some (remove_access (fm_access_list m) target)) = Some acl"
    "nm' = nm_save_files (nm\<lparr>nm_file_table := ht_update (nm_file_table nm) f (\<lambda>m. m\<lparr>fm_access_list := acl\<rparr>)\<rparr>)"
    using assms(1)
    by (fastforce simp: handle_access_def split: sum.splits option.splits if_splits)
  let ?n = "nm\<lparr>nm_file_table := ht_update (nm_file_table nm) f (\<lambda>m. m\<lparr>fm_access_list := acl\<rparr>)\<rparr>"
  have "access_inv (fm_access_list m)" using assms(2) m(2) by (auto simp: nm_inv_def)
  then have "access_inv acl"
    using m(4) acl.inv_grant acl.inv_revoke by (auto split: option.splits)
  then have "nm_inv ?n" using assms(2) by (intro nm_inv_update) auto
  moreover have "file_view nm n = Some v \<Longrightarrow> fm_owner v \<noteq> u \<Longrightarrow> file_view ?n n = Some v" for n v
    using m(2,3) by (subst file_view_update) (auto simp: file_view_def)
  ultimately show ?thesis
    using m(5) by (simp add: guarded_change_def nm_inv_def file_view_def)
qed (use assms(2) in simp)

text \<open>The commands that can change the state.\<close>

lemma nm_client_command_cases:
  assumes "nm_client_command env nm k u bytes = Some (nm', outs)"
  obtains (same) "nm' = nm"
  | (create) f where "handle_create env nm k u f = Some (nm', outs)"
  | (delete) f where "handle_delete nm k u f = (nm', outs)"
  | (address) args where "handle_read_write_stream env nm k u args = (nm', outs)"
  | (access) args where "handle_access nm k u args = Some (nm', outs)"
proof -
  define args where "args = split_string '' '' (trim_newline (cstr bytes))"
  have "nm' = nm \<or> (\<exists>f. handle_create env nm k u f = Some (nm', outs)) \<or>
    (\<exists>f. handle_delete nm k u f = (nm', outs)) \<or> handle_read_write_stream env nm k u args = (nm', outs) \<or>
    handle_access nm k u args = Some (nm', outs)"
    using assms handle_view_same [of env nm k u args nm' outs] handle_info_same [of env nm k u args nm' outs]
      handle_list_same [of nm k nm' outs] handle_exec_same [of env nm k u args nm' outs]
    unfolding nm_client_command_def args_def [symmetric] Let_def handle_create_delete_def
    by (auto split: if_splits)
  then show thesis using same create delete address access by blast
qed

lemma nm_client_command_guarded:
  assumes "nm_client_command env nm k u bytes = Some (nm', outs)" "nm_inv nm"
  shows "guarded_change u nm nm'"
  using assms(1)
proof (cases rule: nm_client_command_cases)
qed (use assms(2) handle_create_guarded handle_delete_guarded handle_rws_guarded handle_access_guarded
  in \<open>auto\<close>)

text \<open>One client command as a step: the user of the session is the actor.\<close>

datatype client_command = ClientCommand (cc_env: Env) (cc_sock: c_int) (cc_user: string) (cc_bytes: string)

definition nm_step :: "NameServer \<Rightarrow> client_command \<Rightarrow> (NameServer \<times> nm_out list) option" where
  "nm_step nm c = nm_client_command (cc_env c) nm (cc_sock c) (cc_user c) (cc_bytes c)"

interpretation nm_files: guarded_store nm_step nm_inv file_view fm_owner cc_user
proof unfold_locales
  fix s s' :: NameServer and c outs
  assume inv: "nm_inv s" and step: "nm_step s c = Some (s', outs)"
  have g: "guarded_change (cc_user c) s s'"
    using nm_client_command_guarded [OF step [unfolded nm_step_def] inv] .
  then show "nm_inv s'" by (simp add: guarded_change_def)
  show "file_view s k = Some v \<Longrightarrow> fm_owner v \<noteq> cc_user c \<Longrightarrow> file_view s' k = Some v" for k v
    using g by (simp add: guarded_change_def)
qed

section \<open>The disk follows the table\<close>

lemma map_ht_files_update:
  assumes "\<And>m. h (g m) = h m"
  shows "map h (ht_files (ht_update t f g)) = map h (ht_files t)"
proof -
  have "map h (update_first P g xs) = map h xs" for P xs
    using map_update_first_key [of h g, OF assms] .
  then have "map h (buckets (ht_update t f g) i) = map h (buckets t i)" for i
    by (simp add: ht_update_def Let_def)
  then show ?thesis by (simp add: ht_files_def map_concat comp_def)
qed

lemma files_saved_save: "fs_writable (nm_fs nm) NM_FILES_FILE \<Longrightarrow> files_saved (nm_save_files nm)"
  by (simp add: files_saved_def nm_save_files_def fs_write_def)

lemma writable_save [simp]: "fs_writable (nm_fs (nm_save_files nm)) = fs_writable (nm_fs nm)"
  by (simp add: nm_save_files_def fs_write_def)

lemma users_saved_save_files [simp]: "users_saved (nm_save_files nm) = users_saved nm"
  by (simp add: users_saved_def nm_save_files_def fs_write_def NM_FILES_FILE_def NM_USERS_FILE_def)

text \<open>The disk part of the state: both files written, and writable again.\<close>

definition disk_inv :: "NameServer \<Rightarrow> bool" where
  "disk_inv nm \<longleftrightarrow> files_saved nm \<and> users_saved nm \<and>
     fs_writable (nm_fs nm) NM_FILES_FILE \<and> fs_writable (nm_fs nm) NM_USERS_FILE"

lemma disk_inv_save:
  "nm_fs a = nm_fs b \<Longrightarrow> nm_all_users a = nm_all_users b \<Longrightarrow> disk_inv b \<Longrightarrow> disk_inv (nm_save_files a)"
proof -
  assume "nm_fs a = nm_fs b" "nm_all_users a = nm_all_users b" "disk_inv b"
  moreover from this have "users_saved a" by (simp add: disk_inv_def users_saved_def)
  ultimately show "disk_inv (nm_save_files a)" using files_saved_save [of a] by (simp add: disk_inv_def)
qed

lemma nm_client_command_disk:
  assumes "nm_client_command env nm k u bytes = Some (nm', outs)" "disk_inv nm"
  shows "disk_inv nm'"
  using assms(1)
proof (cases rule: nm_client_command_cases)
  case (create f)
  have keep: "get_ss_for_new_file nm = (n, s) \<Longrightarrow> nm_fs n = nm_fs nm \<and> nm_all_users n = nm_all_users nm \<and>
      nm_file_table n = nm_file_table nm" for n s
    by (auto simp: get_ss_for_new_file_def Let_def split: if_splits)
  from create show ?thesis
  proof (cases rule: handle_create_cases)
    case no_server
    then show ?thesis using keep [OF no_server(2)] assms(2)
      by (simp add: disk_inv_def files_saved_def users_saved_def)
  next
    case (created nm1 ss acl)
    show ?thesis unfolding created(4) using keep [OF created(2)] by (intro disk_inv_save [OF _ _ assms(2)]) simp_all
  qed (use assms(2) in simp)
next
  case (delete f)
  have "nm' = nm \<or> (\<exists>t r. nm' = nm_save_files (nm\<lparr>nm_file_table := t, nm_file_trie := r\<rparr>))"
    using delete by (auto simp: handle_delete_def Let_def split: option.splits if_splits)
  moreover have "disk_inv (nm_save_files (nm\<lparr>nm_file_table := t, nm_file_trie := r\<rparr>))" for t r
    by (rule disk_inv_save [OF _ _ assms(2)]) simp_all
  ultimately show ?thesis using assms(2) by blast
next
  case (address args)
  let ?g = "\<lambda>m. m\<lparr>fm_last_accessed := env_clock env 0\<rparr>"
  have "nm' = nm \<or> nm' = nm\<lparr>nm_file_table := ht_update (nm_file_table nm) (args ! 1) ?g\<rparr>"
    using address by (auto simp: handle_read_write_stream_def Let_def split: option.splits if_splits)
  moreover have "map render_file (ht_files (ht_update (nm_file_table nm) (args ! 1) ?g)) =
      map render_file (ht_files (nm_file_table nm))"
    by (rule map_ht_files_update) (simp add: render_file_def)
  ultimately show ?thesis using assms(2) by (auto simp: disk_inv_def files_saved_def users_saved_def)
next
  case (access args)
  have "nm' = nm \<or> (\<exists>t. nm' = nm_save_files (nm\<lparr>nm_file_table := t\<rparr>))"
    using access by (auto simp: handle_access_def split: sum.splits option.splits if_splits)
  moreover have "disk_inv (nm_save_files (nm\<lparr>nm_file_table := t\<rparr>))" for t
    by (rule disk_inv_save [OF _ _ assms(2)]) simp_all
  ultimately show ?thesis using assms(2) by blast
qed (use assms(2) in simp)

lemma nm_run_disk: "run_steps nm_step nm cs = Some (nm', outs) \<Longrightarrow> disk_inv nm \<Longrightarrow> disk_inv nm'"
proof (induction cs arbitrary: nm outs)
  case (Cons c cs)
  then obtain n1 o1 o2 where "nm_step nm c = Some (n1, o1)" "run_steps nm_step n1 cs = Some (nm', o2)"
    by (auto split: option.splits)
  then show ?case using Cons nm_client_command_disk unfolding nm_step_def by blast
qed simp

section \<open>Lookups after the handlers\<close>

lemma handle_create_new:
  assumes "nm_inv nm" "ht_get (nm_file_table nm) f = None" "nm_ss_list nm \<noteq> []"
    and "length u < MAX_USERNAME_LEN - 1"
  shows "\<exists>nm' acl. handle_create env nm k u f = Some (nm',
      [(si_socket (nm_ss_list nm ! first_index nm), snprintf BUFFER_SIZE (''CREATE '' @ f)),
       (k, ''201 OK: File created successfully!'')]) \<and>
    add_access [] u (CHR ''W'') = Some acl \<and>
    (\<forall>n. ht_get (nm_file_table nm') n =
      (if ht_get (nm_file_table nm) (take (MAX_FILENAME_LEN - 1) f) = None \<and> n = take (MAX_FILENAME_LEN - 1) f
       then Some (new_file env u f acl (nm_ss_list nm ! first_index nm)) else ht_get (nm_file_table nm) n)) \<and>
    nm_inv nm' \<and> nm_ss_list nm' = nm_ss_list nm \<and> (fs_writable (nm_fs nm) NM_FILES_FILE \<longrightarrow> files_saved nm')"
proof -
  have "0 \<le> nm_next_ss_index nm" using assms(1) by (simp add: nm_inv_def)
  then obtain nm1 where nm1: "get_ss_for_new_file nm = (nm1, Some (nm_ss_list nm ! first_index nm))"
    using get_ss_for_new_file_step [OF assms(3)] by blast
  have "add_access [] u (CHR ''W'') \<noteq> None" using assms(4) by (simp add: add_access_None_iff)
  then obtain acl where acl: "add_access [] u (CHR ''W'') = Some acl" by auto
  let ?meta = "new_file env u f acl (nm_ss_list nm ! first_index nm)"
  let ?nm' = "nm_save_files (nm1\<lparr>nm_file_table := fst (ht_insert (nm_file_table nm1) ?meta),
      nm_file_trie := trie_insert (nm_file_trie nm1) f\<rparr>)"
  have handler: "handle_create env nm k u f = Some (?nm',
      [(si_socket (nm_ss_list nm ! first_index nm), snprintf BUFFER_SIZE (''CREATE '' @ f)),
       (k, ''201 OK: File created successfully!'')])"
    using assms(2) nm1 acl by (simp add: handle_create_def Let_def)
  note keep = get_ss_keeps [OF nm1 assms(1)]
  have get: "ht_get (nm_file_table ?nm') n =
      (if ht_get (nm_file_table nm) (take (MAX_FILENAME_LEN - 1) f) = None \<and> n = take (MAX_FILENAME_LEN - 1) f
       then Some ?meta else ht_get (nm_file_table nm) n)" for n
    using keep by (simp add: ht.lookup_insert_if)
  have "nm_inv ?nm'" using handle_create_guarded [OF handler assms(1)] by (simp add: guarded_change_def)
  moreover have "nm_ss_list ?nm' = nm_ss_list nm" using keep by simp
  moreover have "fs_writable (nm_fs nm) NM_FILES_FILE \<longrightarrow> files_saved ?nm'"
    using keep by (intro impI files_saved_save) simp
  ultimately show ?thesis using handler acl get by blast
qed

lemma owner_acl:
  "add_access [] u (CHR ''W'') = Some acl \<Longrightarrow> get_access acl v = (if v = u then CHR ''W'' else CHR 0x00)"
  using acl.get_grant [of "[]" u "CHR ''W''" acl v] acl.get_empty by simp

lemma handle_access_owner:
  assumes "ht_get (nm_file_table nm) f = Some m" "fm_owner m = u" "parse_access args = Inr (f, v, grant)"
    and "(case grant of Some p \<Rightarrow> add_access (fm_access_list m) v p
      | None \<Rightarrow> Some (remove_access (fm_access_list m) v)) = Some acl"
  shows "\<exists>nm'. handle_access nm k u args = Some (nm',
      [(k, if grant = None then ''200 OK: Access removed.'' else ''200 OK: Access granted.'')]) \<and>
    (\<forall>n. ht_get (nm_file_table nm') n = (if n = f then Some (m\<lparr>fm_access_list := acl\<rparr>) else ht_get (nm_file_table nm) n)) \<and>
    (fs_writable (nm_fs nm) NM_FILES_FILE \<longrightarrow> files_saved nm')"
proof -
  let ?g = "\<lambda>m. m\<lparr>fm_access_list := acl\<rparr>"
  let ?nm' = "nm_save_files (nm\<lparr>nm_file_table := ht_update (nm_file_table nm) f ?g\<rparr>)"
  have "handle_access nm k u args = Some (?nm',
      [(k, if grant = None then ''200 OK: Access removed.'' else ''200 OK: Access granted.'')])"
    using assms by (auto simp: handle_access_def split: option.splits)
  moreover have "ht_get (nm_file_table ?nm') n = (if n = f then Some (?g m) else ht_get (nm_file_table nm) n)" for n
    using ht.lookup_update [of ?g "nm_file_table nm" f] assms(1) by simp
  ultimately show ?thesis using files_saved_save by fastforce
qed

section \<open>Properties\<close>

text \<open>C6. Nobody but the owner changes a file: over any sequence of commands by other users the
  file stays, with the same owner, permissions, location, statistics and creation and
  modification times (only the time of the last access may move).\<close>

theorem only_owner_changes_file:
  assumes "nm_inv nm" "run_steps nm_step nm cs = Some (nm', outs)"
    and "file_view nm f = Some m" "\<forall>c\<in>set cs. cc_user c \<noteq> fm_owner m"
  shows "file_view nm' f = Some m \<and> nm_inv nm'"
  using nm_files.run_guard [OF assms(2,1)] assms(3,4) by blast

definition demo_env :: Env where
  "demo_env = \<lparr>env_clock = (\<lambda>k. 100 + int k), env_strftime = (\<lambda>_ _. []), env_connect = (\<lambda>_ _. True),
     env_fetch = (\<lambda>_ _ _. []), env_tmp = True, env_run = (\<lambda>_. None)\<rparr>"

lemma demo_nm_inv: "nm_inv demo_nm"
proof -
  have "ht_get (nm_file_table demo_nm) f = Some m \<Longrightarrow> f = ''f'' \<and> m = demo_meta" for f m
    by (auto simp: demo_nm_def ht.lookup_insert_if ht.lookup_empty demo_meta_def split: if_splits)
  moreover have "access_inv (fm_access_list demo_meta)" by (simp add: demo_meta_def access_inv_def)
  moreover have "nm_next_ss_index demo_nm = 0" by (simp add: demo_nm_def)
  ultimately show ?thesis using demo_nm_facts(1) unfolding nm_inv_def by fastforce
qed

lemma demo_delete:
  "nm_client_command demo_env demo_nm 7 ''al'' ''DELETE f'' =
     Some (demo_nm, [(7, ''401 ERROR: Only the owner can delete a file.'')])"
proof -
  have "split_string '' '' (trim_newline (cstr ''DELETE f'')) = [''DELETE'', ''f'']" by code_simp
  moreover have "fm_owner demo_meta = ''bob''" by (simp add: demo_meta_def)
  ultimately show ?thesis
    by (simp add: nm_client_command_def Let_def handle_create_delete_def handle_delete_def demo_nm_facts)
qed

theorem only_owner_changes_file_witness:
  "\<exists>nm' outs. run_steps nm_step demo_nm [ClientCommand demo_env 7 ''al'' ''DELETE f''] = Some (nm', outs) \<and>
     file_view nm' ''f'' = Some (demo_meta\<lparr>fm_last_accessed := 0\<rparr>)"
proof -
  have run: "run_steps nm_step demo_nm [ClientCommand demo_env 7 ''al'' ''DELETE f''] =
      Some (demo_nm, [(7, ''401 ERROR: Only the owner can delete a file.'')])"
    by (simp add: nm_step_def demo_delete)
  have "file_view demo_nm ''f'' = Some (demo_meta\<lparr>fm_last_accessed := 0\<rparr>)"
    by (simp add: file_view_def demo_nm_facts)
  then show ?thesis using only_owner_changes_file [OF demo_nm_inv run] run by (simp add: demo_meta_def)
qed

text \<open>The name server gives out the address of a file exactly to users with the permission the
  command needs, \<open>W\<close> for WRITE and UNDO, \<open>R\<close> otherwise, and only while the file's storage
  server is connected.\<close>

theorem address_only_with_permission:
  assumes "2 \<le> length args" "handle_read_write_stream env nm client_sock username args = (nm', outs)"
  shows "(\<exists>text. outs = [(client_sock, ''202 OK '' @ text)]) \<longleftrightarrow>
    (\<exists>m. ht_get (nm_file_table nm) (args ! 1) = Some m \<and>
       check_access m username (if args ! 0 = ''WRITE'' \<or> args ! 0 = ''UNDO'' then CHR ''W'' else CHR ''R'') \<and>
       (\<exists>ss\<in>set (nm_ss_list nm). si_ip ss = fm_ss_ip m \<and> si_client_port ss = fm_ss_client_port m))"
proof (cases "ht_get (nm_file_table nm) (args ! 1)")
  case None
  then show ?thesis using assms by (auto simp: handle_read_write_stream_def)
next
  case (Some m)
  have online: "find_ss nm' m \<noteq> None \<longleftrightarrow>
      (\<exists>ss\<in>set (nm_ss_list nm'). si_ip ss = fm_ss_ip m \<and> si_client_port ss = fm_ss_client_port m)" for nm'
    by (auto simp: find_ss_def find_None_iff)
  show ?thesis
  proof (cases "check_access m username (if args ! 0 = ''WRITE'' \<or> args ! 0 = ''UNDO'' then CHR ''W'' else CHR ''R'')")
    case False
    then show ?thesis using assms Some by (auto simp: handle_read_write_stream_def Let_def)
  next
    case True
    let ?nm1 = "nm\<lparr>nm_file_table := ht_update (nm_file_table nm) (args ! 1) (\<lambda>m. m\<lparr>fm_last_accessed := env_clock env 0\<rparr>)\<rparr>"
    have "snprintf BUFFER_SIZE (''202 OK '' @ t) = ''202 OK '' @ take (BUFFER_SIZE - 8) t" for t
      by (simp add: snprintf_def)
    then have "outs = [(client_sock, if find_ss ?nm1 m = None then ''503 ERROR: Storage server for this file is offline.''
        else ''202 OK '' @ take (BUFFER_SIZE - 8) (fm_ss_ip m @ '':'' @ show_int (fm_ss_client_port m)))]"
      using assms Some True by (auto simp: handle_read_write_stream_def Let_def)
    then show ?thesis using online [of ?nm1] Some True by auto
  qed
qed

theorem address_only_with_permission_witness:
  "\<nexists>text. snd (handle_read_write_stream demo_env demo_nm 7 ''al'' [''WRITE'', ''f'', ''0'']) = [(7, ''202 OK '' @ text)]"
proof -
  obtain nm' outs where h: "handle_read_write_stream demo_env demo_nm 7 ''al'' [''WRITE'', ''f'', ''0''] = (nm', outs)"
    by fastforce
  have "\<not> check_access demo_meta ''al'' (CHR ''W'')" by (simp add: check_access_def demo_meta_def get_access_def)
  then show ?thesis using address_only_with_permission [OF _ h] h by (simp add: demo_nm_facts)
qed

end
