(* ===== verification/NM_Commands.thy ===== *)
theory NM_Commands
  imports NM_Laws
begin

text \<open>
  What the single client commands of the name server achieve: the life of a file (CREATE, DELETE),
  its permissions (ADDACCESS, REMACCESS), the listings (VIEW, LIST) and their buffers, and the
  recovery of the server from its disk after any sequence of commands.
\<close>

section \<open>Deleting what was created\<close>

lemma handle_delete_owner:
  assumes "nm_inv nm" "ht_get (nm_file_table nm) f = Some m" "fm_owner m = u"
  shows "\<exists>nm' notify. handle_delete nm k u f = (nm', notify @ [(k, ''200 OK: File deleted successfully.'')]) \<and>
    ht_get (nm_file_table nm') = (ht_get (nm_file_table nm))(f := None) \<and> nm_inv nm' \<and>
    \<not> trie_search (nm_file_trie nm') f"
proof -
  have inv: "ht_inv (nm_file_table nm)" using assms(1) by (simp add: nm_inv_def)
  obtain nm' outs where h: "handle_delete nm k u f = (nm', outs)" by fastforce
  then obtain notify where "outs = notify @ [(k, ''200 OK: File deleted successfully.'')]"
    "nm_file_table nm' = ht_delete (nm_file_table nm) f" "nm_file_trie nm' = trie_delete (nm_file_trie nm) f"
    using assms(2,3) by (auto simp: handle_delete_def Let_def)
  moreover have "ht_get (ht_delete (nm_file_table nm) f) = (ht_get (nm_file_table nm))(f := None)"
    using ht.lookup_delete [OF inv] by (auto simp: fun_eq_iff)
  moreover have "nm_inv nm'" using handle_delete_guarded [OF h assms(1)] by (simp add: guarded_change_def)
  ultimately show ?thesis using h by (simp add: trie_search_delete)
qed

section \<open>Buffers\<close>

lemma strcat_all_eq:
  "strcat_all n buf ss =
     (if ss = [] \<or> length (buf @ concat ss) < n then Some (buf @ concat ss) else None)"
proof (induction ss arbitrary: buf)
  case (Cons s ss)
  show ?case using Cons.IH [of "buf @ s"] by (auto simp: strcat_def)
qed simp

text \<open>The names VIEW lists, and the text without details.\<close>

definition viewed :: "bool \<Rightarrow> string \<Rightarrow> NameServer \<Rightarrow> FileMetadata list" where
  "viewed show_all u nm = filter (\<lambda>m. show_all \<or> check_access m u (CHR ''R'')) (ht_files (nm_file_table nm))"

lemma view_loop_eq:
  "view_loop env u al False ms r =
     (let t = concat (map (\<lambda>m. fm_filename m @ [CHR 0x0A]) (filter (\<lambda>m. al \<or> check_access m u (CHR ''R'')) ms))
      in if t = [] \<or> length (r @ t) < VIEW_BUFFER then Some (r @ t) else None)"
proof (induction ms arbitrary: r)
  case (Cons m ms)
  show ?case
  proof (cases "al \<or> check_access m u (CHR ''R'')")
    case True
    then show ?thesis using Cons.IH [of "r @ fm_filename m @ [CHR 0x0A]"]
      by (auto simp: strcat_def Let_def)
  next
    case False
    then show ?thesis using Cons.IH [of r] by simp
  qed
qed simp

lemma viewed_iff:
  assumes "nm_inv nm"
  shows "m \<in> set (viewed al u nm) \<longleftrightarrow>
    ht_get (nm_file_table nm) (fm_filename m) = Some m \<and> (al \<or> check_access m u (CHR ''R''))"
  using assms by (auto simp: viewed_def ht_files_iff nm_inv_def)

lemma ht_get_name: "ht_get t f = Some m \<Longrightarrow> fm_filename m = f"
  unfolding ht_get_def by (rule find_key_SomeD [THEN conjunct2]) (assumption | simp)+

lemma concat_lines_empty: "concat (map (\<lambda>m. x m @ [CHR 0x0A]) ms) = [] \<longleftrightarrow> ms = []"
  by (cases ms) simp_all

lemma handle_view_lists:
  assumes "flags = [] \<and> \<not> al \<or> flags = [''-a''] \<and> al"
  shows "handle_view env nm k u (''VIEW'' # flags) =
      (let text = concat (map (\<lambda>m. fm_filename m @ [CHR 0x0A]) (viewed al u nm))
       in if BUFFER_SIZE * 10 \<le> length text then None
          else Some (nm, [(k, if viewed al u nm = [] then ''(No files to display)'' @ [CHR 0x0A] else text)]))"
proof -
  have all: "(1 < length (''VIEW'' # flags) \<and> CHR ''a'' \<in> set ((''VIEW'' # flags) ! 1)) = al"
    and details: "(1 < length (''VIEW'' # flags) \<and> CHR ''l'' \<in> set ((''VIEW'' # flags) ! 1)) = False"
    using assms by auto
  show ?thesis
    unfolding handle_view_def all details
    by (simp add: view_loop_eq viewed_def [symmetric] VIEW_BUFFER_def Let_def concat_lines_empty
        del: concat_eq_Nil_conv)
qed

section \<open>Properties\<close>

text \<open>CREATE of a new name with a storage server connected: the file appears with the caller as its
  owner, nobody else has any access, no other entry changes, the storage server whose turn it is
  gets the CREATE before the caller gets the 201, and the new table is on disk.\<close>

theorem create_new_file:
  assumes "nm_inv nm" "ht_get (nm_file_table nm) f = None" "nm_ss_list nm \<noteq> []"
    and "length u < MAX_USERNAME_LEN - 1" "length f < MAX_FILENAME_LEN"
  shows "\<exists>nm' m. handle_create env nm k u f = Some (nm',
      [(si_socket (nm_ss_list nm ! first_index nm), snprintf BUFFER_SIZE (''CREATE '' @ f)),
       (k, ''201 OK: File created successfully!'')]) \<and>
    ht_get (nm_file_table nm') = (ht_get (nm_file_table nm))(f \<mapsto> m) \<and> fm_owner m = u \<and>
    (\<forall>v p. p \<in> {CHR ''R'', CHR ''W''} \<longrightarrow> check_access m v p = (v = u)) \<and>
    (fs_writable (nm_fs nm) NM_FILES_FILE \<longrightarrow> files_saved nm') \<and> nm_inv nm'"
proof -
  obtain nm' acl where c: "handle_create env nm k u f = Some (nm',
      [(si_socket (nm_ss_list nm ! first_index nm), snprintf BUFFER_SIZE (''CREATE '' @ f)),
       (k, ''201 OK: File created successfully!'')])"
    "add_access [] u (CHR ''W'') = Some acl"
    "\<forall>n. ht_get (nm_file_table nm') n =
      (if ht_get (nm_file_table nm) (take (MAX_FILENAME_LEN - 1) f) = None \<and> n = take (MAX_FILENAME_LEN - 1) f
       then Some (new_file env u f acl (nm_ss_list nm ! first_index nm)) else ht_get (nm_file_table nm) n)"
    "nm_inv nm'" "fs_writable (nm_fs nm) NM_FILES_FILE \<longrightarrow> files_saved nm'"
    using handle_create_new [OF assms(1-4)] by blast
  let ?m = "new_file env u f acl (nm_ss_list nm ! first_index nm)"
  have "ht_get (nm_file_table nm') = (ht_get (nm_file_table nm))(f \<mapsto> ?m)"
    using c(3) assms(2,5) by (auto simp: fun_eq_iff)
  moreover have "fm_owner ?m = u" using assms(4) by simp
  moreover have "check_access ?m v p = (v = u)" if "p \<in> {CHR ''R'', CHR ''W''}" for v p
    using that owner_acl [OF c(2), of v] assms(4) by (auto simp: check_access_def Let_def)
  ultimately show ?thesis using c(1,4,5) by blast
qed

definition empty_nm :: NameServer where
  "empty_nm = demo_nm\<lparr>nm_file_table := ht_create\<rparr>"

lemma demo_empty:
  "nm_inv empty_nm" "ht_get (nm_file_table empty_nm) n = None" "nm_ss_list empty_nm \<noteq> []"
  "si_socket (nm_ss_list empty_nm ! first_index empty_nm) = 5"
  unfolding empty_nm_def using ht.inv_empty
  by (simp_all add: nm_inv_def demo_nm_def ht.lookup_empty first_index_def)

theorem create_new_file_witness:
  "\<exists>nm' m. handle_create demo_env empty_nm 7 ''al'' ''n'' = Some (nm',
      [(5, ''CREATE n''), (7, ''201 OK: File created successfully!'')]) \<and>
    ht_get (nm_file_table nm') ''n'' = Some m \<and> \<not> check_access m ''bob'' (CHR ''R'')"
  using create_new_file [OF demo_empty(1-3), of "''al''" "''n''" demo_env 7]
  by (fastforce simp: demo_empty snprintf_def)

text \<open>DELETE by the owner undoes CREATE: the table answers every lookup as before the file was
  created, and the name index no longer finds the name.\<close>

theorem delete_undoes_create:
  assumes "nm_inv nm" "ht_get (nm_file_table nm) f = None" "nm_ss_list nm \<noteq> []"
    and "length u < MAX_USERNAME_LEN - 1" "length f < MAX_FILENAME_LEN"
    and "handle_create env nm k u f = Some (nm', outs)"
  shows "\<exists>nm'' notify. handle_delete nm' k u f = (nm'', notify @ [(k, ''200 OK: File deleted successfully.'')]) \<and>
    ht_get (nm_file_table nm'') = ht_get (nm_file_table nm) \<and> \<not> trie_search (nm_file_trie nm'') f"
proof -
  obtain acl where c: "add_access [] u (CHR ''W'') = Some acl" "nm_inv nm'"
    "\<forall>n. ht_get (nm_file_table nm') n =
      (if ht_get (nm_file_table nm) (take (MAX_FILENAME_LEN - 1) f) = None \<and> n = take (MAX_FILENAME_LEN - 1) f
       then Some (new_file env u f acl (nm_ss_list nm ! first_index nm)) else ht_get (nm_file_table nm) n)"
    using handle_create_new [OF assms(1-4), of env k] assms(6) by auto
  let ?m = "new_file env u f acl (nm_ss_list nm ! first_index nm)"
  have get: "ht_get (nm_file_table nm') = (ht_get (nm_file_table nm))(f \<mapsto> ?m)"
    using c(3) assms(2,5) by (auto simp: fun_eq_iff)
  moreover have "fm_owner ?m = u" using assms(4) by simp
  ultimately obtain nm'' notify where d: "handle_delete nm' k u f = (nm'', notify @ [(k, ''200 OK: File deleted successfully.'')])"
    "ht_get (nm_file_table nm'') = (ht_get (nm_file_table nm'))(f := None)" "\<not> trie_search (nm_file_trie nm'') f"
    using handle_delete_owner [OF c(2), of f ?m u k] by auto
  then have "ht_get (nm_file_table nm'') = ht_get (nm_file_table nm)"
    using get assms(2) by (auto simp: fun_eq_iff)
  then show ?thesis using d(1,3) by blast
qed

theorem delete_undoes_create_witness:
  "\<exists>nm' outs nm'' notify. handle_create demo_env empty_nm 7 ''al'' ''n'' = Some (nm', outs) \<and>
     handle_delete nm' 7 ''al'' ''n'' = (nm'', notify @ [(7, ''200 OK: File deleted successfully.'')]) \<and>
     ht_get (nm_file_table nm'') ''n'' = None"
proof -
  obtain nm' outs where h: "handle_create demo_env empty_nm 7 ''al'' ''n'' = Some (nm', outs)"
    using handle_create_new [OF demo_empty(1-3), of "''al''" demo_env 7 "''n''"] demo_empty(2) by auto
  show ?thesis using delete_undoes_create [OF demo_empty(1-3) _ _ h] h demo_empty(2) by auto
qed




lemma demo_disk_inv: "disk_inv (nm_save_users (nm_save_files demo_nm))"
  using saved_both [of demo_nm] demo_nm_facts(5)
  by (simp add: disk_inv_def nm_save_users_def nm_save_files_def fs_write_def)


text \<open>VIEW lists exactly the files the user may read, or with \<open>-a\<close> all files, each once, and is
  undefined (the buffer overflows) exactly when their names do not fit into 40960 bytes.\<close>

theorem view_lists_readable:
  assumes "nm_inv nm" "flags = [] \<and> \<not> al \<or> flags = [''-a''] \<and> al"
  shows "\<exists>ms. distinct (map fm_filename ms) \<and>
    (\<forall>m. m \<in> set ms \<longleftrightarrow> ht_get (nm_file_table nm) (fm_filename m) = Some m \<and> (al \<or> check_access m u (CHR ''R''))) \<and>
    handle_view env nm k u (''VIEW'' # flags) =
      (let text = concat (map (\<lambda>m. fm_filename m @ [CHR 0x0A]) ms)
       in if BUFFER_SIZE * 10 \<le> length text then None
          else Some (nm, [(k, if ms = [] then ''(No files to display)'' @ [CHR 0x0A] else text)]))"
proof (intro exI [of _ "viewed al u nm"] conjI allI)
  show "distinct (map fm_filename (viewed al u nm))"
    using assms(1) ht_files_distinct unfolding viewed_def nm_inv_def by (intro distinct_map_filter) blast
  show "m \<in> set (viewed al u nm) \<longleftrightarrow>
    ht_get (nm_file_table nm) (fm_filename m) = Some m \<and> (al \<or> check_access m u (CHR ''R''))" for m
    using viewed_iff [OF assms(1)] .
  show "handle_view env nm k u (''VIEW'' # flags) =
      (let text = concat (map (\<lambda>m. fm_filename m @ [CHR 0x0A]) (viewed al u nm))
       in if BUFFER_SIZE * 10 \<le> length text then None
          else Some (nm, [(k, if viewed al u nm = [] then ''(No files to display)'' @ [CHR 0x0A] else text)]))"
    using assms(2) by (rule handle_view_lists)
qed

theorem view_lists_readable_witness:
  "\<exists>ms. handle_view demo_env demo_nm 7 ''al'' [''VIEW''] =
      (let text = concat (map (\<lambda>m. fm_filename m @ [CHR 0x0A]) ms)
       in if BUFFER_SIZE * 10 \<le> length text then None
          else Some (demo_nm, [(7, if ms = [] then ''(No files to display)'' @ [CHR 0x0A] else text)])) \<and>
     demo_meta \<in> set ms"
proof -
  have "check_access demo_meta ''al'' (CHR ''R'')" by code_simp
  moreover have "fm_filename demo_meta = ''f''" by (simp add: demo_meta_def)
  ultimately show ?thesis
    using view_lists_readable [OF demo_nm_inv, of "[]" False "''al''" demo_env 7] demo_nm_facts(2) by auto
qed

text \<open>LIST answers with the users in the order of the list as long as they fit into 8192 bytes;
  beyond that it is undefined (the buffer overflows).\<close>

theorem list_users:
  "handle_list nm k =
     (let text = ''--- Registered Users ---'' @ [CHR 0x0A] @
            concat (map (\<lambda>u. us_username u @ [CHR 0x0A]) (nm_all_users nm))
      in if nm_all_users nm \<noteq> [] \<and> BUFFER_SIZE * 2 \<le> length text then None else Some (nm, [(k, text)]))"
proof -
  have "concat (concat (map (\<lambda>u. [us_username u, [CHR 0x0A]]) us)) = concat (map (\<lambda>u. us_username u @ [CHR 0x0A]) us)"
    for us by (induction us) simp_all
  then show ?thesis by (auto simp: handle_list_def strcat_all_eq Let_def)
qed

text \<open>A name of 256 or more bytes is stored truncated but looked up in full: CREATE of it always
  succeeds, never conflicts, and the file it reports can not be found again.\<close>

theorem long_name_never_conflicts:
  assumes "nm_inv nm" "MAX_FILENAME_LEN \<le> length f" "nm_ss_list nm \<noteq> []" "length u < MAX_USERNAME_LEN - 1"
  shows "\<exists>nm' outs. handle_create env nm k u f = Some (nm', outs @ [(k, ''201 OK: File created successfully!'')]) \<and>
    ht_get (nm_file_table nm') f = None \<and> ht_get (nm_file_table nm') (take 255 f) \<noteq> None \<and>
    nm_inv nm' \<and> nm_ss_list nm' = nm_ss_list nm"
proof -
  have none: "ht_get (nm_file_table nm) f = None"
    using assms(1,2) unfolding nm_inv_def by (cases "ht_get (nm_file_table nm) f") fastforce+
  have neq: "take (MAX_FILENAME_LEN - 1) f \<noteq> f"
  proof
    assume "take (MAX_FILENAME_LEN - 1) f = f"
    then have "length f = min (length f) (MAX_FILENAME_LEN - 1)" by (metis length_take)
    then show False using assms(2) by simp
  qed
  obtain nm' acl where c: "handle_create env nm k u f = Some (nm',
      [(si_socket (nm_ss_list nm ! first_index nm), snprintf BUFFER_SIZE (''CREATE '' @ f)),
       (k, ''201 OK: File created successfully!'')])"
    "\<forall>n. ht_get (nm_file_table nm') n =
      (if ht_get (nm_file_table nm) (take (MAX_FILENAME_LEN - 1) f) = None \<and> n = take (MAX_FILENAME_LEN - 1) f
       then Some (new_file env u f acl (nm_ss_list nm ! first_index nm)) else ht_get (nm_file_table nm) n)"
    "nm_inv nm'" "nm_ss_list nm' = nm_ss_list nm"
    using handle_create_new [OF assms(1) none assms(3,4), of env k] by blast
  have "ht_get (nm_file_table nm') f = None" using c(2) [rule_format, of f] none neq by (metis (full_types))
  moreover have "ht_get (nm_file_table nm') (take 255 f) \<noteq> None" using c(2) by simp
  ultimately show ?thesis using c(1,3,4)
    by (intro exI [of _ nm'] exI [of _ "[(si_socket (nm_ss_list nm ! first_index nm), snprintf BUFFER_SIZE (''CREATE '' @ f))]"])
      simp
qed

theorem long_name_never_conflicts_witness:
  "\<exists>nm' outs. handle_create demo_env demo_nm 7 ''al'' (replicate 300 (CHR ''x'')) =
       Some (nm', outs @ [(7, ''201 OK: File created successfully!'')]) \<and>
     ht_get (nm_file_table nm') (replicate 300 (CHR ''x'')) = None"
proof -
  have "nm_ss_list demo_nm \<noteq> []" by (simp add: demo_nm_def)
  moreover have "MAX_FILENAME_LEN \<le> length (replicate 300 (CHR ''x''))" by simp
  ultimately show ?thesis
    using long_name_never_conflicts [OF demo_nm_inv, of "replicate 300 (CHR ''x'')" "''al''" demo_env 7] by fastforce
qed

end
