(* ===== verification/Distributed_System.thy ===== *)
theory Distributed_System
  imports Commit_Index NM_Commands
begin

text \<open>
  The two servers together: the messages the name server sends to a storage server
  (\<open>CREATE\<close>, \<open>DELETE\<close>) are the ones its listener understands, and the statistics a storage server
  reports after a WRITE or an UNDO are the ones the name server stores.
\<close>

section \<open>Names that survive the messages\<close>

text \<open>Names travel between blanks, so they hold neither blanks nor NULs; the bound keeps every message
  and path within its buffer.\<close>

definition name_ok :: "string \<Rightarrow> bool" where
  "name_ok f \<longleftrightarrow> f \<noteq> [] \<and> CHR '' '' \<notin> set f \<and> CHR 0x00 \<notin> set f \<and> length f < MAX_FILENAME_LEN - 1"

lemma split_command:
  assumes "name_ok f" "cmd \<noteq> []" "CHR '' '' \<notin> set cmd" "CHR 0x00 \<notin> set cmd"
  shows "split_string '' '' (cstr (cmd @ '' '' @ f)) = [cmd, f]"
  using assms by (simp add: name_ok_def split_string_field split_string_last)

lemma split_info_update:
  assumes "name_ok f" "length (''INFO_UPDATE '' @ f @ '' '' @ show_int z @ '' '' @ show_int w @ '' '' @ show_int c) < BUFFER_SIZE"
  shows "split_string '' '' (cstr (info_update f z w c)) = [''INFO_UPDATE'', f, show_int z, show_int w, show_int c]"
proof -
  let ?s = "''INFO_UPDATE'' @ CHR '' '' # f @ CHR '' '' # show_int z @ CHR '' '' # show_int w @ CHR '' '' # show_int c"
  have "info_update f z w c = ?s" using assms(2) by (simp add: info_update_def)
  moreover have "cstr ?s = ?s" using assms(1) by (intro cstr_id) (simp add: name_ok_def)
  moreover have "split_string '' '' ?s = [''INFO_UPDATE'', f, show_int z, show_int w, show_int c]"
    using assms(1) by (subst split_string_field, simp, simp, simp)
      (simp add: name_ok_def split_string_field split_string_last)
  ultimately show ?thesis by simp
qed

text \<open>The printed numbers are short, so the bound holds for every name the system can store.\<close>

lemma length_show_nat: "n < 10 ^ k \<Longrightarrow> 0 < k \<Longrightarrow> length (show_nat n) \<le> k"
proof (induction n arbitrary: k rule: show_nat.induct)
  case (1 n)
  show ?case
  proof (cases "n < 10")
    case True
    then show ?thesis using 1 by (subst show_nat.simps) simp
  next
    case False
    then have k: "0 < k - 1" using 1(2,3) by (cases k) (auto intro: gr0I)
    then have "n div 10 < 10 ^ (k - 1)" using 1(2) by (cases k) auto
    then have "length (show_nat (n div 10)) \<le> k - 1" using 1(1) False k by blast
    then show ?thesis using False k by (subst show_nat.simps) simp
  qed
qed

lemma length_show_int: "is_int64 n \<Longrightarrow> length (show_int n) \<le> 20"
proof -
  assume "is_int64 n"
  then have "nat n < 10 ^ 19" "nat (- n) < 10 ^ 19" by (auto simp: is_int64_def)
  then show ?thesis using length_show_nat [of "nat n" 19] length_show_nat [of "nat (- n)" 19]
    by (simp add: show_int_def)
qed

lemma info_update_fits:
  assumes "name_ok f" "is_int64 z" "is_int64 w" "is_int64 c"
  shows "length (''INFO_UPDATE '' @ f @ '' '' @ show_int z @ '' '' @ show_int w @ '' '' @ show_int c) < BUFFER_SIZE"
  using assms length_show_int [of z] length_show_int [of w] length_show_int [of c]
  by (simp add: name_ok_def)

lemma info_update_stored:
  assumes "name_ok f" "is_int64 z" "is_int32 w" "is_int32 c" "ht_get (nm_file_table nm) f = Some m"
  shows "ht_get (nm_file_table (nm_ss_message env nm (info_update f z w c))) =
    (ht_get (nm_file_table nm))(f \<mapsto> m\<lparr>fm_size := z, fm_word_count := w, fm_char_count := c,
       fm_last_modified := env_clock env 0\<rparr>)"
proof -
  have "is_int64 w" "is_int64 c" using assms(3,4) by (auto simp: is_int32_imp_64)
  note parts = split_info_update [OF assms(1) info_update_fits [OF assms(1,2) this]]
  let ?g = "\<lambda>m. m\<lparr>fm_size := z, fm_word_count := w, fm_char_count := c, fm_last_modified := env_clock env 0\<rparr>"
  have "nm_file_table (nm_ss_message env nm (info_update f z w c)) = ht_update (nm_file_table nm) f ?g"
    using assms(2-5) by (simp add: nm_ss_message_def parts Let_def)
  moreover have "ht_get (ht_update (nm_file_table nm) f ?g) n = (if n = f then Some (?g m) else ht_get (nm_file_table nm) n)" for n
    using ht.lookup_update [of ?g "nm_file_table nm" f] assms(5) by simp
  ultimately show ?thesis by (auto simp: fun_eq_iff)
qed

lemma word_count_loop_bound:
  "word_count_loop s n b = (n', b') \<Longrightarrow>
     n \<le> n' \<and> n' + (if b' then 1 else 0) \<le> n + (if b then 1 else 0) + int (length s)"
  by (induction s n b rule: word_count_loop.induct) (auto split: if_splits)

lemma get_word_count_range:
  "fs_files fs p = Some s \<Longrightarrow> 0 \<le> get_word_count fs p \<and> get_word_count fs p \<le> int (length s)"
  using word_count_loop_bound [of s 0 False] by (auto simp: get_word_count_def split: prod.splits if_splits)

lemma counts_int32:
  "fs_files fs p = Some s \<Longrightarrow> int (length s) < 2 ^ 31 \<Longrightarrow> is_int32 (get_word_count fs p) \<and> is_int32 (int (length s))"
  using get_word_count_range [of fs p s] by (auto simp: is_int32_def)

section \<open>The name server's command at the storage server\<close>

lemma create_command:
  assumes "name_ok f" "path_fits ss f" "fs_writable (ss_fs ss) (ss_filepath ss f)"
  shows "ss_nm_command ss (snprintf BUFFER_SIZE (''CREATE '' @ f)) =
    (ss\<lparr>ss_fs := fs_write (ss_fs ss) (ss_filepath ss f) []\<rparr>, [ToNM ''ACK_CREATE OK''])"
proof -
  have "snprintf BUFFER_SIZE (''CREATE '' @ f) = ''CREATE'' @ '' '' @ f" using assms(1) by (simp add: name_ok_def)
  then have "split_string '' '' (cstr (snprintf BUFFER_SIZE (''CREATE '' @ f))) = [''CREATE'', f]"
    using split_command [OF assms(1), of "''CREATE''"] by simp
  then show ?thesis using assms(3) by (simp add: ss_nm_command_def Let_def)
qed

lemma delete_command:
  assumes "name_ok f" "path_fits ss f"
  shows "\<exists>outs. ss_nm_command ss (snprintf BUFFER_SIZE (''DELETE '' @ f)) =
    (ss\<lparr>ss_fs := fs_unlink (fs_unlink (ss_fs ss) (ss_filepath ss f)) (ss_undo_filepath ss f)\<rparr>, outs)"
proof -
  have "snprintf BUFFER_SIZE (''DELETE '' @ f) = ''DELETE'' @ '' '' @ f" using assms(1) by (simp add: name_ok_def)
  then have "split_string '' '' (cstr (snprintf BUFFER_SIZE (''DELETE '' @ f))) = [''DELETE'', f]"
    using split_command [OF assms(1), of "''DELETE''"] by simp
  moreover have "snprintf MAX_PATH_LEN (ss_filepath ss f @ ''.undo'') = ss_undo_filepath ss f"
    using paths_fit [OF assms(2)] assms(2) by (simp add: path_fits_def)
  ultimately show ?thesis by (simp add: ss_nm_command_def Let_def)
qed

lemma write_in_range_empty: "fs_files (ss_fs ss) (ss_filepath ss f) = Some [] \<Longrightarrow> write_in_range ss f n \<longleftrightarrow> n = 0"
  by (auto simp: write_in_range_eq current_text_def get_file_content_def split_into_sentences_eq Let_def)

section \<open>A file deleted under a session\<close>

text \<open>A commit on a file that is gone starts from an empty text.\<close>

lemma commit_missing_file:
  assumes "fs_files (ss_fs ss) (ss_filepath ss f) = None" "path_fits ss f" "fs_writable (ss_fs ss) (ss_filepath ss f)"
    and "length f < MAX_FILENAME_LEN - 1" "apply_updates [] (n + get_sentence_shift ss f n k) us = Some content"
  shows "\<exists>ss' outs. write_commit ss f n k us = Some (ss', ToClient ''200 OK: Write Successful!'' # outs) \<and>
    fs_files (ss_fs ss') (ss_filepath ss f) = Some content"
proof -
  let ?p = "ss_filepath ss f"
  have "fs_files (ss_fs (backed_up ss f)) ?p = None"
    using undo.save_frame [OF paths_distinct [OF assms(2)], of "ss_fs ss" ?p] assms(1) by (simp add: backed_up_def)
  then have cur: "current_text (backed_up ss f) f = []"
    by (simp add: current_text_def get_file_content_def backed_up_def ss_filepath_def)
  let ?ss2 = "(backed_up ss f)\<lparr>ss_fs := fs_write (ss_fs (backed_up ss f)) ?p content\<rparr>"
  obtain ss3 where ss3: "log_modification ?ss2 f (n + get_sentence_shift ss f n k)
      (int (length (sentences content)) - int (length (sentences []))) = Some ss3" "ss_fs ss3 = ss_fs ?ss2"
    using log_modification_short [OF assms(4)] by blast
  have "fs_files (ss_fs ss3) ?p = Some content" unfolding ss3(2) by (simp add: fs_write_def)
  then show ?thesis unfolding write_commit_eq cur using assms(3,5) ss3(1) by simp
qed

section \<open>Properties\<close>

text \<open>C24. CREATE through both servers: the message the name server sends for a new file makes the chosen
  storage server keep an empty file, in which exactly sentence 0 can be edited, and the name
  server then gives its owner the address of that storage server for a WRITE.\<close>

theorem created_file_is_writable:
  assumes "nm_inv nm" "ht_get (nm_file_table nm) f = None" "nm_ss_list nm \<noteq> []"
    and "length u < MAX_USERNAME_LEN - 1" "name_ok f"
    and "si = nm_ss_list nm ! first_index nm" "length (si_ip si) < MAX_IP_LEN"
    and "path_fits ss f" "fs_writable (ss_fs ss) (ss_filepath ss f)"
  shows "\<exists>nm' msg nm'' ss'.
    handle_create env nm k u f = Some (nm', [(si_socket si, msg), (k, ''201 OK: File created successfully!'')]) \<and>
    ss_nm_command ss msg = (ss', [ToNM ''ACK_CREATE OK'']) \<and>
    fs_files (ss_fs ss') (ss_filepath ss f) = Some [] \<and> (\<forall>n. write_in_range ss' f n \<longleftrightarrow> n = 0) \<and>
    handle_read_write_stream env nm' k u [''WRITE'', f, ''0''] = (nm'',
      [(k, snprintf BUFFER_SIZE (''202 OK '' @ si_ip si @ '':'' @ show_int (si_client_port si)))])"
proof -
  obtain nm' acl where c: "handle_create env nm k u f = Some (nm',
      [(si_socket si, snprintf BUFFER_SIZE (''CREATE '' @ f)), (k, ''201 OK: File created successfully!'')])"
    "\<forall>n. ht_get (nm_file_table nm') n =
      (if ht_get (nm_file_table nm) (take (MAX_FILENAME_LEN - 1) f) = None \<and> n = take (MAX_FILENAME_LEN - 1) f
       then Some (new_file env u f acl si) else ht_get (nm_file_table nm) n)"
    "nm_ss_list nm' = nm_ss_list nm"
    using handle_create_new [OF assms(1-4), of env k] unfolding assms(6) by blast
  let ?m = "new_file env u f acl si"
  have get: "ht_get (nm_file_table nm') f = Some ?m" using c(2) assms(2,5) by (simp add: name_ok_def)
  have m: "fm_owner ?m = u" "fm_ss_ip ?m = si_ip si" "fm_ss_client_port ?m = si_client_port si"
    using assms(4,7) by (simp_all add: new_file_def)
  have "si \<in> set (nm_ss_list nm)"
    using get_ss_for_new_file_step [OF assms(3)] assms(1,6) by (auto simp: nm_inv_def)
  then have found: "find_ss (nm'\<lparr>nm_file_table := t\<rparr>) ?m = None \<longleftrightarrow> False" for t
    using c(3) m(2,3) by (auto simp: find_ss_def find_None_iff)
  have addr: "\<exists>nm''. handle_read_write_stream env nm' k u [''WRITE'', f, ''0''] = (nm'',
      [(k, snprintf BUFFER_SIZE (''202 OK '' @ si_ip si @ '':'' @ show_int (si_client_port si)))])"
    using get m by (simp only: handle_read_write_stream_def Let_def) (simp add: found)
  let ?ss' = "ss\<lparr>ss_fs := fs_write (ss_fs ss) (ss_filepath ss f) []\<rparr>"
  have "fs_files (ss_fs ?ss') (ss_filepath ?ss' f) = Some []" by (simp add: fs_write_def)
  then have range: "\<forall>n. write_in_range ?ss' f n \<longleftrightarrow> n = 0" using write_in_range_empty by blast
  show ?thesis
    using c(1) addr range create_command [OF assms(5,8,9)] by (fastforce simp: fs_write_def)
qed

theorem created_file_is_writable_witness:
  "\<exists>nm' msg ss'. handle_create demo_env empty_nm 7 ''al'' ''n'' =
      Some (nm', [(5, msg), (7, ''201 OK: File created successfully!'')]) \<and>
    ss_nm_command demo_ss msg = (ss', [ToNM ''ACK_CREATE OK'']) \<and> write_in_range ss' ''n'' 0"
proof -
  define si where "si = nm_ss_list empty_nm ! first_index empty_nm"
  have si: "length (si_ip si) < MAX_IP_LEN" "si_socket si = 5"
    by (simp_all add: si_def empty_nm_def demo_nm_def first_index_def)
  have fits: "path_fits demo_ss ''n''" "name_ok ''n''"
    by (simp_all add: path_fits_def demo_ss_def ss_create_def name_ok_def)
  show ?thesis
    using created_file_is_writable [OF demo_empty(1-3) _ fits(2) si_def si(1) fits(1) demo_ss_facts(5), of "''al''" demo_env 7]
      si(2) by fastforce
qed

text \<open>The statistics follow the file: when the INFO_UPDATE of a successful WRITE arrives, the name
  server's entry has the size, the word count and the character count of the file as it now is
  on the storage server, and no other entry changes.\<close>

theorem write_updates_statistics:
  assumes "ss_inv ss" "(f, sent_num) \<notin> held_sentences ss" "name_ok f"
    and "path_fits ss f" "write_in_range ss f sent_num"
    and "fs_writable (ss_fs ss) (ss_filepath ss f)" "fs_writable (ss_fs ss) (ss_undo_filepath ss f)"
    and "apply_updates (current_text ss f) sent_num (write_recv_loop msgs []) = Some content"
    and "int (length content) < 2 ^ 31" "CHR 0xFF \<notin> set content"
    and "ht_get (nm_file_table nm) f = Some m"
  shows "\<exists>ss' info m'. handle_ss_write ss f sent_num msgs = Some (ss',
      [ToClient ''202 ACK_WRITE: Ready for updates.'', ToClient ''200 OK: Write Successful!'', ToNM info]) \<and>
    fs_files (ss_fs ss') (ss_filepath ss f) = Some content \<and>
    ht_get (nm_file_table (nm_ss_message env nm info)) = (ht_get (nm_file_table nm))(f \<mapsto> m') \<and>
    fm_size m' = int (length content) \<and> fm_char_count m' = int (length content) \<and>
    fm_word_count m' = int (length (filter (\<lambda>w. \<not> is_delimiter (first_char w)) (split_into_words content))) \<and>
    fm_owner m' = fm_owner m \<and> fm_access_list m' = fm_access_list m"
proof -
  have len: "length f < MAX_FILENAME_LEN - 1" using assms(3) by (simp add: name_ok_def)
  obtain ss' where w: "handle_ss_write ss f sent_num msgs = Some (ss',
      [ToClient ''202 ACK_WRITE: Ready for updates.'', ToClient ''200 OK: Write Successful!'',
       ToNM (info_update f (int (length content))
         (get_word_count (ss_fs ss') (ss_filepath ss f)) (wrap32 (int (length content))))])"
    "fs_files (ss_fs ss') (ss_filepath ss f) = Some content"
    using write_success [OF assms(1,2) len assms(4-8)] by auto
  have ints: "is_int32 (get_word_count (ss_fs ss') (ss_filepath ss f))" "is_int32 (int (length content))"
    using counts_int32 [OF w(2) assms(9)] by auto
  note stored = info_update_stored [OF assms(3) is_int32_imp_64 [OF ints(2)] ints assms(11), of env]
  have words: "get_word_count (ss_fs ss') (ss_filepath ss f) =
      int (length (filter (\<lambda>w. \<not> is_delimiter (first_char w)) (split_into_words content)))"
    using get_word_count_words [OF w(2) assms(10)] .
  show ?thesis
    using w stored ints(2) words by (intro exI conjI) (assumption | simp)+
qed

theorem write_updates_statistics_witness:
  "\<exists>ss' info m'. handle_ss_write demo_ss ''a'' 0 [''1 all of'', ''ETIRW''] = Some (ss',
      [ToClient ''202 ACK_WRITE: Ready for updates.'', ToClient ''200 OK: Write Successful!'', ToNM info]) \<and>
    ht_get (nm_file_table (nm_ss_message demo_env
      (empty_nm\<lparr>nm_file_table := fst (ht_insert ht_create (demo_meta\<lparr>fm_filename := ''a''\<rparr>))\<rparr>) info)) ''a'' = Some m' \<and>
    fm_size m' = 19 \<and> fm_word_count m' = 5"
proof -
  let ?nm = "empty_nm\<lparr>nm_file_table := fst (ht_insert ht_create (demo_meta\<lparr>fm_filename := ''a''\<rparr>))\<rparr>"
  have get: "ht_get (nm_file_table ?nm) ''a'' = Some (demo_meta\<lparr>fm_filename := ''a''\<rparr>)"
    by (simp add: ht.lookup_insert_if ht.lookup_empty)
  have ok: "name_ok ''a''" by (simp add: name_ok_def)
  have size: "int (length ''Hi all of you. Bye.'') < 2 ^ 31" "CHR 0xFF \<notin> set ''Hi all of you. Bye.''" by simp_all
  have words: "filter (\<lambda>w. \<not> is_delimiter (first_char w)) (split_into_words ''Hi all of you. Bye.'') =
    [''Hi'', ''all'', ''of'', ''you'', ''Bye'']" by code_simp
  show ?thesis
    using write_updates_statistics [OF demo_ss_facts(1) demo_session(4) ok demo_ss_facts(3) demo_session(3)
      demo_ss_facts(5,5) demo_session(1) size get, of demo_env] unfolding words by fastforce
qed



end
