(* ===== verification/SS_Startup.thy ===== *)
theory SS_Startup
  imports Storage_Locks
begin

text \<open>
  How a storage server introduces itself: the scan of its directory
  (\<^verbatim>\<open>src/storage_server/persistence.c\<close>) and the \<open>INIT_SS\<close> message of \<^verbatim>\<open>ss_connect_to_nm\<close>
  (\<^verbatim>\<open>storage_server.c\<close>). The directory is the list of names \<^verbatim>\<open>readdir\<close> returns, or nothing
  when it can not be opened. \<open>None\<close> is the overflow of the 4096-byte buffer.
\<close>

text \<open>\<open>strstr(s, t) != NULL\<close>.\<close>

fun strstr :: "string \<Rightarrow> string \<Rightarrow> bool" where
  "strstr [] t = (t = [])"
| "strstr (c # s) t = (take (length t) (c # s) = t \<or> strstr s t)"

definition scanned :: "string \<Rightarrow> bool" where
  "scanned name \<longleftrightarrow> \<not> (name = ''.'' \<or> name = ''..'') \<and> \<not> strstr name ''.undo''"

fun scan_loop :: "string list \<Rightarrow> bool \<Rightarrow> string \<Rightarrow> string option" where
  "scan_loop [] is_first file_list_str = Some file_list_str"
| "scan_loop (name # names) is_first file_list_str =
     (if \<not> scanned name then scan_loop names is_first file_list_str
      else case (if is_first then Some file_list_str else strcat BUFFER_SIZE file_list_str '','') of
             None \<Rightarrow> None
           | Some buf \<Rightarrow>
               (case strcat BUFFER_SIZE buf name of None \<Rightarrow> None | Some buf \<Rightarrow> scan_loop names False buf))"

definition ss_scan_directory :: "string list option \<Rightarrow> string option" where
  "ss_scan_directory dir =
     (case dir of
        None \<Rightarrow> strcat BUFFER_SIZE ''['' '']''
      | Some names \<Rightarrow>
          (case scan_loop names True ''['' of
             None \<Rightarrow> None
           | Some file_list_str \<Rightarrow> strcat BUFFER_SIZE file_list_str '']''))"

text \<open>The message sent once the connection stands.\<close>

definition ss_connect_to_nm :: "StorageServer \<Rightarrow> string list option \<Rightarrow> string option" where
  "ss_connect_to_nm ss dir =
     map_option (\<lambda>file_list. snprintf BUFFER_SIZE
         (''INIT_SS '' @ show_int (ss_client_port ss) @ '' '' @ file_list))
       (ss_scan_directory dir)"

section \<open>The file list\<close>

lemma scan_loop_eq:
  "scan_loop names is_first buf =
     (let fs = filter scanned names;
          text = buf @ (if fs = [] then [] else (if is_first then [] else '','') @ sep_by (CHR '','') fs)
      in if fs = [] \<or> length text < BUFFER_SIZE then Some text else None)"
proof (induction names arbitrary: is_first buf)
  case (Cons name names)
  show ?case
  proof (cases "scanned name")
    case True
    let ?fs = "filter scanned names"
    have "sep_by (CHR '','') (name # ?fs) = name @ (if ?fs = [] then [] else CHR '','' # sep_by (CHR '','') ?fs)"
      by (cases ?fs) simp_all
    then show ?thesis using True Cons.IH [of False]
      by (auto simp: strcat_def Let_def)
  next
    case False
    then show ?thesis using Cons.IH [of is_first buf] by simp
  qed
qed simp

lemma ss_scan_directory_eq:
  "ss_scan_directory (Some names) =
     (let text = ''['' @ sep_by (CHR '','') (filter scanned names) @ '']''
      in if length text < BUFFER_SIZE then Some text else None)"
proof -
  have "sep_by (CHR '','') (filter scanned names) = []" if "filter scanned names = []"
    unfolding that by simp
  then show ?thesis
    unfolding ss_scan_directory_def option.case scan_loop_eq Let_def
    by (auto simp: strcat_def)
qed

end
