(* ===== verification/NM_Connections.thy ===== *)
theory NM_Connections
  imports NM_Laws SS_Startup
begin

text \<open>
  Everything that reaches the name server: clients that connect, send commands and leave, storage
  servers that register, report statistics and leave. \<open>nm_event\<close> is one such message; the
  handlers run one after the other. The instance of \<open>guarded_store\<close> here covers all of them, with
  the owner and the permissions of a file as its view.
\<close>

section \<open>Events\<close>

datatype nm_event =
    ClientInit c_int string
  | Command client_command
  | ClientGone c_int
  | SSInit c_int string string
  | SSMessage Env string
  | SSGone c_int

definition nm_event_step :: "NameServer \<Rightarrow> nm_event \<Rightarrow> (NameServer \<times> nm_out list) option" where
  "nm_event_step nm e =
     (case e of
        ClientInit sock name \<Rightarrow> map_option (\<lambda>(nm, _). (nm, [])) (nm_client_init nm sock name)
      | Command c \<Rightarrow> nm_step nm c
      | ClientGone sock \<Rightarrow> Some (remove_client nm sock, [])
      | SSInit sock ip bytes \<Rightarrow> nm_handle_ss_init nm sock ip bytes
      | SSMessage env bytes \<Rightarrow> Some (nm_ss_message env nm bytes, [])
      | SSGone sock \<Rightarrow> Some (remove_ss nm sock, []))"

text \<open>Who acts: the user of a command; the other events are nobody's.\<close>

definition event_actor :: "nm_event \<Rightarrow> string option" where
  "event_actor e = (case e of Command c \<Rightarrow> Some (cc_user c) | _ \<Rightarrow> None)"

definition permissions :: "NameServer \<Rightarrow> string \<Rightarrow> (string \<times> AccessNode list) option" where
  "permissions nm f = map_option (\<lambda>m. (fm_owner m, fm_access_list m)) (ht_get (nm_file_table nm) f)"

lemma permissions_view: "permissions nm f = map_option (\<lambda>m. (fm_owner m, fm_access_list m)) (file_view nm f)"
  by (simp add: permissions_def file_view_def option.map_comp comp_def)

section \<open>What the events keep\<close>

text \<open>A change of the table that touches neither names nor permissions.\<close>

definition same_permissions :: "HashTable \<Rightarrow> HashTable \<Rightarrow> bool" where
  "same_permissions t t' \<longleftrightarrow> (ht_inv t \<longrightarrow> ht_inv t') \<and>
     (\<forall>f. map_option (\<lambda>m. (fm_owner m, fm_access_list m)) (ht_get t' f) =
          map_option (\<lambda>m. (fm_owner m, fm_access_list m)) (ht_get t f))"

lemma same_permissions_refl [simp, intro]: "same_permissions t t"
  by (simp add: same_permissions_def)

lemma same_permissions_trans [trans]:
  "same_permissions t u \<Longrightarrow> same_permissions u v \<Longrightarrow> same_permissions t v"
  by (simp add: same_permissions_def)

lemma same_permissions_update:
  assumes "\<And>m. fm_filename (g m) = fm_filename m" "\<And>m. fm_owner (g m) = fm_owner m"
    and "\<And>m. fm_access_list (g m) = fm_access_list m"
  shows "same_permissions t (ht_update t f g)"
  using ht.inv_update [of t g f] ht.lookup_update [of g t f] assms
  by (auto simp: same_permissions_def option.map_comp comp_def)

lemma nm_inv_same_permissions:
  assumes "nm_inv nm" "same_permissions (nm_file_table nm) (nm_file_table nm')"
    and "nm_next_ss_index nm' = nm_next_ss_index nm"
  shows "nm_inv nm' \<and> permissions nm' f = permissions nm f"
proof -
  have "access_inv (fm_access_list m) \<and> length f < MAX_FILENAME_LEN"
    if m: "ht_get (nm_file_table nm') f = Some m" for f m
  proof -
    have "map_option (\<lambda>m. (fm_owner m, fm_access_list m)) (ht_get (nm_file_table nm) f) =
        Some (fm_owner m, fm_access_list m)"
      using assms(2) [unfolded same_permissions_def, THEN conjunct2, rule_format, of f] m by simp
    then obtain m0 where m0: "ht_get (nm_file_table nm) f = Some m0" "fm_access_list m0 = fm_access_list m" by auto
    have "access_inv (fm_access_list m0) \<and> length f < MAX_FILENAME_LEN"
      using assms(1) m0(1) by (auto simp: nm_inv_def)
    then show ?thesis using m0(2) by simp
  qed
  then show ?thesis using assms by (auto simp: nm_inv_def permissions_def same_permissions_def)
qed

lemma ss_files_online_permissions: "same_permissions t (ss_files_online t ip port fs)"
proof (induction t ip port fs rule: ss_files_online.induct)
  case (2 table ip port f fs)
  let ?t = "case ht_get table f of None \<Rightarrow> table
    | Some meta \<Rightarrow> ht_update table f (\<lambda>m. m\<lparr>fm_ss_ip := strncpy_zeroed (MAX_IP_LEN - 1) ip, fm_ss_client_port := port\<rparr>)"
  have "same_permissions table ?t"
    by (cases "ht_get table f") (simp_all add: same_permissions_update)
  then show ?case using 2 same_permissions_trans by simp
qed simp

lemma nm_ss_message_permissions:
  "same_permissions (nm_file_table nm) (nm_file_table (nm_ss_message env nm bytes)) \<and>
   nm_next_ss_index (nm_ss_message env nm bytes) = nm_next_ss_index nm"
  by (auto simp: nm_ss_message_def Let_def same_permissions_update split: option.split)

lemma add_ss_simps:
  "add_ss nm sock ip port = Some nm' \<Longrightarrow> nm_file_table nm' = nm_file_table nm \<and>
     nm_next_ss_index nm' = nm_next_ss_index nm \<and> nm_fs nm' = nm_fs nm \<and> nm_all_users nm' = nm_all_users nm \<and>
     nm_ss_list nm' = \<lparr>si_socket = sock, si_ip = ip, si_client_port = port\<rparr> # nm_ss_list nm \<and>
     nm_client_list nm' = nm_client_list nm"
  by (auto simp: add_ss_def)

lemma nm_handle_ss_init_permissions:
  "nm_handle_ss_init nm sock ip bytes = Some (nm', outs) \<Longrightarrow>
     same_permissions (nm_file_table nm) (nm_file_table nm') \<and> nm_next_ss_index nm' = nm_next_ss_index nm"
  by (auto simp: nm_handle_ss_init_def Let_def ss_files_online_permissions
      dest!: add_ss_simps split: if_splits Option.bind_splits)

lemma nm_client_init_permissions:
  "nm_client_init nm sock name = Some (nm', u) \<Longrightarrow>
     nm_file_table nm' = nm_file_table nm \<and> nm_next_ss_index nm' = nm_next_ss_index nm"
  by (auto simp: nm_client_init_def add_client_def nm_register_persistent_user_def nm_save_users_def
      split: Option.bind_splits if_splits)

lemma event_keeps:
  assumes "nm_event_step nm e = Some (nm', outs)" "nm_inv nm" "\<forall>c. e \<noteq> Command c"
  shows "nm_inv nm' \<and> permissions nm' f = permissions nm f"
proof -
  have "same_permissions (nm_file_table nm) (nm_file_table nm') \<and> nm_next_ss_index nm' = nm_next_ss_index nm"
    using assms(1,3) nm_ss_message_permissions nm_handle_ss_init_permissions nm_client_init_permissions
    by (auto simp: nm_event_step_def remove_client_def remove_ss_def split: nm_event.splits)
  then show ?thesis using nm_inv_same_permissions [OF assms(2)] by blast
qed

interpretation nm_events: guarded_store nm_event_step nm_inv permissions "\<lambda>v. Some (fst v)" event_actor
proof unfold_locales
  fix s s' :: NameServer and e outs
  assume inv: "nm_inv s" and step: "nm_event_step s e = Some (s', outs)"
  have cmd: "guarded_change (cc_user c) s s'" if "e = Command c" for c
    using that step nm_client_command_guarded [OF _ inv] by (auto simp: nm_event_step_def nm_step_def)
  show "nm_inv s'"
    using event_keeps [OF step inv] cmd by (cases "\<exists>c. e = Command c") (auto simp: guarded_change_def)
  show "permissions s k = Some v \<Longrightarrow> Some (fst v) \<noteq> event_actor e \<Longrightarrow> permissions s' k = Some v" for k v
    using event_keeps [OF step inv, of k] cmd
    by (cases e) (auto simp: guarded_change_def permissions_view event_actor_def)
qed

section \<open>Registration\<close>

definition moved_to :: "string \<Rightarrow> c_int \<Rightarrow> FileMetadata \<Rightarrow> FileMetadata" where
  "moved_to ip port m = m\<lparr>fm_ss_ip := strncpy_zeroed (MAX_IP_LEN - 1) ip, fm_ss_client_port := port\<rparr>"

lemma ss_files_online_Cons:
  "ss_files_online t ip port (f # fs) =
     ss_files_online (case ht_get t f of None \<Rightarrow> t | Some m \<Rightarrow> ht_update t f (moved_to ip port)) ip port fs"
  by (simp only: ss_files_online.simps moved_to_def [abs_def])

lemma ss_files_online_lookup:
  "ht_get (ss_files_online t ip port fs) f =
     (if f \<in> set fs then map_option (moved_to ip port) (ht_get t f) else ht_get t f)"
proof (induction fs arbitrary: t)
  case (Cons h fs)
  let ?t = "case ht_get t h of None \<Rightarrow> t | Some m \<Rightarrow> ht_update t h (moved_to ip port)"
  have get: "ht_get ?t f = (if f = h then map_option (moved_to ip port) (ht_get t f) else ht_get t f)"
    using ht.lookup_update [of "moved_to ip port" t h]
    by (cases "ht_get t h") (auto simp: moved_to_def)
  have twice: "moved_to ip port (moved_to ip port m) = moved_to ip port m" for m by (simp add: moved_to_def)
  show ?case unfolding ss_files_online_Cons Cons.IH get
    by (cases "f = h"; cases "ht_get t f") (simp_all add: twice)
qed simp

text \<open>The message of \<^verbatim>\<open>ss_connect_to_nm\<close>, split again. The file list goes between commas in one word,
  so a name with a comma or a blank breaks it.\<close>

definition listed_ok :: "string list \<Rightarrow> bool" where
  "listed_ok fs \<longleftrightarrow> (\<forall>f\<in>set fs. f \<noteq> [] \<and> set f \<inter> {CHR '','', CHR '' '', CHR 0x00} = {})"

lemma init_ss_parts:
  assumes "ss_connect_to_nm ss (Some names) = Some msg" "listed_ok (filter scanned names)"
    and "length msg < BUFFER_SIZE - 1"
  shows "split_string '' '' (cstr msg) =
    [''INIT_SS'', show_int (ss_client_port ss), ''['' @ sep_by (CHR '','') (filter scanned names) @ '']'']"
proof -
  let ?l = "''['' @ sep_by (CHR '','') (filter scanned names) @ '']''"
  let ?m = "''INIT_SS '' @ show_int (ss_client_port ss) @ '' '' @ ?l"
  have clean: "c \<notin> set ?l" if "c \<in> {CHR '' '', CHR 0x00}" for c
  proof -
    have "c \<notin> set (sep_by (CHR '','') (filter scanned names))"
      using that assms(2) set_sep_by [of "CHR '',''" "filter scanned names"] unfolding listed_ok_def by fastforce
    then show ?thesis using that by auto
  qed
  have "msg = snprintf BUFFER_SIZE ?m"
    using assms(1) by (auto simp: ss_connect_to_nm_def ss_scan_directory_eq Let_def split: if_splits)
  then have "msg = ?m" using assms(3) by (auto simp: snprintf_def min_def split: if_splits)
  moreover have "cstr ?m = ?m"
  proof (rule cstr_id)
    have "CHR 0x00 \<notin> set ?l" by (rule clean) simp
    then show "CHR 0x00 \<notin> set ?m" by simp
  qed
  moreover have "split_string '' '' ?m = [''INIT_SS'', show_int (ss_client_port ss), ?l]"
  proof -
    have last: "split_string '' '' ?l = [?l]" using clean [of "CHR '' ''"] by (intro split_string_last) auto
    have "?m = ''INIT_SS'' @ CHR '' '' # show_int (ss_client_port ss) @ CHR '' '' # ?l" by simp
    moreover have "split_string '' '' (''INIT_SS'' @ CHR '' '' # show_int (ss_client_port ss) @ CHR '' '' # ?l) =
        ''INIT_SS'' # show_int (ss_client_port ss) # split_string '' '' ?l"
      by (subst split_string_field, simp, simp, simp) (subst split_string_field, simp_all)
    ultimately show ?thesis using last by metis
  qed
  ultimately show ?thesis by metis
qed

lemma ss_registered:
  assumes "ss_connect_to_nm ss (Some names) = Some msg" "listed_ok (filter scanned names)"
    and "length msg < BUFFER_SIZE - 1" "is_int32 (ss_client_port ss)" "length ip < MAX_IP_LEN - 1"
  shows "\<exists>nm'. nm_handle_ss_init nm sock ip msg = Some (nm', []) \<and>
    nm_ss_list nm' = \<lparr>si_socket = sock, si_ip = ip, si_client_port = ss_client_port ss\<rparr> # nm_ss_list nm \<and>
    (\<forall>f. ht_get (nm_file_table nm') f =
      (if f \<in> set names \<and> scanned f
       then map_option (\<lambda>m. m\<lparr>fm_ss_ip := ip, fm_ss_client_port := ss_client_port ss\<rparr>) (ht_get (nm_file_table nm) f)
       else ht_get (nm_file_table nm) f))"
proof -
  let ?fs = "filter scanned names"
  note parts = init_ss_parts [OF assms(1-3)]
  have "cstr msg \<noteq> []" using parts by auto
  then have ne: "msg \<noteq> []" by (auto simp: cstr_def)
  have str: "tl (butlast (''['' @ sep_by (CHR '','') ?fs @ '']'')) = sep_by (CHR '','') ?fs"
    by (simp add: butlast_append)
  have split: "split_string '','' (sep_by (CHR '','') ?fs) = ?fs"
    using assms(2) by (intro split_string_sep_by) (auto simp: listed_ok_def)
  have ip: "strncpy_zeroed 15 ip = ip" "strncpy_raw 15 ip = Some ip"
    using assms(5) by (simp_all add: strncpy_raw_def)
  have fs: "?fs = []" if "sep_by (CHR '','') ?fs = []" using split that by simp
  let ?t = "ss_files_online (nm_file_table nm) ip (ss_client_port ss) ?fs"
  have "nm_handle_ss_init nm sock ip msg =
    Some (nm\<lparr>nm_ss_list := \<lparr>si_socket = sock, si_ip = ip, si_client_port = ss_client_port ss\<rparr> # nm_ss_list nm,
      nm_file_table := ?t\<rparr>, [])"
    using ne fs assms(4) unfolding nm_handle_ss_init_def parts Let_def str
    using str split by (auto simp: add_ss_def ip)
  then show ?thesis
    using ss_files_online_lookup [of "nm_file_table nm" ip "ss_client_port ss" ?fs] ip(1)
    by (auto simp: moved_to_def [abs_def])
qed

section \<open>Sessions\<close>

lemma get_ss_client_list: "get_ss_for_new_file nm = (nm', ss) \<Longrightarrow> nm_client_list nm' = nm_client_list nm"
  by (auto simp: get_ss_for_new_file_def Let_def split: if_splits)

lemma nm_client_command_clients:
  assumes "nm_client_command env nm k u bytes = Some (nm', outs)"
  shows "nm_client_list nm' = nm_client_list nm"
  using assms
proof (cases rule: nm_client_command_cases)
  case (create f)
  then show ?thesis using get_ss_client_list
    by (cases rule: handle_create_cases) auto
next
  case (delete f)
  then show ?thesis by (auto simp: handle_delete_def Let_def split: option.splits if_splits)
next
  case (address args)
  then show ?thesis by (auto simp: handle_read_write_stream_def Let_def split: option.splits if_splits)
next
  case (access args)
  then show ?thesis by (auto simp: handle_access_def split: sum.splits option.splits if_splits)
qed simp

lemma nm_client_loop_clients:
  "nm_client_loop nm sock u ms = Some (nm', outs) \<Longrightarrow>
     nm_client_list nm' = remove_first (\<lambda>c. ci_socket c = sock) (nm_client_list nm)"
proof (induction nm sock u ms arbitrary: outs rule: nm_client_loop.induct)
  case (2 nm sock u env m ms)
  show ?case
  proof (cases "m = []")
    case False
    then obtain nm1 o1 o2 where "nm_client_command env nm sock u m = Some (nm1, o1)"
      "nm_client_loop nm1 sock u ms = Some (nm', o2)"
      using 2(2) by (auto split: Option.bind_splits prod.splits)
    then show ?thesis using 2(1) [OF False, of "(nm1, o1)" nm1 o1] nm_client_command_clients by auto
  qed (use 2(2) in \<open>auto simp: remove_client_def\<close>)
qed (auto simp: remove_client_def)

section \<open>Properties\<close>



text \<open>A client session leaves no trace among the active clients: whatever the client sent, when
  its handler returns the list is the one before it connected.\<close>

theorem session_leaves_no_client:
  assumes "nm_handle_client_request nm sock init ms = Some (nm', outs)"
  shows "nm_client_list nm' = nm_client_list nm"
proof (cases "nm' = nm")
  case False
  then obtain nm1 name u where i: "nm_client_init nm sock name = Some (nm1, u)"
    and l: "nm_client_loop nm1 sock u ms = Some (nm', outs)"
    using assms by (auto simp: nm_handle_client_request_def Let_def split: if_splits Option.bind_splits)
  obtain nm0 where "add_client nm sock u = Some nm0" "nm_client_list nm1 = nm_client_list nm0"
    using i by (auto simp: nm_client_init_def nm_register_persistent_user_def nm_save_users_def
        split: Option.bind_splits if_splits)
  then show ?thesis using nm_client_loop_clients [OF l] by (auto simp: add_client_def)
qed simp

theorem session_leaves_no_client_witness:
  "\<exists>nm' outs. nm_handle_client_request demo_nm 7 ''INIT_CLIENT al'' [(demo_env, ''LIST'')] = Some (nm', outs) \<and>
     nm_client_list nm' = []"
proof -
  have "nm_handle_client_request demo_nm 7 ''INIT_CLIENT al'' [(demo_env, ''LIST'')] \<noteq> None" by code_simp
  then obtain nm' outs where h: "nm_handle_client_request demo_nm 7 ''INIT_CLIENT al'' [(demo_env, ''LIST'')] = Some (nm', outs)"
    by auto
  show ?thesis using session_leaves_no_client [OF h] h by (simp add: demo_nm_def)
qed

end
