(* ===== verification/Client_Sessions.thy ===== *)
theory Client_Sessions
  imports Client Distributed_System NM_Connections
begin

text \<open>
  The whole system under one client command: the client of \<open>Client\<close> talks to the name server of
  \<open>NM_Handlers\<close> and to the storage servers of \<open>File_Ops\<close>. \<open>world\<close> is that environment; \<open>deliver\<close> is
  what the network makes of the storage server's messages on their way to the client.
\<close>

section \<open>The environment of a command\<close>

fun to_client :: "outmsg list \<Rightarrow> string list" where
  "to_client [] = []"
| "to_client (ToClient m # outs) = m # to_client outs"
| "to_client (ToNM m # outs) = to_client outs"

definition world ::
  "Env \<Rightarrow> NameServer \<Rightarrow> c_int \<Rightarrow> string \<Rightarrow> (string \<Rightarrow> c_int \<Rightarrow> StorageServer option) \<Rightarrow>
     (string list \<Rightarrow> string list) \<Rightarrow> ClientEnv" where
  "world env nm sock user servers deliver =
     \<lparr>ce_nm = (\<lambda>cmd. case nm_client_command env nm sock user cmd of
          None \<Rightarrow> [] | Some (_, outs) \<Rightarrow> map snd (filter (\<lambda>(s, m). s = sock) outs)),
      ce_connect = (\<lambda>ip port. servers ip port \<noteq> None),
      ce_ss = (\<lambda>ip port sent. case servers ip port of
          None \<Rightarrow> []
        | Some ss \<Rightarrow> (case ss_handle_client_connection ss (hd sent) (tl sent) of
              None \<Rightarrow> [] | Some (_, outs) \<Rightarrow> deliver (to_client outs)))\<rparr>"

text \<open>What the user sees.\<close>

fun printed :: "client_act list \<Rightarrow> string" where
  "printed [] = []"
| "printed (Print m # acts) = m @ printed acts"
| "printed (Warn m # acts) = printed acts"
| "printed (SendNM m # acts) = printed acts"
| "printed (SendSS m # acts) = printed acts"

lemma printed_append [simp]: "printed (as @ bs) = printed as @ printed bs"
  by (induction as rule: printed.induct) simp_all

lemma printed_map_Print [simp]: "printed (map (\<lambda>m. Print (g m)) ms) = concat (map g ms)"
  by (induction ms) simp_all

lemma sent_to_ss_append: "sent_to_ss (as @ bs) = sent_to_ss as @ sent_to_ss bs"
  by (induction as rule: sent_to_ss.induct) simp_all

section \<open>The address\<close>

text \<open>A name a user can type, and the place of a file.\<close>

definition typed_ok :: "string \<Rightarrow> bool" where
  "typed_ok f \<longleftrightarrow> name_ok f \<and> CHR 0x0A \<notin> set f \<and> CHR 0x0D \<notin> set f"

definition place_ok :: "FileMetadata \<Rightarrow> bool" where
  "place_ok m \<longleftrightarrow> fm_ss_ip m \<noteq> [] \<and> set (fm_ss_ip m) \<inter> {CHR '':'', CHR 0x00} = {} \<and>
     length (fm_ss_ip m) < MAX_IP_LEN \<and> is_int32 (fm_ss_client_port m)"

definition command_line :: "string \<Rightarrow> string \<Rightarrow> string" where
  "command_line cmd args = cmd @ '' '' @ args"

lemma split_typed:
  assumes "typed_ok f" "cmd \<noteq> []" "CHR '' '' \<notin> set cmd" "CHR 0x00 \<notin> set cmd" "CHR 0x0A \<notin> set cmd" "CHR 0x0D \<notin> set cmd"
  shows "split_string '' '' (command_line cmd f) = [cmd, f]"
    and "trim_newline (cstr (command_line cmd f)) = command_line cmd f"
proof -
  show "split_string '' '' (command_line cmd f) = [cmd, f]"
    using assms by (simp add: command_line_def typed_ok_def name_ok_def split_string_field split_string_last)
  have "CHR 0x00 \<notin> set (command_line cmd f)" "CHR 0x0A \<notin> set (command_line cmd f)" "CHR 0x0D \<notin> set (command_line cmd f)"
    using assms by (auto simp: command_line_def typed_ok_def name_ok_def)
  then show "trim_newline (cstr (command_line cmd f)) = command_line cmd f" by simp
qed

text \<open>What the name server answers to a permitted command, and what the client makes of it.\<close>

definition address_reply :: "FileMetadata \<Rightarrow> string" where
  "address_reply m = ''202 OK '' @ fm_ss_ip m @ '':'' @ show_int (fm_ss_client_port m)"

lemma address_reply_props:
  assumes "place_ok m"
  shows "length (address_reply m) < BUFFER_SIZE" "cstr (address_reply m) = address_reply m"
    "starts_with ''202 OK'' (address_reply m)"
    "split_string '':'' (drop 7 (address_reply m)) = [fm_ss_ip m, show_int (fm_ss_client_port m)]"
proof -
  have "is_int64 (fm_ss_client_port m)" using assms by (auto simp: place_ok_def is_int32_imp_64)
  then show "length (address_reply m) < BUFFER_SIZE"
    using assms length_show_int [of "fm_ss_client_port m"] by (simp add: place_ok_def address_reply_def)
  show "cstr (address_reply m) = address_reply m"
    using assms by (intro cstr_id) (auto simp: place_ok_def address_reply_def)
  show "starts_with ''202 OK'' (address_reply m)" by (simp add: starts_with_def address_reply_def)
  show "split_string '':'' (drop 7 (address_reply m)) = [fm_ss_ip m, show_int (fm_ss_client_port m)]"
    using assms by (simp add: place_ok_def address_reply_def split_string_field split_string_last)
qed

lemma handle_rws_reply:
  assumes "ht_get (nm_file_table nm) (args ! 1) = Some m" "place_ok m" "2 \<le> length args"
    and "check_access m u (if args ! 0 = ''WRITE'' \<or> args ! 0 = ''UNDO'' then CHR ''W'' else CHR ''R'')"
    and "find_ss nm m \<noteq> None"
  shows "\<exists>nm'. handle_read_write_stream env nm k u args = (nm', [(k, address_reply m)])"
proof -
  have found: "find_ss (nm\<lparr>nm_file_table := t\<rparr>) m = None \<longleftrightarrow> False" for t
    using assms(5) by (simp add: find_ss_def)
  have "snprintf BUFFER_SIZE (''202 OK '' @ fm_ss_ip m @ '':'' @ show_int (fm_ss_client_port m)) = address_reply m"
    using address_reply_props(1) [OF assms(2)] unfolding address_reply_def by (rule snprintf_id)
  then show ?thesis
    using assms(1,3,4) by (simp only: handle_read_write_stream_def Let_def) (simp add: found)
qed

text \<open>The client at the right storage server.\<close>

lemma client_connected:
  assumes "place_ok m" "ce_connect e (fm_ss_ip m) (fm_ss_client_port m)"
  shows "client_connect e (drop 7 (address_reply m)) = Inr (fm_ss_ip m, fm_ss_client_port m)"
  using assms address_reply_props(4) [OF assms(1)]
  by (simp add: client_connect_def Let_def place_ok_def)

lemma nm_replies_address:
  assumes "split_string '' '' input = args" "trim_newline (cstr input) = input"
    and "args ! 0 = ''READ'' \<or> args ! 0 = ''WRITE'' \<or> args ! 0 = ''STREAM'' \<or> args ! 0 = ''UNDO''"
    and "2 \<le> length args" "ht_get (nm_file_table nm) (args ! 1) = Some m" "place_ok m"
    and "check_access m u (if args ! 0 = ''WRITE'' \<or> args ! 0 = ''UNDO'' then CHR ''W'' else CHR ''R'')"
    and "find_ss nm m \<noteq> None"
  shows "ce_nm (world env nm k u servers deliver) input = [address_reply m]"
proof -
  obtain nm' where "handle_read_write_stream env nm k u args = (nm', [(k, address_reply m)])"
    using handle_rws_reply [OF assms(5,6,4,7,8)] by blast
  moreover have "nm_client_command env nm k u input = Some (handle_read_write_stream env nm k u args)"
    using assms(3,4) unfolding nm_client_command_def assms(1,2) Let_def by auto
  ultimately show ?thesis by (simp add: world_def)
qed

text \<open>The dispatch of the client once the name server has answered with an address.\<close>

lemma dispatch_address:
  assumes "split_string '' '' input = args" "ce_nm e input = [address_reply m]" "place_ok m" "2 \<le> length args"
  shows "args ! 0 = ''READ'' \<Longrightarrow> client_parse_and_execute e input stdin =
      (SendNM input # client_handle_read e (drop 7 (address_reply m)) (args ! 1), stdin, Continue)"
    "args ! 0 = ''STREAM'' \<Longrightarrow> client_parse_and_execute e input stdin =
      (SendNM input # client_handle_stream e (drop 7 (address_reply m)) (args ! 1), stdin, Continue)"
    "args ! 0 = ''UNDO'' \<Longrightarrow> client_parse_and_execute e input stdin =
      (SendNM input # client_handle_undo e (drop 7 (address_reply m)) (args ! 1), stdin, Continue)"
    "args ! 0 = ''WRITE'' \<Longrightarrow> 3 \<le> length args \<Longrightarrow> client_parse_and_execute e input stdin =
      (case client_handle_write e (drop 7 (address_reply m)) (args ! 1) (atoi (args ! 2)) stdin of
         (acts, rest) \<Rightarrow> (SendNM input # acts, rest, Continue))"
proof -
  have ne: "address_reply m \<noteq> []" "args \<noteq> []" using assms(4) by (auto simp: address_reply_def)
  have reply: "nth_message 0 (ce_nm e input) = address_reply m" by (simp add: assms(2) nth_message_def)
  note simps = client_parse_and_execute_def assms(1) reply address_reply_props(2,3) [OF assms(3)] Let_def
  show "args ! 0 = ''READ'' \<Longrightarrow> client_parse_and_execute e input stdin =
      (SendNM input # client_handle_read e (drop 7 (address_reply m)) (args ! 1), stdin, Continue)"
    "args ! 0 = ''STREAM'' \<Longrightarrow> client_parse_and_execute e input stdin =
      (SendNM input # client_handle_stream e (drop 7 (address_reply m)) (args ! 1), stdin, Continue)"
    "args ! 0 = ''UNDO'' \<Longrightarrow> client_parse_and_execute e input stdin =
      (SendNM input # client_handle_undo e (drop 7 (address_reply m)) (args ! 1), stdin, Continue)"
    "args ! 0 = ''WRITE'' \<Longrightarrow> 3 \<le> length args \<Longrightarrow> client_parse_and_execute e input stdin =
      (case client_handle_write e (drop 7 (address_reply m)) (args ! 1) (atoi (args ! 2)) stdin of
         (acts, rest) \<Rightarrow> (SendNM input # acts, rest, Continue))"
    using ne assms(4) by (simp_all add: simps)
qed

section \<open>READ\<close>

lemma to_client_map [simp]: "to_client (map ToClient ms) = ms"
  by (induction ms) simp_all

lemma ss_serves_read:
  assumes "typed_ok f"
  shows "ss_handle_client_connection ss (command_line ''READ'' f) ms = Some (ss, map ToClient (handle_ss_read ss f))"
    and "ss_handle_client_connection ss (command_line ''STREAM'' f) ms = Some (ss, map ToClient (handle_ss_stream ss f))"
proof -
  have "cstr (command_line c f) = command_line c f" if "CHR 0x00 \<notin> set c" for c
    using assms that by (auto simp: command_line_def typed_ok_def name_ok_def)
  then show "ss_handle_client_connection ss (command_line ''READ'' f) ms = Some (ss, map ToClient (handle_ss_read ss f))"
    "ss_handle_client_connection ss (command_line ''STREAM'' f) ms = Some (ss, map ToClient (handle_ss_stream ss f))"
    using split_typed(1) [OF assms, of "''READ''"] split_typed(1) [OF assms, of "''STREAM''"]
    by (simp_all add: ss_handle_client_connection_def Let_def) (simp_all add: command_line_def)
qed

lemma until_closed_pieces: "\<forall>m\<in>set ms. m \<noteq> [] \<Longrightarrow> until_closed ms = ms"
  unfolding until_closed_def by (simp add: takeWhile_eq_all_conv)

lemma printed_pieces:
  assumes "CHR 0x00 \<notin> set bytes"
  shows "concat (map cstr (until_closed (recv_all sizes bytes))) = bytes"
proof -
  have "set m \<subseteq> set bytes" if "m \<in> set (recv_all sizes bytes)" for m
  proof -
    have "set m \<subseteq> set (concat (recv_all sizes bytes))" using that by auto
    then show ?thesis by (simp only: concat_recv_all)
  qed
  then have "map cstr (recv_all sizes bytes) = recv_all sizes bytes"
    using assms by (intro map_idI cstr_id) auto
  moreover have "until_closed (recv_all sizes bytes) = recv_all sizes bytes"
    using recv_all_pieces by (intro until_closed_pieces) blast
  ultimately show ?thesis by (simp add: concat_recv_all)
qed

lemma read_session:
  assumes "typed_ok f" "place_ok m" "servers (fm_ss_ip m) (fm_ss_client_port m) = Some ss"
    and "concat (handle_ss_read ss f) = bytes" "CHR 0x00 \<notin> set bytes"
  shows "printed (client_handle_read (world env nm k u servers (\<lambda>ms. recv_all sizes (concat ms)))
      (drop 7 (address_reply m)) f) = bytes @ [CHR 0x0A]"
proof -
  let ?e = "world env nm k u servers (\<lambda>ms. recv_all sizes (concat ms))"
  have con: "client_connect ?e (drop 7 (address_reply m)) = Inr (fm_ss_ip m, fm_ss_client_port m)"
    using assms(3) by (intro client_connected [OF assms(2)]) (simp add: world_def)
  have req: "snprintf BUFFER_SIZE (''READ '' @ f) = command_line ''READ'' f"
    using assms(1) by (simp add: typed_ok_def name_ok_def command_line_def)
  have "ce_ss ?e (fm_ss_ip m) (fm_ss_client_port m) [command_line ''READ'' f] = recv_all sizes bytes"
    using assms(3,4) ss_serves_read(1) [OF assms(1)] by (simp add: world_def)
  then show ?thesis using printed_pieces [OF assms(5), of sizes]
    by (simp only: client_handle_read_def con sum.case prod.case Let_def req) simp
qed

lemma stream_session:
  assumes "typed_ok f" "place_ok m" "servers (fm_ss_ip m) (fm_ss_client_port m) = Some ss"
    and "concat (handle_ss_stream ss f) = bytes" "CHR 0x00 \<notin> set bytes"
  shows "printed (client_handle_stream (world env nm k u servers (\<lambda>ms. recv_all sizes (concat ms)))
      (drop 7 (address_reply m)) f) = bytes @ [CHR 0x0A]"
proof -
  let ?e = "world env nm k u servers (\<lambda>ms. recv_all sizes (concat ms))"
  have con: "client_connect ?e (drop 7 (address_reply m)) = Inr (fm_ss_ip m, fm_ss_client_port m)"
    using assms(3) by (intro client_connected [OF assms(2)]) (simp add: world_def)
  have req: "snprintf BUFFER_SIZE (''STREAM '' @ f) = command_line ''STREAM'' f"
    using assms(1) by (simp add: typed_ok_def name_ok_def command_line_def)
  have "ce_ss ?e (fm_ss_ip m) (fm_ss_client_port m) [command_line ''STREAM'' f] = recv_all sizes bytes"
    using assms(3,4) ss_serves_read(2) [OF assms(1)] by (simp add: world_def)
  then show ?thesis using printed_pieces [OF assms(5), of sizes]
    by (simp only: client_handle_stream_def con sum.case prod.case Let_def req) simp
qed

section \<open>WRITE\<close>

text \<open>What a user types into a session: a word index, a blank and the words, line by line, then the
  end mark.\<close>

definition edit_ok :: "c_int \<times> string \<Rightarrow> bool" where
  "edit_ok e \<longleftrightarrow> is_int32 (fst e) \<and> set (snd e) \<inter> {CHR 0x00, CHR 0x0A, CHR 0x0D} = {} \<and>
     (\<exists>c\<in>set (snd e). c \<noteq> CHR '' '')"

definition edit_line :: "c_int \<times> string \<Rightarrow> string" where
  "edit_line e = show_int (fst e) @ '' '' @ snd e"

definition edit_node :: "c_int \<times> string \<Rightarrow> UpdateNode" where
  "edit_node e = \<lparr>un_word_idx = fst e, un_content = snd e\<rparr>"

definition typed_session :: "(c_int \<times> string) list \<Rightarrow> string list" where
  "typed_session es = map (\<lambda>e. edit_line e @ [CHR 0x0A]) es @ [''ETIRW'' @ [CHR 0x0A]]"

lemma edit_line_props:
  assumes "edit_ok e"
  shows "trim_newline (cstr (edit_line e @ [CHR 0x0A])) = edit_line e" "edit_line e \<noteq> []"
    "edit_line e \<noteq> ''ETIRW''" "parse_write_line (edit_line e) = Update (edit_node e)"
proof -
  have sets: "CHR 0x0A \<notin> set (edit_line e)" "CHR 0x0D \<notin> set (edit_line e)" "CHR 0x00 \<notin> set (edit_line e)"
    using assms by (auto simp: edit_ok_def edit_line_def)
  then show "trim_newline (cstr (edit_line e @ [CHR 0x0A])) = edit_line e" by simp
  show "edit_line e \<noteq> []" by (simp add: edit_line_def)
  have "CHR '' '' \<in> set (edit_line e)" "CHR '' '' \<notin> set ''ETIRW''" by (simp_all add: edit_line_def)
  then show "edit_line e \<noteq> ''ETIRW''" by metis
  show "parse_write_line (edit_line e) = Update (edit_node e)"
    unfolding edit_line_def edit_node_def using assms by (intro parse_update_line) (auto simp: edit_ok_def)
qed

lemma write_loop_typed:
  assumes "\<forall>e\<in>set es. edit_ok e"
  shows "\<exists>acts. write_loop (typed_session es @ rest) = (acts, rest) \<and>
    sent_to_ss acts = map edit_line es @ [''ETIRW''] \<and>
    printed acts = concat (replicate (Suc (length es)) ''WRITE > '')"
  using assms
proof (induction es)
  case Nil
  have "trim_newline (cstr (''ETIRW'' @ [CHR 0x0A])) = ''ETIRW''" by code_simp
  then show ?case by (simp add: typed_session_def)
next
  case (Cons e es)
  then obtain acts where "write_loop (typed_session es @ rest) = (acts, rest)"
    "sent_to_ss acts = map edit_line es @ [''ETIRW'']"
    "printed acts = concat (replicate (Suc (length es)) ''WRITE > '')" by auto
  then show ?case using Cons.prems edit_line_props(1-3) [of e]
    by (simp add: typed_session_def Let_def)
qed

lemma received_typed:
  "\<forall>e\<in>set es. edit_ok e \<Longrightarrow> write_recv_loop (map edit_line es @ [''ETIRW'']) us = us @ map edit_node es"
proof (induction es arbitrary: us)
  case Nil
  have "parse_write_line ''ETIRW'' = Etirw" by code_simp
  then show ?case by simp
next
  case (Cons e es)
  then show ?case using edit_line_props(2,4) [of e] by simp
qed

definition write_command :: "string \<Rightarrow> c_int \<Rightarrow> string" where
  "write_command f n = ''WRITE '' @ f @ '' '' @ show_int n"

lemma write_command_props:
  assumes "typed_ok f" "is_int32 n"
  shows "split_string '' '' (write_command f n) = [''WRITE'', f, show_int n]"
    "trim_newline (cstr (write_command f n)) = write_command f n" "cstr (write_command f n) = write_command f n"
    "snprintf BUFFER_SIZE (write_command f n) = write_command f n"
proof -
  have "write_command f n = ''WRITE'' @ CHR '' '' # f @ CHR '' '' # show_int n" by (simp add: write_command_def)
  moreover have "split_string '' '' (''WRITE'' @ CHR '' '' # f @ CHR '' '' # show_int n) = [''WRITE'', f, show_int n]"
    using assms(1) by (subst split_string_field, simp, simp, simp)
      (simp add: typed_ok_def name_ok_def split_string_field split_string_last)
  ultimately show "split_string '' '' (write_command f n) = [''WRITE'', f, show_int n]" by metis
  have sets: "CHR 0x0A \<notin> set (write_command f n)" "CHR 0x0D \<notin> set (write_command f n)" "CHR 0x00 \<notin> set (write_command f n)"
    using assms(1) by (auto simp: write_command_def typed_ok_def name_ok_def)
  then show "trim_newline (cstr (write_command f n)) = write_command f n" "cstr (write_command f n) = write_command f n"
    by simp_all
  have "length (show_int n) \<le> 20" using length_show_int assms(2) by (simp add: is_int32_imp_64)
  then show "snprintf BUFFER_SIZE (write_command f n) = write_command f n"
    using assms(1) by (intro snprintf_id) (simp add: write_command_def typed_ok_def name_ok_def)
qed

lemma ss_serves_write:
  assumes "typed_ok f" "is_int32 n"
  shows "ss_handle_client_connection ss (write_command f n) ms = handle_ss_write ss f n ms"
proof -
  have "write_command f n \<noteq> []" by (simp add: write_command_def)
  then show ?thesis
    using write_command_props(1,3) [OF assms] assms(2) by (simp add: ss_handle_client_connection_def Let_def)
qed

lemma write_session:
  assumes "typed_ok f" "place_ok m" "servers (fm_ss_ip m) (fm_ss_client_port m) = Some ss" "is_int32 n"
    and "handle_ss_write ss f n [] = Some (s0, ToClient ''202 ACK_WRITE: Ready for updates.'' # out0)"
    and "handle_ss_write ss f n (map edit_line es @ [''ETIRW'']) =
      Some (ss', [ToClient ''202 ACK_WRITE: Ready for updates.'', ToClient reply, ToNM info])"
    and "reply \<noteq> []" "cstr reply = reply" "\<forall>e\<in>set es. edit_ok e"
  shows "\<exists>acts. client_handle_write (world env nm k u servers (\<lambda>ms. ms)) (drop 7 (address_reply m)) f n
      (typed_session es @ rest) = (acts @ [Print (reply @ [CHR 0x0A])], rest) \<and>
    sent_to_ss (acts @ [Print (reply @ [CHR 0x0A])]) = write_command f n # map edit_line es @ [''ETIRW'']"
proof -
  let ?e = "world env nm k u servers (\<lambda>ms. ms)"
  let ?ss = "ce_ss ?e (fm_ss_ip m) (fm_ss_client_port m)"
  have con: "client_connect ?e (drop 7 (address_reply m)) = Inr (fm_ss_ip m, fm_ss_client_port m)"
    using assms(3) by (intro client_connected [OF assms(2)]) (simp add: world_def)
  have req: "snprintf BUFFER_SIZE (''WRITE '' @ f @ '' '' @ show_int n) = write_command f n"
    using write_command_props(4) [OF assms(1,4)] unfolding write_command_def .
  have ack: "nth_message 0 (?ss [write_command f n]) = ''202 ACK_WRITE: Ready for updates.''"
    using assms(3,5) ss_serves_write [OF assms(1,4)] by (simp add: world_def nth_message_def)
  have fin: "nth_message 1 (?ss (write_command f n # map edit_line es @ [''ETIRW''])) = reply"
    using assms(3,6) ss_serves_write [OF assms(1,4)] by (simp add: world_def nth_message_def)
  have cack: "cstr ''202 ACK_WRITE: Ready for updates.'' = ''202 ACK_WRITE: Ready for updates.''"
    "starts_with ''202 ACK_WRITE'' ''202 ACK_WRITE: Ready for updates.''" by code_simp+
  obtain acts where acts: "write_loop (typed_session es @ rest) = (acts, rest)"
    "sent_to_ss acts = map edit_line es @ [''ETIRW'']"
    using write_loop_typed [OF assms(9)] by blast
  let ?acts = "SendSS (write_command f n) # Print (write_banner n) # acts"
  have "client_handle_write ?e (drop 7 (address_reply m)) f n (typed_session es @ rest) =
      (?acts @ [Print (reply @ [CHR 0x0A])], rest)"
    unfolding client_handle_write_def con sum.case prod.case Let_def req ack cack acts fin
    using assms(7,8) by (simp add: cack(2))
  moreover have "sent_to_ss (?acts @ [Print (reply @ [CHR 0x0A])]) = write_command f n # map edit_line es @ [''ETIRW'']"
    using acts(2) by (simp add: sent_to_ss_append)
  ultimately show ?thesis by blast
qed

section \<open>A small system for the concrete instances\<close>

definition demo_cluster :: "string \<Rightarrow> c_int \<Rightarrow> StorageServer option" where
  "demo_cluster ip port = (if ip = ''10.0.0.1'' \<and> port = 91 then Some demo_ss else None)"

definition demo_meta_a :: FileMetadata where
  "demo_meta_a = demo_meta\<lparr>fm_filename := ''a''\<rparr>"

definition demo_nm_a :: NameServer where
  "demo_nm_a = demo_nm\<lparr>nm_file_table := fst (ht_insert ht_create demo_meta_a)\<rparr>"

lemma demo_system:
  "typed_ok ''a''" "place_ok demo_meta_a" "ht_get (nm_file_table demo_nm_a) ''a'' = Some demo_meta_a"
  "check_access demo_meta_a ''al'' (CHR ''R'')" "check_access demo_meta_a ''bob'' (CHR ''W'')"
  "find_ss demo_nm_a demo_meta_a \<noteq> None"
  "demo_cluster (fm_ss_ip demo_meta_a) (fm_ss_client_port demo_meta_a) = Some demo_ss"
proof -
  show "typed_ok ''a''" by (simp add: typed_ok_def name_ok_def)
  show "place_ok demo_meta_a" by (simp add: place_ok_def demo_meta_a_def demo_meta_def is_int32_def)
  show "ht_get (nm_file_table demo_nm_a) ''a'' = Some demo_meta_a"
    by (simp add: demo_nm_a_def demo_meta_a_def ht.lookup_insert_if ht.lookup_empty)
  show "check_access demo_meta_a ''al'' (CHR ''R'')" "check_access demo_meta_a ''bob'' (CHR ''W'')" by code_simp+
  show "find_ss demo_nm_a demo_meta_a \<noteq> None"
    by (simp add: find_ss_def demo_nm_a_def demo_nm_def demo_meta_a_def demo_meta_def)
  show "demo_cluster (fm_ss_ip demo_meta_a) (fm_ss_client_port demo_meta_a) = Some demo_ss"
    by (simp add: demo_cluster_def demo_meta_a_def demo_meta_def)
qed

section \<open>Properties\<close>

text \<open>C20. READ from end to end: a user with read permission, whose file's storage server is connected,
  types READ and sees exactly the bytes of the file (if they hold no NUL) and a newline, however
  the network cuts the stream. STREAM shows the same text, if no word is longer than 255 bytes
  and no byte is \<open>0xFF\<close>.\<close>

theorem user_reads_file:
  assumes "typed_ok f" "place_ok m" "ht_get (nm_file_table nm) f = Some m" "check_access m u (CHR ''R'')"
    and "find_ss nm m \<noteq> None" "servers (fm_ss_ip m) (fm_ss_client_port m) = Some ss"
    and "fs_files (ss_fs ss) (ss_filepath ss f) = Some bytes" "CHR 0x00 \<notin> set bytes"
    and "cmd = ''READ'' \<or> cmd = ''STREAM'' \<and> CHR 0xFF \<notin> set bytes \<and> (\<forall>w\<in>set (split_into_words bytes). length w \<le> 255)"
  shows "\<exists>acts. client_parse_and_execute (world env nm k u servers (\<lambda>ms. recv_all sizes (concat ms)))
      (command_line cmd f) stdin = (acts, stdin, Continue) \<and> printed acts = bytes @ [CHR 0x0A]"
proof -
  let ?e = "world env nm k u servers (\<lambda>ms. recv_all sizes (concat ms))" and ?a = "drop 7 (address_reply m)"
  have typed: "split_string '' '' (command_line cmd f) = [cmd, f]"
    "trim_newline (cstr (command_line cmd f)) = command_line cmd f"
    using assms(9) by (auto intro!: split_typed [OF assms(1)])
  have reply: "ce_nm ?e (command_line cmd f) = [address_reply m]"
    using assms(2-5,9) by (intro nm_replies_address [OF typed]) auto
  note run = dispatch_address [OF typed(1) reply assms(2)]
  show ?thesis
  proof (cases "cmd = ''READ''")
    case True
    have "concat (handle_ss_read ss f) = bytes" using assms(7) by (simp add: handle_ss_read_def)
    note shown = read_session [of f m servers ss bytes env nm k u sizes, OF assms(1,2,6) this assms(8)]
    show ?thesis using run(1) True shown by simp
  next
    case False
    then have "concat (handle_ss_stream ss f) = bytes" using stream_bytes [OF assms(7,8)] assms(9) by blast
    note shown = stream_session [of f m servers ss bytes env nm k u sizes, OF assms(1,2,6) this assms(8)]
    show ?thesis using run(2) False assms(9) shown by simp
  qed
qed

theorem user_reads_file_witness:
  "\<exists>acts. client_parse_and_execute (world demo_env demo_nm_a 7 ''al'' demo_cluster (\<lambda>ms. recv_all [2, 5, 1] (concat ms)))
      (command_line ''STREAM'' ''a'') [] = (acts, [], Continue) \<and> printed acts = ''Hi you. Bye.'' @ [CHR 0x0A]"
proof -
  have w: "split_into_words ''Hi you. Bye.'' = [''Hi'', ''you'', ''.'', ''Bye'', ''.'']" by code_simp
  have ok: "CHR 0x00 \<notin> set ''Hi you. Bye.''"
    "''STREAM'' = ''READ'' \<or> ''STREAM'' = ''STREAM'' \<and> CHR 0xFF \<notin> set ''Hi you. Bye.'' \<and>
       (\<forall>w\<in>set (split_into_words ''Hi you. Bye.''). length w \<le> 255)" unfolding w by simp_all
  show ?thesis
    by (rule user_reads_file [of "''a''" demo_meta_a _ _ demo_cluster demo_ss,
          OF demo_system(1-4,6,7) demo_ss_facts(4) ok])
qed



text \<open>C37. Without framing the text depends on the network: the same line and end mark, sent one after
  the other, are received as that edit when the stream is cut between them, and as an edit with
  \<open>ETIRW\<close> glued to its last word when it is not.\<close>

theorem end_mark_can_become_text:
  assumes "is_int32 i" "CHR 0x00 \<notin> set w" "\<exists>c\<in>set w. c \<noteq> CHR '' ''"
    and "length (edit_line (i, w)) + 5 < BUFFER_SIZE"
  shows "\<exists>sizes sizes'. let stream = foldl send_message [] [edit_line (i, w), ''ETIRW''] in
    write_recv_loop (recv_all sizes stream) [] = [\<lparr>un_word_idx = i, un_content = w\<rparr>] \<and>
    write_recv_loop (recv_all sizes' stream) [] = [\<lparr>un_word_idx = i, un_content = w @ ''ETIRW''\<rparr>]"
proof -
  let ?l = "edit_line (i, w)"
  have "CHR 0x00 \<notin> set ?l" using assms(2) by (simp add: edit_line_def)
  moreover have etirw: "cstr ''ETIRW'' = ''ETIRW''" "parse_write_line ''ETIRW'' = Etirw" by code_simp+
  ultimately have stream: "foldl send_message [] [?l, ''ETIRW''] = ?l @ ''ETIRW''"
    by (simp add: send_message_def)
  have ne: "?l \<noteq> []" by (simp add: edit_line_def)
  have "recv_all (map length [?l, ''ETIRW'']) (concat [?l, ''ETIRW'']) = [?l, ''ETIRW'']"
    using assms(4) ne by (intro recv_all_cut) simp
  moreover have "recv_all (map length [?l @ ''ETIRW'']) (concat [?l @ ''ETIRW'']) = [?l @ ''ETIRW'']"
    using assms(4) by (intro recv_all_cut) simp
  moreover have "parse_write_line ?l = Update \<lparr>un_word_idx = i, un_content = w\<rparr>"
    unfolding edit_line_def fst_conv snd_conv using assms(1-3) by (intro parse_update_line)
  moreover have "parse_write_line (?l @ ''ETIRW'') = Update \<lparr>un_word_idx = i, un_content = w @ ''ETIRW''\<rparr>"
  proof -
    have "?l @ ''ETIRW'' = show_int i @ '' '' @ w @ ''ETIRW''" by (simp add: edit_line_def)
    then show ?thesis using assms(1-3) by (simp only:) (intro parse_update_line, auto)
  qed
  ultimately have
    "write_recv_loop (recv_all (map length [?l, ''ETIRW'']) (?l @ ''ETIRW'')) [] = [\<lparr>un_word_idx = i, un_content = w\<rparr>]"
    "write_recv_loop (recv_all (map length [?l @ ''ETIRW'']) (?l @ ''ETIRW'')) [] =
       [\<lparr>un_word_idx = i, un_content = w @ ''ETIRW''\<rparr>]"
    using ne etirw(2) by (simp_all del: list.map)
  then show ?thesis unfolding stream Let_def by blast
qed

theorem end_mark_can_become_text_witness:
  "\<exists>sizes sizes'. let stream = foldl send_message [] [edit_line (0, ''hello''), ''ETIRW''] in
    write_recv_loop (recv_all sizes stream) [] = [\<lparr>un_word_idx = 0, un_content = ''hello''\<rparr>] \<and>
    write_recv_loop (recv_all sizes' stream) [] = [\<lparr>un_word_idx = 0, un_content = ''helloETIRW''\<rparr>]"
proof -
  have "show_int 0 = ''0''" by code_simp
  then show ?thesis using end_mark_can_become_text [of 0 "''hello''"] by (simp add: is_int32_def edit_line_def)
qed

text \<open>C23. Without the permission the command ends at the name server: the user sees the 401 and the
  client contacts no storage server.\<close>

theorem denied_user_stops_at_name_server:
  assumes "split_string '' '' input = args" "trim_newline (cstr input) = input" "2 \<le> length args"
    and "args ! 0 = ''READ'' \<or> args ! 0 = ''STREAM'' \<or> args ! 0 = ''WRITE'' \<or> args ! 0 = ''UNDO''"
    and "ht_get (nm_file_table nm) (args ! 1) = Some m"
    and "p = (if args ! 0 = ''WRITE'' \<or> args ! 0 = ''UNDO'' then CHR ''W'' else CHR ''R'')" "\<not> check_access m u p"
  shows "client_parse_and_execute (world env nm k u servers deliver) input stdin =
    ([SendNM input, Print (''401 ERROR: '' @ [p] @ '' access denied.'' @ [CHR 0x0A])], stdin, Continue)"
proof -
  let ?r = "''401 ERROR: '' @ [p] @ '' access denied.''"
  have "handle_read_write_stream env nm k u args = (nm, [(k, ?r)])"
    using assms(3,5-7) by (simp add: handle_read_write_stream_def Let_def)
  then have "nm_client_command env nm k u input = Some (nm, [(k, ?r)])"
    using assms(3,4) unfolding nm_client_command_def assms(1,2) Let_def by auto
  then have "ce_nm (world env nm k u servers deliver) input = [?r]" by (simp add: world_def)
  then have reply: "nth_message 0 (ce_nm (world env nm k u servers deliver) input) = ?r" by (simp add: nth_message_def)
  have "p \<noteq> CHR 0x00" using assms(6) by simp
  then have "cstr ?r = ?r" by (intro cstr_id) simp
  moreover have "\<not> starts_with ''202 OK'' ?r" by (simp add: starts_with_def)
  moreover have "args \<noteq> []" using assms(3) by auto
  ultimately show ?thesis
    using assms(3,4) by (auto simp: client_parse_and_execute_def assms(1) reply Let_def)
qed

theorem denied_user_stops_at_name_server_witness:
  "client_parse_and_execute (world demo_env demo_nm_a 7 ''al'' demo_cluster (\<lambda>ms. ms)) ''WRITE a 0'' [] =
     ([SendNM ''WRITE a 0'', Print (''401 ERROR: W access denied.'' @ [CHR 0x0A])], [], Continue)"
proof -
  have a: "split_string '' '' ''WRITE a 0'' = [''WRITE'', ''a'', ''0'']"
    "trim_newline (cstr ''WRITE a 0'') = ''WRITE a 0''" by code_simp+
  have no: "\<not> check_access demo_meta_a ''al'' (CHR ''W'')" by code_simp
  show ?thesis using denied_user_stops_at_name_server [OF a, of demo_nm_a demo_meta_a "CHR ''W''" "''al''"
      demo_env 7 demo_cluster "\<lambda>ms. ms" "[]"] no demo_system(3) by simp
qed



end
