(* ===== verification/Commit_Crash.thy ===== *)
theory Commit_Crash
  imports Storage_Server "HOL-Library.Sublist"
begin

text \<open>
  What is on disk in the middle of a commit. \<open>write_commit\<close> is one step for the other sessions of
  its file, which wait for the mutex, but not for a READ, for the index check of another session,
  or for a crash: the commit removes the old backup, writes the new one and then the file, each
  emptied by \<^verbatim>\<open>fopen(path, "w")\<close> and filled in order. \<open>commit_states\<close> lists the file systems
  that can be seen on the way.

  The lemmas show that the list ends in what \<open>write_commit\<close> leaves; the theorems say what a crash
  and a concurrent reader find.
\<close>

section \<open>The states on the way\<close>

text \<open>From \<open>fopen(path, "w")\<close> to \<open>fclose\<close>: some beginning of the content.\<close>

definition write_states :: "FileSystem \<Rightarrow> string \<Rightarrow> string \<Rightarrow> FileSystem list" where
  "write_states fs path content = map (fs_write fs path) (prefixes content)"

definition backup_states :: "FileSystem \<Rightarrow> string \<Rightarrow> string \<Rightarrow> FileSystem list" where
  "backup_states fs filepath undo_filepath =
     (let fs0 = fs_unlink fs undo_filepath
      in [fs, fs0] @
        (case fs_files fs0 filepath of
           None \<Rightarrow> []
         | Some src \<Rightarrow> if \<not> fs_writable fs undo_filepath then [] else write_states fs0 undo_filepath src))"

definition commit_states ::
  "StorageServer \<Rightarrow> string \<Rightarrow> c_int \<Rightarrow> c_int \<Rightarrow> UpdateNode list \<Rightarrow> FileSystem list" where
  "commit_states ss filename sent_num start_log_id updates =
     (let filepath = ss_filepath ss filename;
          fs1 = fst (create_undo_backup (ss_fs ss) filepath (ss_undo_filepath ss filename));
          ss1 = ss\<lparr>ss_fs := fs1\<rparr>;
          current_content = (case get_file_content fs1 filepath of None \<Rightarrow> [] | Some c \<Rightarrow> c);
          real_sent_num = sent_num + get_sentence_shift ss1 filename sent_num start_log_id
      in backup_states (ss_fs ss) filepath (ss_undo_filepath ss filename) @
        (case apply_updates current_content real_sent_num updates of
           None \<Rightarrow> []
         | Some content \<Rightarrow> if \<not> fs_writable fs1 filepath then [] else write_states fs1 filepath content))"

lemma commit_states_eq:
  "commit_states ss f n k us =
     backup_states (ss_fs ss) (ss_filepath ss f) (ss_undo_filepath ss f) @
     (case apply_updates (current_text (backed_up ss f) f) (n + get_sentence_shift ss f n k) us of
        None \<Rightarrow> []
      | Some c \<Rightarrow> if \<not> fs_writable (ss_fs ss) (ss_filepath ss f) then []
                  else write_states (ss_fs (backed_up ss f)) (ss_filepath ss f) c)"
proof -
  have fs1: "fst (create_undo_backup (ss_fs ss) (ss_filepath ss f) (ss_undo_filepath ss f)) = ss_fs (backed_up ss f)"
    by (simp add: backed_up_def)
  have cur: "(case get_file_content (ss_fs (backed_up ss f)) (ss_filepath ss f) of None \<Rightarrow> [] | Some c \<Rightarrow> c) =
    current_text (backed_up ss f) f"
    by (simp add: current_text_def)
  have ss1: "ss\<lparr>ss_fs := ss_fs (backed_up ss f)\<rparr> = backed_up ss f" by (simp add: backed_up_def)
  have w: "fs_writable (ss_fs (backed_up ss f)) = fs_writable (ss_fs ss)" by simp
  show ?thesis unfolding commit_states_def Let_def fs1 cur ss1 w by simp
qed

section \<open>They end where the commit ends\<close>

lemma write_states_not_Nil [simp]: "write_states fs p c \<noteq> []"
  by (simp add: write_states_def)

lemma last_write_states [simp]: "last (write_states fs p c) = fs_write fs p c"
  by (simp add: write_states_def last_map)

lemma set_write_states: "fs' \<in> set (write_states fs p c) \<longleftrightarrow> (\<exists>q. prefix q c \<and> fs' = fs_write fs p q)"
  by (auto simp: write_states_def)

lemma last_backup_states: "last (backup_states fs f u) = fst (create_undo_backup fs f u)"
  by (simp add: backup_states_def create_undo_backup_def Let_def foldl_append_concat fs_unlink_def
      split: option.split)

lemma backup_states_not_Nil [simp]: "backup_states fs f u \<noteq> []"
  by (simp add: backup_states_def Let_def)

lemma last_commit_states:
  assumes "write_commit ss f n k us = Some (ss', outs)"
  shows "last (commit_states ss f n k us) = ss_fs ss'"
  using assms
proof (cases rule: write_commit_cases)
  case (failed msg)
  then show ?thesis
    by (auto simp: commit_states_eq last_backup_states backed_up_def split: option.split)
next
  case (committed c d)
  have "ss_fs ss' = fs_write (ss_fs (backed_up ss f)) (ss_filepath ss f) c"
    using log_modification_Some [OF committed(4)] by auto
  then show ?thesis using committed(1,2) by (simp add: commit_states_eq)
qed

section \<open>One state on the way\<close>

text \<open>The backup phase leaves the file alone; once the file is touched the backup is complete.\<close>

lemma backup_state_cases:
  assumes "fs' \<in> set (backup_states fs f u)" "f \<noteq> u"
  shows "fs_files fs' f = fs_files fs f \<and> fs_writable fs' = fs_writable fs \<and>
    (p \<noteq> u \<longrightarrow> fs_files fs' p = fs_files fs p)"
  using assms
  by (auto simp: backup_states_def Let_def set_write_states fs_write_def fs_unlink_def
      split: option.splits if_splits)

lemma backed_up_copy:
  assumes "path_fits ss f" "fs_writable (ss_fs ss) (ss_undo_filepath ss f)"
  shows "fs_files (ss_fs (backed_up ss f)) (ss_undo_filepath ss f) = fs_files (ss_fs ss) (ss_filepath ss f)"
  using ss_fs_backed_up [OF assms] by simp

lemma mem_commit_states:
  "fs' \<in> set (commit_states ss f n k us) \<longleftrightarrow>
     fs' \<in> set (backup_states (ss_fs ss) (ss_filepath ss f) (ss_undo_filepath ss f)) \<or>
     (fs_writable (ss_fs ss) (ss_filepath ss f) \<and>
      (\<exists>c q. apply_updates (current_text (backed_up ss f) f) (n + get_sentence_shift ss f n k) us = Some c \<and>
        prefix q c \<and> fs' = fs_write (ss_fs (backed_up ss f)) (ss_filepath ss f) q))"
  by (cases "apply_updates (current_text (backed_up ss f) f) (n + get_sentence_shift ss f n k) us")
    (auto simp: commit_states_eq set_write_states)

lemma commit_state_cases:
  assumes "fs' \<in> set (commit_states ss f n k us)" "path_fits ss f"
    "fs_writable (ss_fs ss) (ss_undo_filepath ss f)"
  obtains (backup) "fs_files fs' (ss_filepath ss f) = fs_files (ss_fs ss) (ss_filepath ss f)"
      "fs_writable fs' = fs_writable (ss_fs ss)"
      "\<And>p. p \<noteq> ss_undo_filepath ss f \<Longrightarrow> fs_files fs' p = fs_files (ss_fs ss) p"
  | (written) c q where
      "apply_updates (current_text (backed_up ss f) f) (n + get_sentence_shift ss f n k) us = Some c"
      "prefix q c" "fs_files fs' (ss_filepath ss f) = Some q" "fs_writable fs' = fs_writable (ss_fs ss)"
      "fs_files fs' (ss_undo_filepath ss f) = fs_files (ss_fs ss) (ss_filepath ss f)"
      "\<And>p. p \<noteq> ss_filepath ss f \<Longrightarrow> p \<noteq> ss_undo_filepath ss f \<Longrightarrow> fs_files fs' p = fs_files (ss_fs ss) p"
proof -
  note neq = paths_distinct [OF assms(2)]
  consider "fs' \<in> set (backup_states (ss_fs ss) (ss_filepath ss f) (ss_undo_filepath ss f))"
    | c q where
      "apply_updates (current_text (backed_up ss f) f) (n + get_sentence_shift ss f n k) us = Some c"
      "prefix q c" "fs' = fs_write (ss_fs (backed_up ss f)) (ss_filepath ss f) q"
    using assms(1) mem_commit_states by blast
  then show thesis
  proof cases
    case 1
    then show ?thesis using backup_state_cases [OF 1 neq] by (intro backup) blast+
  next
    case (2 c q)
    then show ?thesis using neq backed_up_copy [OF assms(2,3)] ss_fs_backed_up [OF assms(2,3)]
      by (intro written [OF 2(1,2)]) (simp_all add: fs_write_def)
  qed
qed

section \<open>After a restart\<close>

lemma restart_paths:
  assumes "ss_storage_path ss = ss_storage_path (ss_create path port fs)"
  shows "ss_filepath (ss_create path port fs') f = ss_filepath ss f"
    "ss_undo_filepath (ss_create path port fs') f = ss_undo_filepath ss f"
    "path_fits (ss_create path port fs') f = path_fits ss f"
  using assms by (simp_all add: ss_filepath_def ss_undo_filepath_def path_fits_def ss_create_def)

lemma undo_after_restart:
  assumes "ss_storage_path ss = ss_storage_path (ss_create path port fs)" "length f < MAX_FILENAME_LEN - 1"
    "path_fits ss f" "fs_writable fs' (ss_filepath ss f)" "fs_files fs' (ss_undo_filepath ss f) = Some bytes"
  shows "\<exists>ss' outs. handle_ss_undo (ss_create path port fs') f = Some (ss', outs) \<and>
    fs_files (ss_fs ss') (ss_filepath ss f) = Some bytes"
proof -
  let ?s = "ss_create path port fs'"
  note paths = restart_paths [OF assms(1), of fs' f]
  have "ss_fs ?s = fs'" by (simp add: ss_create_def)
  then show ?thesis
    using handle_ss_undo_eq [OF assms(2), of ?s] assms(3-5) by (auto simp: paths)
qed

section \<open>Properties\<close>

text \<open>C11. A crash at any moment of a commit loses no text: after it, either the file still holds the
  bytes it had before the commit, or the backup does and an UNDO on the restarted server brings
  them back. No other file of the server is touched.\<close>

theorem crash_keeps_text:
  assumes "fs' \<in> set (commit_states ss filename sent_num start_log_id updates)"
    and "length filename < MAX_FILENAME_LEN - 1" "path_fits ss filename"
    and "fs_writable (ss_fs ss) (ss_filepath ss filename)" "fs_writable (ss_fs ss) (ss_undo_filepath ss filename)"
    and "fs_files (ss_fs ss) (ss_filepath ss filename) = Some bytes"
    and "ss_storage_path ss = ss_storage_path (ss_create path port fs)"
  shows "(fs_files fs' (ss_filepath ss filename) = Some bytes \<or>
      (\<exists>ss' outs. handle_ss_undo (ss_create path port fs') filename = Some (ss', outs) \<and>
        fs_files (ss_fs ss') (ss_filepath ss filename) = Some bytes)) \<and>
    (p \<noteq> ss_filepath ss filename \<longrightarrow> p \<noteq> ss_undo_filepath ss filename \<longrightarrow>
      fs_files fs' p = fs_files (ss_fs ss) p)"
  using assms(1,3,5)
proof (cases rule: commit_state_cases)
  case backup
  then show ?thesis using assms(6) by simp
next
  case (written c q)
  have "\<exists>ss' outs. handle_ss_undo (ss_create path port fs') filename = Some (ss', outs) \<and>
    fs_files (ss_fs ss') (ss_filepath ss filename) = Some bytes"
    using written(4,5) assms(4,6) by (intro undo_after_restart [OF assms(7,2,3)]) simp_all
  then show ?thesis using written(6) by simp
qed

definition demo_update :: "UpdateNode list" where
  "demo_update = [\<lparr>un_word_idx = 1, un_content = ''all''\<rparr>]"

text \<open>The crash between \<open>fopen(filepath, "w")\<close> and the first byte.\<close>

definition demo_crash :: FileSystem where
  "demo_crash = commit_states demo_ss ''a'' 0 0 demo_update ! 15"

lemma demo_crash_facts:
  "demo_crash \<in> set (commit_states demo_ss ''a'' 0 0 demo_update)"
  "fs_files demo_crash (ss_filepath demo_ss ''a'') = Some []"
proof -
  have l: "15 < length (commit_states demo_ss ''a'' 0 0 demo_update)" by code_simp
  show "demo_crash \<in> set (commit_states demo_ss ''a'' 0 0 demo_update)"
    unfolding demo_crash_def by (rule nth_mem [OF l])
  show "fs_files demo_crash (ss_filepath demo_ss ''a'') = Some []" by code_simp
qed

theorem crash_keeps_text_witness:
  "\<exists>ss' outs. handle_ss_undo (ss_create ''s'' 9000 demo_crash) ''a'' = Some (ss', outs) \<and>
     fs_files (ss_fs ss') (ss_filepath demo_ss ''a'') = Some ''Hi you. Bye.''"
proof -
  have "ss_storage_path demo_ss = ss_storage_path (ss_create ''s'' 9000 demo_fs)" by (simp add: demo_ss_def)
  then show ?thesis
    using crash_keeps_text [OF demo_crash_facts(1) demo_session(5) demo_ss_facts(3,5,5,4), of "''s''" 9000 demo_fs]
      demo_crash_facts(2)
    by simp
qed

text \<open>The other side of an UNDO after a crash: it does not know that the backup is unfinished. For
  every beginning of the old text there is a moment of the commit at which the file is intact
  and, after a crash there, an UNDO cuts it down to that beginning.\<close>

theorem undo_of_torn_backup_cuts_file:
  assumes "prefix q bytes" "length filename < MAX_FILENAME_LEN - 1" "path_fits ss filename"
    and "fs_writable (ss_fs ss) (ss_filepath ss filename)" "fs_writable (ss_fs ss) (ss_undo_filepath ss filename)"
    and "fs_files (ss_fs ss) (ss_filepath ss filename) = Some bytes"
    and "ss_storage_path ss = ss_storage_path (ss_create path port fs)"
  shows "\<exists>fs'\<in>set (commit_states ss filename sent_num start_log_id updates).
    fs_files fs' (ss_filepath ss filename) = Some bytes \<and>
    (\<exists>ss' outs. handle_ss_undo (ss_create path port fs') filename = Some (ss', outs) \<and>
      fs_files (ss_fs ss') (ss_filepath ss filename) = Some q)"
proof -
  let ?f = "ss_filepath ss filename" and ?u = "ss_undo_filepath ss filename"
  let ?fs = "fs_write (fs_unlink (ss_fs ss) ?u) ?u q"
  note neq = paths_distinct [OF assms(3)]
  have "?fs \<in> set (backup_states (ss_fs ss) ?f ?u)"
    using assms(1,5,6) neq by (auto simp: backup_states_def Let_def set_write_states fs_unlink_def)
  then have "?fs \<in> set (commit_states ss filename sent_num start_log_id updates)"
    by (simp add: mem_commit_states)
  moreover have "fs_files ?fs ?f = Some bytes" using assms(6) neq by (simp add: fs_write_def fs_unlink_def)
  moreover have "\<exists>ss' outs. handle_ss_undo (ss_create path port ?fs) filename = Some (ss', outs) \<and>
      fs_files (ss_fs ss') ?f = Some q"
    using assms(4) by (intro undo_after_restart [OF assms(7,2,3)]) (simp_all add: fs_write_def fs_unlink_def)
  ultimately show ?thesis by blast
qed

theorem undo_of_torn_backup_cuts_file_witness:
  "\<exists>fs' ss' outs. fs_files fs' (ss_filepath demo_ss ''a'') = Some ''Hi you. Bye.'' \<and>
     handle_ss_undo (ss_create ''s'' 9000 fs') ''a'' = Some (ss', outs) \<and>
     fs_files (ss_fs ss') (ss_filepath demo_ss ''a'') = Some ''Hi''"
proof -
  have "ss_storage_path demo_ss = ss_storage_path (ss_create ''s'' 9000 demo_fs)" by (simp add: demo_ss_def)
  moreover have "prefix ''Hi'' ''Hi you. Bye.''" by simp
  ultimately show ?thesis
    using undo_of_torn_backup_cuts_file [OF _ demo_session(5) demo_ss_facts(3,5,5,4), of "''Hi''" "''s''" 9000 demo_fs]
    by blast
qed

text \<open>A READ takes no mutex. During a commit it delivers the old text or a beginning of the new one;
  and a WRITE that asks for any sentence but the first can be told that it is out of range, also
  when that sentence exists before and after the commit.\<close>

theorem readers_during_commit:
  assumes "path_fits ss filename" "fs_writable (ss_fs ss) (ss_undo_filepath ss filename)"
    and "fs_writable (ss_fs ss) (ss_filepath ss filename)"
    and "fs_files (ss_fs ss) (ss_filepath ss filename) = Some bytes"
    and "apply_updates (current_text ss filename) (sent_num + get_sentence_shift ss filename sent_num start_log_id)
           updates = Some content"
  shows "(\<forall>fs'\<in>set (commit_states ss filename sent_num start_log_id updates).
      concat (handle_ss_read (ss\<lparr>ss_fs := fs'\<rparr>) filename) = bytes \<or>
      prefix (concat (handle_ss_read (ss\<lparr>ss_fs := fs'\<rparr>) filename)) content) \<and>
    (\<exists>fs'\<in>set (commit_states ss filename sent_num start_log_id updates).
      \<forall>m\<noteq>0. \<not> write_in_range (ss\<lparr>ss_fs := fs'\<rparr>) filename m)"
proof -
  note neq = paths_distinct [OF assms(1)]
  have cur: "current_text (backed_up ss filename) filename = current_text ss filename"
    using neq by (rule current_text_backed_up)
  have read: "fs_files fs' (ss_filepath ss filename) = Some b \<Longrightarrow>
      concat (handle_ss_read (ss\<lparr>ss_fs := fs'\<rparr>) filename) = b" for fs' b
    by (simp add: handle_ss_read_def)
  have "concat (handle_ss_read (ss\<lparr>ss_fs := fs'\<rparr>) filename) = bytes \<or>
      prefix (concat (handle_ss_read (ss\<lparr>ss_fs := fs'\<rparr>) filename)) content"
    if "fs' \<in> set (commit_states ss filename sent_num start_log_id updates)" for fs'
    using that assms(1,2)
  proof (cases rule: commit_state_cases)
    case backup
    then show ?thesis using assms(4) read by simp
  next
    case (written c q)
    then show ?thesis using assms(5) read cur by simp
  qed
  moreover have "\<exists>fs'\<in>set (commit_states ss filename sent_num start_log_id updates).
      \<forall>m\<noteq>0. \<not> write_in_range (ss\<lparr>ss_fs := fs'\<rparr>) filename m"
  proof
    let ?fs = "fs_write (ss_fs (backed_up ss filename)) (ss_filepath ss filename) []"
    show "?fs \<in> set (commit_states ss filename sent_num start_log_id updates)"
      unfolding mem_commit_states cur using assms(3,5) Nil_prefix by blast
    have "current_text (ss\<lparr>ss_fs := ?fs\<rparr>) filename = []"
      by (simp add: current_text_def get_file_content_def fs_write_def)
    then show "\<forall>m\<noteq>0. \<not> write_in_range (ss\<lparr>ss_fs := ?fs\<rparr>) filename m"
      by (simp add: write_in_range_eq split_into_sentences_eq Let_def)
  qed
  ultimately show ?thesis by blast
qed

theorem readers_during_commit_witness:
  "write_in_range demo_ss ''a'' 1 \<and>
   (\<exists>fs'\<in>set (commit_states demo_ss ''a'' 0 0 demo_update).
     \<not> write_in_range (demo_ss\<lparr>ss_fs := fs'\<rparr>) ''a'' 1)"
proof -
  have "apply_updates (current_text demo_ss ''a'') (0 + get_sentence_shift demo_ss ''a'' 0 0) demo_update =
    Some ''Hi all you. Bye.''" by code_simp
  note window = readers_during_commit [OF demo_ss_facts(3,5,5,4) this, THEN conjunct2]
  moreover have "write_in_range demo_ss ''a'' 1" by code_simp
  ultimately show ?thesis using one_neq_zero by blast
qed

text \<open>The last of these states is what the commit leaves: the one step \<open>write_commit\<close> takes in the
  interleaving of the sessions is the sequence of system calls, run to its end.\<close>

theorem commit_states_end:
  assumes "write_commit ss filename sent_num start_log_id updates = Some (ss', outs)"
  shows "last (commit_states ss filename sent_num start_log_id updates) = ss_fs ss'"
  by (rule last_commit_states [OF assms])

theorem commit_states_end_witness:
  "fs_files (last (commit_states demo_ss ''a'' 0 0 demo_update)) (ss_filepath demo_ss ''a'') =
     Some ''Hi all you. Bye.''"
proof -
  have "map_option (\<lambda>r. fs_files (ss_fs (fst r)) (ss_filepath demo_ss ''a''))
    (write_commit demo_ss ''a'' 0 0 demo_update) = Some (Some ''Hi all you. Bye.'')" by code_simp
  then obtain ss' outs where c: "write_commit demo_ss ''a'' 0 0 demo_update = Some (ss', outs)"
    "fs_files (ss_fs ss') (ss_filepath demo_ss ''a'') = Some ''Hi all you. Bye.''" by auto
  show ?thesis using commit_states_end [OF c(1)] c(2) by simp
qed

end
