(* ===== verification/NM_Interleaving.thy ===== *)
theory NM_Interleaving
  imports NM_Commands
begin

text \<open>
  CREATE, DELETE, ADDACCESS and REMACCESS commands of several clients at the same time. The name server
  runs each client in its own thread; the table of files and the list of storage servers are locked
  for one operation at a time, not for a command. \<open>file_step\<close> is \<open>handle_create_delete\<close> and
  \<open>handle_access\<close> (\<^verbatim>\<open>src/name_server/client_handler.c\<close>) with the \<open>nm_save_files\<close> they end in
  (\<^verbatim>\<open>src/name_server/persistence.c\<close>), cut between these operations; \<open>fc_step\<close> is the interleaving
  of any number of such threads with the storage server messages that only change metadata in place.

  A thread keeps the pointer \<open>ht_get\<close> gave it; \<open>ft_dangling\<close> says that another thread has freed the
  metadata since. The output of a save goes through its own file descriptor: \<open>overlay\<close> is a
  \<^verbatim>\<open>write\<close> at an offset, in a file another save may have emptied or extended.

  The lemmas show that a thread that runs alone does what the handler of \<open>NM_Handlers\<close> does, and
  that commands on different files do not disturb each other in memory; the last theorems are the
  races that remain.
\<close>

section \<open>One thread\<close>

datatype file_phase =
  Arrived | Checked | Picked StorageServerInfo | Announced FileMetadata | Inserted |
  Found | Owned | Notified | Removed | Updated | Opened | Writing string nat | Ended

text \<open>The command of a thread; a change of permissions has the user, and the permission it grants if any.\<close>

datatype file_cmd = CreateFile | DeleteFile | ChangeAccess string "char option"

record FileThread =
  ft_cmd :: file_cmd
  ft_sock :: c_int
  ft_user :: string
  ft_filename :: string
  ft_phase :: file_phase
  ft_dangling :: bool

definition file_thread :: "file_cmd \<Rightarrow> c_int \<Rightarrow> string \<Rightarrow> string \<Rightarrow> FileThread" where
  "file_thread cmd sock u f =
     \<lparr>ft_cmd = cmd, ft_sock = sock, ft_user = u, ft_filename = f, ft_phase = Arrived, ft_dangling = False\<rparr>"

text \<open>\<open>b\<close> written at offset \<open>n\<close> of a file that holds \<open>c\<close>; a hole reads as zeros.\<close>

definition overlay :: "nat \<Rightarrow> string \<Rightarrow> string \<Rightarrow> string" where
  "overlay n b c = take n c @ replicate (n - length c) (CHR 0x00) @ b @ drop (n + length b) c"

definition files_on_disk :: "NameServer \<Rightarrow> string" where
  "files_on_disk nm = (case fs_files (nm_fs nm) NM_FILES_FILE of None \<Rightarrow> [] | Some c \<Rightarrow> c)"

definition write_files_at :: "NameServer \<Rightarrow> nat \<Rightarrow> string \<Rightarrow> NameServer" where
  "write_files_at nm n b = nm\<lparr>nm_fs := fs_write (nm_fs nm) NM_FILES_FILE (overlay n b (files_on_disk nm))\<rparr>"

definition table_text :: "NameServer \<Rightarrow> string" where
  "table_text nm = concat (map render_file (ht_files (nm_file_table nm)))"

definition not_owner :: "file_cmd \<Rightarrow> string" where
  "not_owner cmd = (case cmd of
     ChangeAccess target grant \<Rightarrow> ''401 ERROR: Only the owner can change permissions.''
   | _ \<Rightarrow> ''401 ERROR: Only the owner can delete a file.'')"

text \<open>What ADDACCESS or REMACCESS does to the access list, under the lock of the metadata, and its answer.\<close>

definition access_change :: "AccessNode list \<Rightarrow> string \<Rightarrow> char option \<Rightarrow> (AccessNode list \<times> string) option" where
  "access_change acl target grant =
     (case grant of
        Some perm \<Rightarrow> map_option (\<lambda>l. (l, ''200 OK: Access granted.'')) (add_access acl target perm)
      | None \<Rightarrow> Some (remove_access acl target, ''200 OK: Access removed.''))"

definition set_access :: "HashTable \<Rightarrow> string \<Rightarrow> AccessNode list \<Rightarrow> HashTable" where
  "set_access table filename acl = ht_update table filename (\<lambda>m. m\<lparr>fm_access_list := acl\<rparr>)"

text \<open>\<open>None\<close>: the thread has ended, or what it does is undefined. \<open>k\<close> bytes of a save reach the disk
  at a time.\<close>

definition file_step :: "Env \<Rightarrow> nat \<Rightarrow> NameServer \<Rightarrow> FileThread \<Rightarrow> (NameServer \<times> FileThread \<times> nm_out list) option" where
  "file_step env k nm th =
     (let table = nm_file_table nm; filename = ft_filename th; username = ft_user th; sock = ft_sock th
      in case ft_phase th of
        Arrived \<Rightarrow>
          if ft_cmd th = CreateFile then
            (if ht_get table filename \<noteq> None
             then Some (nm, th\<lparr>ft_phase := Ended\<rparr>, [(sock, ''409 ERROR: File already exists.'')])
             else Some (nm, th\<lparr>ft_phase := Checked\<rparr>, []))
          else if ht_get table filename = None
            then Some (nm, th\<lparr>ft_phase := Ended\<rparr>, [(sock, ''404 ERROR: File not found.'')])
            else Some (nm, th\<lparr>ft_phase := Found\<rparr>, [])
      | Checked \<Rightarrow> (case get_ss_for_new_file nm of
            (nm, None) \<Rightarrow> Some (nm, th\<lparr>ft_phase := Ended\<rparr>, [(sock, ''503 ERROR: No storage servers available.'')])
          | (nm, Some ss) \<Rightarrow> Some (nm, th\<lparr>ft_phase := Picked ss\<rparr>, []))
      | Picked ss \<Rightarrow> (case add_access [] username (CHR ''W'') of
            None \<Rightarrow> None
          | Some acl \<Rightarrow> Some (nm, th\<lparr>ft_phase := Announced (new_file env username filename acl ss)\<rparr>,
              [(si_socket ss, snprintf BUFFER_SIZE (''CREATE '' @ filename))]))
      | Announced meta \<Rightarrow>
          Some (nm\<lparr>nm_file_table := fst (ht_insert table meta)\<rparr>, th\<lparr>ft_phase := Inserted\<rparr>, [])
      | Inserted \<Rightarrow> Some (nm\<lparr>nm_file_trie := trie_insert (nm_file_trie nm) filename\<rparr>, th\<lparr>ft_phase := Updated\<rparr>,
            [(sock, ''201 OK: File created successfully!'')])
      | Found \<Rightarrow>
          if ft_dangling th then None
          else (case ht_get table filename of
              None \<Rightarrow> None
            | Some meta \<Rightarrow>
                if fm_owner meta \<noteq> username
                then Some (nm, th\<lparr>ft_phase := Ended\<rparr>, [(sock, not_owner (ft_cmd th))])
                else Some (nm, th\<lparr>ft_phase := Owned\<rparr>, []))
      | Owned \<Rightarrow>
          if ft_dangling th then None
          else (case ht_get table filename of
              None \<Rightarrow> None
            | Some meta \<Rightarrow>
                (case ft_cmd th of
                   ChangeAccess target grant \<Rightarrow> map_option (\<lambda>(acl, reply).
                     (nm\<lparr>nm_file_table := set_access table filename acl\<rparr>, th\<lparr>ft_phase := Updated\<rparr>, [(sock, reply)]))
                     (access_change (fm_access_list meta) target grant)
                 | _ \<Rightarrow> Some (nm, th\<lparr>ft_phase := Notified\<rparr>,
                     (case find_ss nm meta of
                        Some ss \<Rightarrow> if si_socket ss \<noteq> -1
                          then [(si_socket ss, snprintf BUFFER_SIZE (''DELETE '' @ filename))] else []
                      | None \<Rightarrow> []))))
      | Notified \<Rightarrow> Some (nm\<lparr>nm_file_table := ht_delete table filename\<rparr>, th\<lparr>ft_phase := Removed\<rparr>, [])
      | Removed \<Rightarrow> Some (nm\<lparr>nm_file_trie := trie_delete (nm_file_trie nm) filename\<rparr>, th\<lparr>ft_phase := Updated\<rparr>,
            [(sock, ''200 OK: File deleted successfully.'')])
      | Updated \<Rightarrow>
          if \<not> fs_writable (nm_fs nm) NM_FILES_FILE then Some (nm, th\<lparr>ft_phase := Ended\<rparr>, [])
          else Some (nm\<lparr>nm_fs := fs_write (nm_fs nm) NM_FILES_FILE []\<rparr>, th\<lparr>ft_phase := Opened\<rparr>, [])
      | Opened \<Rightarrow> Some (nm, th\<lparr>ft_phase := Writing (table_text nm) 0\<rparr>, [])
      | Writing bytes n \<Rightarrow>
          if n = length bytes then Some (nm, th\<lparr>ft_phase := Ended\<rparr>, [])
          else
            let b = take k (drop n bytes)
            in if b = [] then None
               else Some (write_files_at nm n b, th\<lparr>ft_phase := Writing bytes (n + length b)\<rparr>, [])
      | Ended \<Rightarrow> None)"

section \<open>All threads\<close>

record FileCommands =
  fc_nm :: NameServer
  fc_threads :: "FileThread list"
  fc_sent :: "nm_out list"

text \<open>The removal of an entry frees its metadata under the threads that hold the pointer.\<close>

definition holds_meta :: "FileThread \<Rightarrow> bool" where
  "holds_meta th \<longleftrightarrow> ft_phase th \<in> {Found, Owned, Notified}"

definition after_step_of :: "FileThread \<Rightarrow> FileThread \<Rightarrow> FileThread" where
  "after_step_of actor th =
     (if ft_phase actor = Notified \<and> ft_filename th = ft_filename actor \<and> holds_meta th
      then th\<lparr>ft_dangling := True\<rparr> else th)"

definition fc_next :: "Env \<Rightarrow> nat \<Rightarrow> nat \<Rightarrow> FileCommands \<Rightarrow> FileCommands option" where
  "fc_next env t k s =
     (if t < length (fc_threads s) then
        case file_step env k (fc_nm s) (fc_threads s ! t) of
          None \<Rightarrow> None
        | Some (nm', th', outs) \<Rightarrow> Some (s\<lparr>fc_nm := nm',
            fc_threads := (map (after_step_of (fc_threads s ! t)) (fc_threads s))[t := th'],
            fc_sent := fc_sent s @ outs\<rparr>)
      else None)"

inductive fc_step :: "FileCommands \<Rightarrow> FileCommands \<Rightarrow> bool" where
  thread: "fc_next env t k s = Some s' \<Longrightarrow> fc_step s s'"
| arrive: "fc_step s (s\<lparr>fc_threads := fc_threads s @ [file_thread cmd sock u f]\<rparr>)"
| change_in_place:
    "(\<And>m. fm_filename (g m) = fm_filename m) \<Longrightarrow> (\<And>m. fm_owner (g m) = fm_owner m) \<Longrightarrow>
     fc_step s (s\<lparr>fc_nm := (fc_nm s)\<lparr>nm_file_table := ht_update (nm_file_table (fc_nm s)) f g\<rparr>\<rparr>)"

inductive fc_reachable :: "NameServer \<Rightarrow> FileCommands \<Rightarrow> bool" for nm where
  start: "fc_reachable nm \<lparr>fc_nm = nm, fc_threads = [], fc_sent = []\<rparr>"
| step: "fc_reachable nm s \<Longrightarrow> fc_step s s' \<Longrightarrow> fc_reachable nm s'"

fun fc_run :: "Env \<Rightarrow> (nat \<times> nat) list \<Rightarrow> FileCommands \<Rightarrow> FileCommands option" where
  "fc_run env [] s = Some s"
| "fc_run env ((t, k) # sched) s = (case fc_next env t k s of None \<Rightarrow> None | Some s' \<Rightarrow> fc_run env sched s')"

lemma fc_run_reachable: "fc_run env sched s = Some s' \<Longrightarrow> fc_reachable nm s \<Longrightarrow> fc_reachable nm s'"
proof (induction env sched s rule: fc_run.induct)
  case (2 env t k sched s)
  then show ?case by (auto split: option.splits intro: fc_reachable.step fc_step.thread)
qed simp

lemma fc_reachable_arrivals:
  "fc_reachable nm \<lparr>fc_nm = nm, fc_threads = map (\<lambda>(c, k, u, f). file_thread c k u f) rs, fc_sent = []\<rparr>"
proof (induction rs rule: rev_induct)
  case Nil
  show ?case using fc_reachable.start by simp
next
  case (snoc r rs)
  obtain c k u f where r: "r = (c, k, u, f)" by (cases r)
  show ?case using fc_reachable.step [OF snoc fc_step.arrive, of c k u f] by (simp add: r)
qed

section \<open>A thread that runs alone\<close>

inductive file_steps ::
  "Env \<Rightarrow> NameServer \<Rightarrow> FileThread \<Rightarrow> nm_out list \<Rightarrow> NameServer \<Rightarrow> FileThread \<Rightarrow> bool" for env where
  stop: "file_steps env nm th [] nm th"
| more: "file_step env k nm th = Some (nm1, th1, o1) \<Longrightarrow> file_steps env nm1 th1 o2 nm' th' \<Longrightarrow>
         file_steps env nm th (o1 @ o2) nm' th'"

text \<open>What is left of the handler in each phase.\<close>

definition save_rest :: "NameServer \<Rightarrow> nat \<Rightarrow> string \<Rightarrow> NameServer" where
  "save_rest nm n b = (if b = [] then nm else write_files_at nm n b)"

definition announced_rest :: "NameServer \<Rightarrow> c_int \<Rightarrow> string \<Rightarrow> FileMetadata \<Rightarrow> NameServer \<times> nm_out list" where
  "announced_rest nm sock f meta =
     (nm_save_files (nm\<lparr>nm_file_table := fst (ht_insert (nm_file_table nm) meta),
        nm_file_trie := trie_insert (nm_file_trie nm) f\<rparr>),
      [(sock, ''201 OK: File created successfully!'')])"

definition picked_rest ::
  "Env \<Rightarrow> NameServer \<Rightarrow> c_int \<Rightarrow> string \<Rightarrow> string \<Rightarrow> StorageServerInfo \<Rightarrow> (NameServer \<times> nm_out list) option" where
  "picked_rest env nm sock u f ss =
     map_option (\<lambda>acl. case announced_rest nm sock f (new_file env u f acl ss) of (nm', outs) \<Rightarrow>
         (nm', (si_socket ss, snprintf BUFFER_SIZE (''CREATE '' @ f)) # outs))
       (add_access [] u (CHR ''W''))"

definition removed_rest :: "NameServer \<Rightarrow> c_int \<Rightarrow> string \<Rightarrow> NameServer \<times> nm_out list" where
  "removed_rest nm sock f =
     (nm_save_files (nm\<lparr>nm_file_table := ht_delete (nm_file_table nm) f,
        nm_file_trie := trie_delete (nm_file_trie nm) f\<rparr>),
      [(sock, ''200 OK: File deleted successfully.'')])"

definition delete_note :: "NameServer \<Rightarrow> string \<Rightarrow> FileMetadata \<Rightarrow> nm_out list" where
  "delete_note nm f meta =
     (case find_ss nm meta of
        Some ss \<Rightarrow> if si_socket ss \<noteq> -1 then [(si_socket ss, snprintf BUFFER_SIZE (''DELETE '' @ f))] else []
      | None \<Rightarrow> [])"

definition owned_access_rest ::
  "NameServer \<Rightarrow> c_int \<Rightarrow> string \<Rightarrow> string \<Rightarrow> char option \<Rightarrow> (NameServer \<times> nm_out list) option" where
  "owned_access_rest nm sock f target grant =
     (case ht_get (nm_file_table nm) f of
        None \<Rightarrow> None
      | Some meta \<Rightarrow> map_option (\<lambda>(acl, reply).
          (nm_save_files (nm\<lparr>nm_file_table := set_access (nm_file_table nm) f acl\<rparr>), [(sock, reply)]))
          (access_change (fm_access_list meta) target grant))"

definition found_rest :: "NameServer \<Rightarrow> c_int \<Rightarrow> string \<Rightarrow> string \<Rightarrow> file_cmd \<Rightarrow> (NameServer \<times> nm_out list) option" where
  "found_rest nm sock u f cmd =
     (case cmd of
        ChangeAccess target grant \<Rightarrow>
          (case ht_get (nm_file_table nm) f of
             None \<Rightarrow> Some (nm, [(sock, ''404 ERROR: File not found.'')])
           | Some meta \<Rightarrow> if fm_owner meta \<noteq> u then Some (nm, [(sock, not_owner cmd)])
               else owned_access_rest nm sock f target grant)
      | _ \<Rightarrow> Some (handle_delete nm sock u f))"

definition thread_rest :: "Env \<Rightarrow> NameServer \<Rightarrow> FileThread \<Rightarrow> (NameServer \<times> nm_out list) option" where
  "thread_rest env nm th =
     (let f = ft_filename th; u = ft_user th; sock = ft_sock th
      in case ft_phase th of
        Arrived \<Rightarrow> if ft_cmd th = CreateFile then handle_create env nm sock u f else found_rest nm sock u f (ft_cmd th)
      | Checked \<Rightarrow> (case get_ss_for_new_file nm of
            (nm, None) \<Rightarrow> Some (nm, [(sock, ''503 ERROR: No storage servers available.'')])
          | (nm, Some ss) \<Rightarrow> picked_rest env nm sock u f ss)
      | Picked ss \<Rightarrow> picked_rest env nm sock u f ss
      | Announced meta \<Rightarrow> Some (announced_rest nm sock f meta)
      | Inserted \<Rightarrow> Some (nm_save_files (nm\<lparr>nm_file_trie := trie_insert (nm_file_trie nm) f\<rparr>),
            [(sock, ''201 OK: File created successfully!'')])
      | Found \<Rightarrow> found_rest nm sock u f (ft_cmd th)
      | Owned \<Rightarrow> (case ft_cmd th of
            ChangeAccess target grant \<Rightarrow> owned_access_rest nm sock f target grant
          | _ \<Rightarrow> (case ht_get (nm_file_table nm) f of
                None \<Rightarrow> None
              | Some meta \<Rightarrow> (case removed_rest nm sock f of (nm', outs) \<Rightarrow> Some (nm', delete_note nm f meta @ outs))))
      | Notified \<Rightarrow> Some (removed_rest nm sock f)
      | Removed \<Rightarrow> Some (nm_save_files (nm\<lparr>nm_file_trie := trie_delete (nm_file_trie nm) f\<rparr>),
            [(sock, ''200 OK: File deleted successfully.'')])
      | Updated \<Rightarrow> Some (nm_save_files nm, [])
      | Opened \<Rightarrow> Some (save_rest nm 0 (table_text nm), [])
      | Writing bytes n \<Rightarrow> Some (save_rest nm n (drop n bytes), [])
      | Ended \<Rightarrow> Some (nm, []))"

lemmas rest_defs = picked_rest_def announced_rest_def removed_rest_def delete_note_def

text \<open>Pieces that follow each other on disk are one piece.\<close>

lemma overlay_overlay: "overlay (n + length b) b' (overlay n b c) = overlay n (b @ b') c"
  by (auto simp: overlay_def nth_append algebra_simps min_def intro!: nth_equalityI)

lemma overlay_empty [simp]: "overlay 0 b [] = b"
  by (simp add: overlay_def)

lemma write_files_at_twice: "write_files_at (write_files_at nm n b) (n + length b) b' = write_files_at nm n (b @ b')"
  by (simp add: write_files_at_def files_on_disk_def fs_write_def overlay_overlay)

lemma write_emptied:
  "save_rest (nm\<lparr>nm_fs := fs_write (nm_fs nm) NM_FILES_FILE []\<rparr>) 0 b =
     nm\<lparr>nm_fs := fs_write (nm_fs nm) NM_FILES_FILE b\<rparr>"
  by (simp add: save_rest_def write_files_at_def files_on_disk_def fs_write_def)

lemma get_ss_table: "get_ss_for_new_file nm = (nm', r) \<Longrightarrow> nm_file_table nm' = nm_file_table nm"
  by (auto simp: get_ss_for_new_file_def Let_def split: if_splits)

text \<open>The handlers, in these pieces.\<close>

lemma handle_create_rest:
  "handle_create env nm sock u f =
     (if ht_get (nm_file_table nm) f \<noteq> None then Some (nm, [(sock, ''409 ERROR: File already exists.'')])
      else case get_ss_for_new_file nm of
          (nm, None) \<Rightarrow> Some (nm, [(sock, ''503 ERROR: No storage servers available.'')])
        | (nm, Some ss) \<Rightarrow> picked_rest env nm sock u f ss)"
  by (auto simp: handle_create_def picked_rest_def announced_rest_def Let_def split: option.split prod.split)

lemma handle_delete_rest:
  "handle_delete nm sock u f =
     (case ht_get (nm_file_table nm) f of
        None \<Rightarrow> (nm, [(sock, ''404 ERROR: File not found.'')])
      | Some meta \<Rightarrow>
          if fm_owner meta \<noteq> u then (nm, [(sock, ''401 ERROR: Only the owner can delete a file.'')])
          else (case removed_rest nm sock f of (nm', outs) \<Rightarrow> (nm', delete_note nm f meta @ outs)))"
  by (simp add: handle_delete_def removed_rest_def delete_note_def Let_def split: option.split)

text \<open>A step takes its part off what is left.\<close>

lemma save_step_rest:
  assumes "file_step env k nm th = Some (nm1, th1, o1)" "ft_phase th = Writing bytes n"
  shows "thread_rest env nm th = map_option (\<lambda>(nm', o2). (nm', o1 @ o2)) (thread_rest env nm1 th1)"
proof (cases "n = length bytes")
  case True
  then show ?thesis using assms by (auto simp: file_step_def thread_rest_def save_rest_def)
next
  case False
  let ?b = "take k (drop n bytes)"
  have b: "?b \<noteq> []" and step: "nm1 = write_files_at nm n ?b" "o1 = []"
    "th1 = th\<lparr>ft_phase := Writing bytes (n + length ?b)\<rparr>"
    using assms False by (auto simp: file_step_def Let_def split: if_splits)
  have split: "drop n bytes = ?b @ drop (n + length ?b) bytes"
    by (metis append_take_drop_id append_eq_conv_conj drop_drop add.commute)
  have "save_rest nm n (drop n bytes) = write_files_at nm n (?b @ drop (n + length ?b) bytes)"
    using b by (subst split) (simp add: save_rest_def)
  also have "\<dots> = save_rest nm1 (n + length ?b) (drop (n + length ?b) bytes)"
    unfolding step(1) save_rest_def write_files_at_twice by (simp del: length_take)
  finally show ?thesis using assms(2) step by (simp add: thread_rest_def)
qed

lemma file_step_rest:
  assumes "file_step env k nm th = Some (nm1, th1, o1)"
  shows "thread_rest env nm th = map_option (\<lambda>(nm', o2). (nm', o1 @ o2)) (thread_rest env nm1 th1)"
proof (cases "ft_phase th")
  case Arrived
  then show ?thesis using assms
    by (auto simp: file_step_def thread_rest_def handle_create_rest handle_delete_rest found_rest_def Let_def option.map_id
        split: if_splits file_cmd.split)
next
  case Checked
  then show ?thesis using assms
    by (auto simp: file_step_def thread_rest_def Let_def option.map_id split: option.splits prod.splits)
next
  case (Picked ss)
  then show ?thesis using assms
    by (auto simp: file_step_def thread_rest_def picked_rest_def Let_def split: option.splits)
next
  case Found
  then show ?thesis using assms
    by (auto simp: file_step_def thread_rest_def handle_delete_rest found_rest_def not_owner_def Let_def option.map_id
        split: option.splits if_splits prod.splits file_cmd.splits)
next
  case Owned
  then show ?thesis using assms
    by (auto simp: file_step_def thread_rest_def delete_note_def owned_access_rest_def Let_def
        split: option.splits if_splits prod.splits file_cmd.splits)
next
  case Updated
  then show ?thesis using assms
    by (auto simp: file_step_def thread_rest_def write_emptied nm_save_files_def table_text_def Let_def
        split: if_splits)
qed (use assms save_step_rest [OF assms] in
  \<open>auto simp: file_step_def thread_rest_def announced_rest_def removed_rest_def Let_def\<close>)

lemma file_steps_rest:
  "file_steps env nm th outs nm' th' \<Longrightarrow> ft_phase th' = Ended \<Longrightarrow> thread_rest env nm th = Some (nm', outs)"
proof (induction rule: file_steps.induct)
  case (stop nm th)
  then show ?case by (simp add: thread_rest_def)
next
  case (more k nm th nm1 th1 o1 o2 nm' th')
  then show ?case using file_step_rest [OF more.hyps(1)] by simp
qed

text \<open>Alone, a thread whose handler is defined can always go on: every phase has a step to a smaller one.\<close>

definition phase_left :: "file_phase \<Rightarrow> nat" where
  "phase_left p = (case p of Arrived \<Rightarrow> 10 | Checked \<Rightarrow> 9 | Picked ss \<Rightarrow> 8 | Announced meta \<Rightarrow> 7 | Found \<Rightarrow> 9
     | Owned \<Rightarrow> 8 | Notified \<Rightarrow> 7 | Inserted \<Rightarrow> 6 | Removed \<Rightarrow> 6 | Updated \<Rightarrow> 5 | Opened \<Rightarrow> 4
     | Writing bytes n \<Rightarrow> if n = length bytes then 1 else 2 | Ended \<Rightarrow> 0)"

definition phase_ok :: "file_phase \<Rightarrow> bool" where
  "phase_ok p \<longleftrightarrow> (case p of Writing bytes n \<Rightarrow> n \<le> length bytes | _ \<Rightarrow> True)"

lemma file_step_progress:
  assumes "ft_phase th \<noteq> Ended" "\<not> ft_dangling th" "thread_rest env nm th \<noteq> None" "phase_ok (ft_phase th)"
    and "ft_phase th \<in> {Found, Owned} \<Longrightarrow> ht_get (nm_file_table nm) (ft_filename th) \<noteq> None"
  shows "\<exists>k nm1 th1 outs. file_step env k nm th = Some (nm1, th1, outs) \<and>
    phase_left (ft_phase th1) < phase_left (ft_phase th) \<and> phase_ok (ft_phase th1) \<and> \<not> ft_dangling th1 \<and>
    (ft_phase th1 \<in> {Found, Owned} \<longrightarrow> ht_get (nm_file_table nm1) (ft_filename th1) \<noteq> None)"
proof (cases "ft_phase th")
  case (Picked ss)
  have "add_access [] (ft_user th) (CHR ''W'') \<noteq> None" using Picked assms(3) by (auto simp: thread_rest_def picked_rest_def Let_def)
  then show ?thesis using Picked assms(2) by (auto simp: file_step_def phase_left_def phase_ok_def Let_def)
next
  case Checked
  then show ?thesis using assms(2)
    by (auto simp: file_step_def phase_left_def phase_ok_def Let_def split: option.split prod.split)
next
  case (Writing bytes n)
  then show ?thesis using assms(2,4)
    by (intro exI [of _ "Suc (length bytes)"]) (auto simp: file_step_def phase_left_def phase_ok_def Let_def)
next
  case Arrived
  then show ?thesis using assms(2) by (auto simp: file_step_def phase_left_def phase_ok_def Let_def)
next
  case Found
  then show ?thesis using assms(2,5) by (auto simp: file_step_def phase_left_def phase_ok_def Let_def)
next
  case Owned
  then show ?thesis using assms(2,3,5)
    by (cases "ft_cmd th") (auto simp: file_step_def thread_rest_def owned_access_rest_def phase_left_def phase_ok_def Let_def)
next
  case Updated
  then show ?thesis using assms(2)
    by (cases "fs_writable (nm_fs nm) NM_FILES_FILE") (auto simp: file_step_def phase_left_def phase_ok_def Let_def)
qed (use assms in \<open>auto simp: file_step_def phase_left_def phase_ok_def Let_def\<close>)

lemma file_steps_complete:
  assumes "\<not> ft_dangling th" "thread_rest env nm th \<noteq> None" "phase_ok (ft_phase th)"
    and "ft_phase th \<in> {Found, Owned} \<Longrightarrow> ht_get (nm_file_table nm) (ft_filename th) \<noteq> None"
  shows "\<exists>outs nm' th'. file_steps env nm th outs nm' th' \<and> ft_phase th' = Ended"
  using assms
proof (induction "phase_left (ft_phase th)" arbitrary: nm th rule: less_induct)
  case less
  show ?case
  proof (cases "ft_phase th = Ended")
    case True
    then show ?thesis by (blast intro: file_steps.stop)
  next
    case False
    then obtain k nm1 th1 o1 where s: "file_step env k nm th = Some (nm1, th1, o1)"
      "phase_left (ft_phase th1) < phase_left (ft_phase th)" "phase_ok (ft_phase th1)" "\<not> ft_dangling th1"
      "ft_phase th1 \<in> {Found, Owned} \<longrightarrow> ht_get (nm_file_table nm1) (ft_filename th1) \<noteq> None"
      using file_step_progress [OF False less.prems(1,2,3,4)] by blast
    have "thread_rest env nm1 th1 \<noteq> None" using file_step_rest [OF s(1)] less.prems(2) by auto
    then obtain o2 nm' th' where "file_steps env nm1 th1 o2 nm' th'" "ft_phase th' = Ended"
      using less.hyps [OF s(2,4) _ s(3), of nm1] s(5) by auto
    then show ?thesis using file_steps.more [OF s(1)] by blast
  qed
qed

text \<open>The thread a line of a client starts, when it is one of the four commands and complete.\<close>

definition started_thread :: "c_int \<Rightarrow> string \<Rightarrow> string \<Rightarrow> FileThread option" where
  "started_thread sock username bytes =
     (let args = split_string '' '' (trim_newline (cstr bytes)); cmd = args ! 0
      in if args = [] then None
         else if cmd = ''CREATE'' \<or> cmd = ''DELETE'' then
           (if length args < 2 then None
            else Some (file_thread (if cmd = ''CREATE'' then CreateFile else DeleteFile) sock username (args ! 1)))
         else if cmd = ''ADDACCESS'' \<or> cmd = ''REMACCESS'' then
           (case parse_access args of
              Inl err \<Rightarrow> None
            | Inr (filename, target, grant) \<Rightarrow> Some (file_thread (ChangeAccess target grant) sock username filename))
         else None)"

lemma handle_access_rest:
  "parse_access args = Inr (f, target, grant) \<Longrightarrow>
     handle_access nm sock u args = found_rest nm sock u f (ChangeAccess target grant)"
  by (auto simp: handle_access_def found_rest_def owned_access_rest_def access_change_def set_access_def not_owner_def
      split: option.splits)

lemma started_thread_rest:
  assumes "started_thread sock u bytes = Some th"
  shows "nm_client_command env nm sock u bytes = thread_rest env nm th" "ft_phase th = Arrived" "\<not> ft_dangling th"
  using assms
  by (auto simp: started_thread_def nm_client_command_def handle_create_delete_def thread_rest_def file_thread_def
      found_rest_def handle_access_rest Let_def split: if_splits sum.splits)

lemma alone_is_handler:
  assumes "started_thread sock u bytes = Some th"
  shows "nm_client_command env nm sock u bytes = Some (nm', outs) \<longleftrightarrow>
    (\<exists>th'. file_steps env nm th outs nm' th' \<and> ft_phase th' = Ended)"
proof
  assume ok: "nm_client_command env nm sock u bytes = Some (nm', outs)"
  then have rest: "thread_rest env nm th = Some (nm', outs)" using started_thread_rest(1) [OF assms] by simp
  then obtain outs2 nm2 th2 where run: "file_steps env nm th outs2 nm2 th2" "ft_phase th2 = Ended"
    using file_steps_complete [of th env nm] started_thread_rest(2,3) [OF assms] by (auto simp: phase_ok_def)
  then have "thread_rest env nm th = Some (nm2, outs2)" by (rule file_steps_rest)
  then show "\<exists>th'. file_steps env nm th outs nm' th' \<and> ft_phase th' = Ended" using rest run by auto
qed (use started_thread_rest(1) [OF assms] file_steps_rest in auto)

section \<open>Threads on different files\<close>

text \<open>What a thread relies on, as long as nobody else works on its file.\<close>

definition thread_ok :: "HashTable \<Rightarrow> FileThread \<Rightarrow> bool" where
  "thread_ok table th \<longleftrightarrow> \<not> ft_dangling th \<and>
     (case ft_phase th of
        Found \<Rightarrow> ht_get table (ft_filename th) \<noteq> None
      | Owned \<Rightarrow> (\<exists>m. ht_get table (ft_filename th) = Some m \<and> fm_owner m = ft_user th)
      | Notified \<Rightarrow> (\<exists>m. ht_get table (ft_filename th) = Some m \<and> fm_owner m = ft_user th)
      | Checked \<Rightarrow> ht_get table (ft_filename th) = None
      | Picked ss \<Rightarrow> ht_get table (ft_filename th) = None
      | Announced meta \<Rightarrow> ht_get table (ft_filename th) = None \<and> fm_filename meta = ft_filename th
      | _ \<Rightarrow> True)"

lemma thread_ok_cong:
  "ht_get table (ft_filename th) = ht_get table' (ft_filename th) \<Longrightarrow> thread_ok table th = thread_ok table' th"
  by (cases "ft_phase th") (simp_all add: thread_ok_def)

text \<open>In place, the name and the owner stay.\<close>

lemma thread_ok_update:
  assumes "\<And>m. fm_filename (g m) = fm_filename m" "\<And>m. fm_owner (g m) = fm_owner m" "thread_ok table th"
  shows "thread_ok (ht_update table f g) th"
  using assms(2,3) ht.lookup_update [of g table f, OF assms(1)]
  by (auto simp: thread_ok_def split: file_phase.splits)

lemma set_access_lookup:
  "ht_get (set_access table f acl) g =
     (if g = f then map_option (\<lambda>m. m\<lparr>fm_access_list := acl\<rparr>) (ht_get table g) else ht_get table g)"
  unfolding set_access_def by (subst ht.lookup_update) simp_all

lemma set_access_inv: "ht_inv table \<Longrightarrow> ht_inv (set_access table f acl)"
  unfolding set_access_def by (rule ht.inv_update) simp_all

lemma file_step_keeps:
  assumes "file_step env k nm th = Some (nm', th', outs)"
  shows "ft_filename th' = ft_filename th \<and> ft_user th' = ft_user th \<and> ft_cmd th' = ft_cmd th \<and>
    ft_sock th' = ft_sock th \<and> ft_dangling th' = ft_dangling th"
  using assms
  by (cases "ft_phase th")
     (auto simp: file_step_def Let_def split: if_splits option.splits prod.splits file_cmd.splits)

text \<open>A step changes the table at its own file only, and keeps what the thread relies on.\<close>

lemma file_step_table:
  assumes "file_step env k nm th = Some (nm', th', outs)" "ht_inv (nm_file_table nm)"
    "thread_ok (nm_file_table nm) th" "length (ft_filename th) < MAX_FILENAME_LEN"
  shows "ht_inv (nm_file_table nm') \<and> thread_ok (nm_file_table nm') th' \<and> ft_filename th' = ft_filename th \<and>
    (\<forall>g. g \<noteq> ft_filename th \<longrightarrow> ht_get (nm_file_table nm') g = ht_get (nm_file_table nm) g)"
proof (cases "ft_phase th")
  case Arrived
  then show ?thesis using assms by (auto simp: file_step_def thread_ok_def Let_def split: if_splits)
next
  case Checked
  obtain nm2 r where r: "get_ss_for_new_file nm = (nm2, r)" by fastforce
  then show ?thesis using assms Checked get_ss_table [OF r]
    by (auto simp: file_step_def thread_ok_def Let_def split: option.splits)
next
  case (Picked ss)
  then show ?thesis using assms
    by (auto simp: file_step_def thread_ok_def Let_def new_file_def split: option.splits)
next
  case (Announced meta)
  then show ?thesis using assms
    by (auto simp: file_step_def thread_ok_def Let_def ht.lookup_insert_if ht.inv_insert)
next
  case Found
  then show ?thesis using assms by (auto simp: file_step_def thread_ok_def Let_def split: option.splits if_splits)
next
  case Owned
  then show ?thesis using assms
    by (auto simp: file_step_def thread_ok_def set_access_lookup set_access_inv Let_def
        split: option.splits if_splits file_cmd.splits)
next
  case Notified
  then show ?thesis using assms
    by (auto simp: file_step_def thread_ok_def Let_def ht.lookup_delete ht.inv_delete)
next
  case Updated
  then show ?thesis using assms by (auto simp: file_step_def thread_ok_def Let_def split: if_splits)
next
  case (Writing bytes n)
  then show ?thesis using assms
    by (auto simp: file_step_def thread_ok_def write_files_at_def Let_def split: if_splits)
qed (use assms in \<open>auto simp: file_step_def thread_ok_def Let_def\<close>)

definition names_apart :: "FileCommands \<Rightarrow> bool" where
  "names_apart s \<longleftrightarrow> distinct (map ft_filename (fc_threads s)) \<and>
     (\<forall>f\<in>set (map ft_filename (fc_threads s)). length f < MAX_FILENAME_LEN)"

definition fc_ok :: "FileCommands \<Rightarrow> bool" where
  "fc_ok s \<longleftrightarrow> ht_inv (nm_file_table (fc_nm s)) \<and>
     (\<forall>th\<in>set (fc_threads s). thread_ok (nm_file_table (fc_nm s)) th)"

lemma after_step_of_other: "ft_filename th \<noteq> ft_filename actor \<Longrightarrow> after_step_of actor th = th"
  by (simp add: after_step_of_def)

lemma after_step_of_name [simp]: "ft_filename (after_step_of actor th) = ft_filename th"
  by (simp add: after_step_of_def)

lemma fc_next_names:
  assumes "fc_next env t k s = Some s'"
  shows "map ft_filename (fc_threads s') = map ft_filename (fc_threads s)"
proof -
  obtain nm' th' outs where step: "t < length (fc_threads s)"
    "file_step env k (fc_nm s) (fc_threads s ! t) = Some (nm', th', outs)"
    "fc_threads s' = (map (after_step_of (fc_threads s ! t)) (fc_threads s))[t := th']"
    using assms by (auto simp: fc_next_def split: if_splits option.splits)
  have "ft_filename th' = ft_filename (fc_threads s ! t)" using file_step_keeps [OF step(2)] by simp
  then show ?thesis using step(1,3) by (simp add: map_update list_update_same_conv comp_def)
qed

lemma fc_next_ok:
  assumes "fc_next env t k s = Some s'" "fc_ok s" "names_apart s"
  shows "fc_ok s'"
proof -
  let ?th = "fc_threads s ! t" and ?L = "fc_threads s"
  obtain nm' th' outs where step: "t < length ?L" "file_step env k (fc_nm s) ?th = Some (nm', th', outs)"
    "fc_threads s' = (map (after_step_of ?th) ?L)[t := th']" "fc_nm s' = nm'"
    using assms(1) by (auto simp: fc_next_def split: if_splits option.splits)
  have "ht_inv (nm_file_table (fc_nm s))" "thread_ok (nm_file_table (fc_nm s)) ?th"
    "length (ft_filename ?th) < MAX_FILENAME_LEN"
    using assms(2,3) step(1) by (auto simp: fc_ok_def names_apart_def)
  note table = file_step_table [OF step(2) this]
  have "thread_ok (nm_file_table nm') (fc_threads s' ! i)" if "i < length ?L" for i
  proof (cases "i = t")
    case True
    then show ?thesis using table step by simp
  next
    case False
    then have other: "ft_filename (?L ! i) \<noteq> ft_filename ?th"
      using assms(3) that step(1) by (auto simp: names_apart_def distinct_conv_nth)
    then have "fc_threads s' ! i = ?L ! i" using step(3) that False by (simp add: after_step_of_other)
    moreover have "thread_ok (nm_file_table (fc_nm s)) (?L ! i)" using assms(2) that by (simp add: fc_ok_def)
    ultimately show ?thesis using table other thread_ok_cong [of "nm_file_table nm'" "?L ! i"] by simp
  qed
  then show ?thesis using table step(3,4) by (auto simp: fc_ok_def in_set_conv_nth)
qed

lemma fc_step_names:
  assumes "fc_step s s'" "names_apart s'"
  shows "names_apart s"
  using assms
proof cases
  case (thread env t k)
  show ?thesis using assms(2) unfolding names_apart_def fc_next_names [OF thread] .
qed (use assms(2) in \<open>auto simp: names_apart_def\<close>)

lemma fc_reachable_ok:
  assumes "fc_reachable nm s" "ht_inv (nm_file_table nm)" "names_apart s"
  shows "fc_ok s"
  using assms
proof (induction rule: fc_reachable.induct)
  case start
  then show ?case by (simp add: fc_ok_def)
next
  case (step s s')
  have ok: "fc_ok s" using step.IH step.prems fc_step_names [OF step.hyps(2)] by blast
  from step.hyps(2) show ?case
  proof cases
    case (thread env t k)
    then show ?thesis using fc_next_ok ok fc_step_names [OF step.hyps(2) step.prems(2)] by blast
  next
    case arrive
    then show ?thesis using ok by (auto simp: fc_ok_def file_thread_def thread_ok_def)
  next
    case (change_in_place g f)
    then show ?thesis using ok ht.inv_update [of _ g f] thread_ok_update [of g] by (auto simp: fc_ok_def)
  qed
qed

section \<open>Schedules\<close>

definition arrived :: "NameServer \<Rightarrow> (file_cmd \<times> c_int \<times> string \<times> string) list \<Rightarrow> FileCommands" where
  "arrived nm rs = \<lparr>fc_nm = nm, fc_threads = map (\<lambda>(c, k, u, f). file_thread c k u f) rs, fc_sent = []\<rparr>"

lemma fc_run_arrived: "fc_run env sched (arrived nm rs) = Some s \<Longrightarrow> fc_reachable nm s"
  using fc_run_reachable [OF _ fc_reachable_arrivals] by (simp add: arrived_def)

text \<open>Two users create the same file; both look it up before either inserts it.\<close>

definition create_race :: "FileCommands option" where
  "create_race = fc_run demo_env
     [(0, 1), (1, 1), (0, 1), (1, 1), (0, 1), (0, 1), (0, 1), (1, 1), (1, 1), (1, 1)]
     (arrived empty_nm [(CreateFile, 7, ''al'', ''n''), (CreateFile, 8, ''bob'', ''n'')])"

text \<open>Two DELETEs of a file by its owner: the first has passed the owner check when the second
  removes the file and another user creates one of the same name.\<close>

definition delete_race :: "FileCommands option" where
  "delete_race = fc_run demo_env (replicate 3 (0, 1) @ replicate 5 (1, 1) @ replicate 5 (2, 1))
     (arrived demo_nm [(DeleteFile, 7, ''bob'', ''f''), (DeleteFile, 8, ''bob'', ''f''), (CreateFile, 9, ''al'', ''f'')])"

lemma races_reachable:
  "create_race = Some s \<Longrightarrow> fc_reachable empty_nm s"
  "delete_race = Some s \<Longrightarrow> fc_reachable demo_nm s"
  unfolding create_race_def delete_race_def by (rule fc_run_arrived, assumption)+

section \<open>Saves that overlap\<close>

text \<open>A run of one thread, as steps of the whole system; threads that hold no metadata stay.\<close>

lemma file_steps_reachable:
  assumes "file_steps env nm th outs nm' th'" "fc_reachable nm0 s" "t < length (fc_threads s)"
    "fc_threads s ! t = th" "fc_nm s = nm"
  shows "\<exists>s'. fc_reachable nm0 s' \<and> fc_nm s' = nm' \<and> fc_threads s' ! t = th' \<and> fc_sent s' = fc_sent s @ outs \<and>
    length (fc_threads s') = length (fc_threads s) \<and>
    (\<forall>i<length (fc_threads s). i \<noteq> t \<longrightarrow> \<not> holds_meta (fc_threads s ! i) \<longrightarrow> fc_threads s' ! i = fc_threads s ! i)"
  using assms
proof (induction arbitrary: s rule: file_steps.induct)
  case (stop nm th)
  then show ?case by (intro exI [of _ s]) simp
next
  case (more k nm th nm1 th1 o1 o2 nm' th')
  let ?s1 = "s\<lparr>fc_nm := nm1, fc_threads := (map (after_step_of th) (fc_threads s))[t := th1],
    fc_sent := fc_sent s @ o1\<rparr>"
  have "fc_next env t k s = Some ?s1" using more.hyps(1) more.prems by (simp add: fc_next_def)
  then have "fc_reachable nm0 ?s1" using more.prems(1) fc_reachable.step fc_step.thread by blast
  then obtain s' where s': "fc_reachable nm0 s'" "fc_nm s' = nm'" "fc_threads s' ! t = th'"
    "fc_sent s' = fc_sent ?s1 @ o2" "length (fc_threads s') = length (fc_threads ?s1)"
    "\<forall>i<length (fc_threads ?s1). i \<noteq> t \<longrightarrow> \<not> holds_meta (fc_threads ?s1 ! i) \<longrightarrow>
       fc_threads s' ! i = fc_threads ?s1 ! i"
    using more.IH [of ?s1] more.prems(2) by auto
  have "fc_threads ?s1 ! i = fc_threads s ! i"
    if "i < length (fc_threads s)" "i \<noteq> t" "\<not> holds_meta (fc_threads s ! i)" for i
    using that by (simp add: after_step_of_def)
  then show ?case using s' by (intro exI [of _ s']) auto
qed

lemma steps_back:
  "\<exists>outs. file_steps env nm1 th1 outs nm' th' \<Longrightarrow> file_step env k nm th = Some (nm1, th1, o1) \<Longrightarrow>
     \<exists>outs. file_steps env nm th outs nm' th'"
  using file_steps.more by blast

text \<open>A CREATE up to the moment its save has collected the table.\<close>

lemma create_until_collected:
  assumes "nm_inv nm" "ht_get (nm_file_table nm) g = None" "nm_ss_list nm \<noteq> []" "length v < MAX_USERNAME_LEN - 1"
    and "fs_writable (nm_fs nm) NM_FILES_FILE"
  shows "\<exists>acl ss outs nm' th'. add_access [] v (CHR ''W'') = Some acl \<and> ss \<in> set (nm_ss_list nm) \<and>
    file_steps env nm (file_thread CreateFile k v g) outs nm' th' \<and>
    ft_phase th' = Writing (table_text nm') 0 \<and> \<not> ft_dangling th' \<and> ft_user th' = v \<and>
    nm_file_table nm' = fst (ht_insert (nm_file_table nm) (new_file env v g acl ss)) \<and>
    nm_fs nm' = fs_write (nm_fs nm) NM_FILES_FILE [] \<and> nm_all_users nm' = nm_all_users nm"
proof -
  have "0 \<le> nm_next_ss_index nm" using assms(1) by (simp add: nm_inv_def)
  then obtain nm1 where nm1: "get_ss_for_new_file nm = (nm1, Some (nm_ss_list nm ! first_index nm))"
    "first_index nm < length (nm_ss_list nm)"
    using get_ss_for_new_file_step [OF assms(3)] by blast
  obtain i where i: "nm1 = nm\<lparr>nm_next_ss_index := i\<rparr>"
    using nm1(1) assms(3) by (auto simp: get_ss_for_new_file_def Let_def)
  have "add_access [] v (CHR ''W'') \<noteq> None" using assms(4) by (simp add: add_access_None_iff)
  then obtain acl where acl: "add_access [] v (CHR ''W'') = Some acl" by auto
  let ?ss = "nm_ss_list nm ! first_index nm"
  let ?m = "new_file env v g acl ?ss" and ?th = "file_thread CreateFile k v g"
  let ?nm2 = "nm1\<lparr>nm_file_table := fst (ht_insert (nm_file_table nm1) ?m)\<rparr>"
  let ?nm3 = "?nm2\<lparr>nm_file_trie := trie_insert (nm_file_trie ?nm2) g\<rparr>"
  let ?nm4 = "?nm3\<lparr>nm_fs := fs_write (nm_fs ?nm3) NM_FILES_FILE []\<rparr>"
  let ?p = "\<lambda>ph. ?th\<lparr>ft_phase := ph\<rparr>"
  have "\<exists>outs. file_steps env ?nm4 (?p (Writing (table_text ?nm4) 0)) outs ?nm4 (?p (Writing (table_text ?nm4) 0))"
    using file_steps.stop by blast
  then have "\<exists>outs. file_steps env ?nm4 (?p Opened) outs ?nm4 (?p (Writing (table_text ?nm4) 0))"
    by (rule steps_back [where k = 1]) (simp add: file_step_def)
  then have "\<exists>outs. file_steps env ?nm3 (?p Updated) outs ?nm4 (?p (Writing (table_text ?nm4) 0))"
    by (rule steps_back [where k = 1]) (simp add: file_step_def assms(5) i)
  then have "\<exists>outs. file_steps env ?nm2 (?p Inserted) outs ?nm4 (?p (Writing (table_text ?nm4) 0))"
    by (rule steps_back [where k = 1]) (simp add: file_step_def file_thread_def)
  then have "\<exists>outs. file_steps env nm1 (?p (Announced ?m)) outs ?nm4 (?p (Writing (table_text ?nm4) 0))"
    by (rule steps_back [where k = 1]) (simp add: file_step_def file_thread_def)
  then have "\<exists>outs. file_steps env nm1 (?p (Picked ?ss)) outs ?nm4 (?p (Writing (table_text ?nm4) 0))"
    by (rule steps_back [where k = 1]) (simp add: file_step_def file_thread_def acl Let_def)
  then have "\<exists>outs. file_steps env nm (?p Checked) outs ?nm4 (?p (Writing (table_text ?nm4) 0))"
    by (rule steps_back [where k = 1]) (simp add: file_step_def file_thread_def nm1)
  then have "\<exists>outs. file_steps env nm ?th outs ?nm4 (?p (Writing (table_text ?nm4) 0))"
    by (rule steps_back [where k = 1]) (simp add: file_step_def file_thread_def assms(2))
  then obtain outs where "file_steps env nm ?th outs ?nm4 (?p (Writing (table_text ?nm4) 0))" ..
  then show ?thesis using acl nm1(2) i
    by (intro exI [of _ acl] exI [of _ ?ss] exI [of _ outs] exI [of _ ?nm4]
        exI [of _ "?p (Writing (table_text ?nm4) 0)"]) (simp add: file_thread_def)
qed

text \<open>The text of a table shrinks with a removal, so what is written over it covers it.\<close>

lemma length_concat_mono:
  "(\<And>i. i \<in> set js \<Longrightarrow> length (F i) \<le> length (G i)) \<Longrightarrow> length (concat (map F js)) \<le> length (concat (map G js))"
proof (induction js)
  case (Cons i js)
  then have "length (F i) \<le> length (G i)" "length (concat (map F js)) \<le> length (concat (map G js))" by simp_all
  then show ?case by simp
qed simp

lemma length_concat_remove_first: "length (concat (map h (remove_first P xs))) \<le> length (concat (map h xs))"
  by (induction xs) auto

lemma concat_map_concat: "concat (map h (concat xss)) = concat (map (\<lambda>xs. concat (map h xs)) xss)"
  by (induction xss) simp_all

lemma length_concat_update_first:
  "(\<And>y. List.find P xs = Some y \<Longrightarrow> length (h (f y)) \<le> length (h y)) \<Longrightarrow>
     length (concat (map h (update_first P f xs))) \<le> length (concat (map h xs))"
  by (induction xs) (auto split: if_splits)

lemma length_table_text:
  assumes "\<And>i. length (concat (map render_file (buckets t' i))) \<le> length (concat (map render_file (buckets t i)))"
  shows "length (concat (map render_file (ht_files t'))) \<le> length (concat (map render_file (ht_files t)))"
proof -
  have per_bucket: "concat (map render_file (ht_files t)) = concat (map (\<lambda>i. concat (map render_file (buckets t i))) [0..<HT_SIZE])"
    for t
    by (simp add: ht_files_def concat_map_concat comp_def del: map_concat)
  show ?thesis unfolding per_bucket by (rule length_concat_mono) (rule assms)
qed

lemma length_table_text_delete:
  "length (concat (map render_file (ht_files (ht_delete t f)))) \<le> length (concat (map render_file (ht_files t)))"
  by (rule length_table_text) (simp add: ht_delete_def Let_def length_concat_remove_first)

lemma length_render_revoked:
  "length (render_file (m\<lparr>fm_access_list := remove_access (fm_access_list m) w\<rparr>)) \<le> length (render_file m)"
  by (simp add: render_file_def render_access_def remove_access_def length_concat_remove_first)

lemma length_table_text_revoked:
  assumes "ht_get t f = Some m"
  shows "length (concat (map render_file (ht_files (set_access t f (remove_access (fm_access_list m) w))))) \<le>
    length (concat (map render_file (ht_files t)))"
proof (rule length_table_text)
  fix i
  have "length (concat (map render_file (update_first (\<lambda>m. fm_filename m = f)
      (\<lambda>x. x\<lparr>fm_access_list := remove_access (fm_access_list m) w\<rparr>) (buckets t (hash_function f))))) \<le>
      length (concat (map render_file (buckets t (hash_function f))))"
  proof (rule length_concat_update_first)
    fix y assume "List.find (\<lambda>m. fm_filename m = f) (buckets t (hash_function f)) = Some y"
    then have "y = m" using assms by (simp add: ht_get_def)
    then show "length (render_file (y\<lparr>fm_access_list := remove_access (fm_access_list m) w\<rparr>)) \<le> length (render_file y)"
      using length_render_revoked by simp
  qed
  then show "length (concat (map render_file (buckets (set_access t f (remove_access (fm_access_list m) w)) i))) \<le>
      length (concat (map render_file (buckets t i)))"
    by (simp add: set_access_def ht_update_def Let_def)
qed

lemma overlay_covers: "length c \<le> length b \<Longrightarrow> overlay 0 b c = b"
  by (simp add: overlay_def)


text \<open>A save that was collected before another command saved a shorter text covers it.\<close>

lemma old_save_covers:
  assumes "nm_fs nm1 = fs_write (nm_fs nm) NM_FILES_FILE txt" "length txt \<le> length (table_text nm)"
    and "ht_inv (nm_file_table nm)" "ht_get (nm_file_table nm) f = Some m"
    and "ft_phase th = Writing (table_text nm) 0" "\<not> ft_dangling th"
  shows "\<exists>outs nm2 th2. file_steps env nm1 th outs nm2 th2 \<and> ft_phase th2 = Ended \<and>
    nm_file_table nm2 = nm_file_table nm1 \<and> nm_fs nm2 = fs_write (nm_fs nm) NM_FILES_FILE (table_text nm)"
proof -
  obtain o2 nm2 th2 where run: "file_steps env nm1 th o2 nm2 th2" "ft_phase th2 = Ended"
    using file_steps_complete [of th env nm1] assms(5,6) by (auto simp: phase_ok_def thread_rest_def)
  have "thread_rest env nm1 th = Some (nm2, o2)" using run by (rule file_steps_rest)
  then have nm2: "nm2 = save_rest nm1 0 (table_text nm)" using assms(5) by (simp add: thread_rest_def)
  have len: "length (files_on_disk nm1) \<le> length (table_text nm)"
    using assms(2) by (simp add: files_on_disk_def assms(1) fs_write_def)
  have "m \<in> set (ht_files (nm_file_table nm))"
    using ht_files_iff [OF assms(3)] assms(4) ht.lookup_name [OF assms(4)] by simp
  then have "table_text nm \<noteq> []" by (auto simp: table_text_def render_file_def)
  then have "nm2 = write_files_at nm1 0 (table_text nm)" by (simp add: nm2 save_rest_def)
  then have "nm_file_table nm2 = nm_file_table nm1" "nm_fs nm2 = fs_write (nm_fs nm) NM_FILES_FILE (table_text nm)"
    using overlay_covers [OF len] by (simp_all add: write_files_at_def assms(1) fs_write_def)
  then show ?thesis using run by blast
qed

lemma delete_then_old_save:
  assumes "ht_inv (nm_file_table nm)" "ht_get (nm_file_table nm) f = Some m" "fm_owner m = u"
    and "fs_writable (nm_fs nm) NM_FILES_FILE" "ft_phase th = Writing (table_text nm) 0" "\<not> ft_dangling th"
  shows "\<exists>outs1 nm1 th1 outs nm2 th2. file_steps env nm (file_thread DeleteFile k u f) outs1 nm1 th1 \<and>
    (k, ''200 OK: File deleted successfully.'') \<in> set outs1 \<and>
    ft_phase th1 = Ended \<and> file_steps env nm1 th outs nm2 th2 \<and> ft_phase th2 = Ended \<and>
    ht_get (nm_file_table nm2) f = None \<and> nm_fs nm2 = fs_write (nm_fs nm) NM_FILES_FILE (table_text nm)"
proof -
  let ?th = "file_thread DeleteFile k u f"
  let ?txt = "concat (map render_file (ht_files (ht_delete (nm_file_table nm) f)))"
  obtain o1 nm1 th1 where run1: "file_steps env nm ?th o1 nm1 th1" "ft_phase th1 = Ended"
    using file_steps_complete [of ?th env nm] by (auto simp: file_thread_def phase_ok_def thread_rest_def found_rest_def)
  have "thread_rest env nm ?th = Some (nm1, o1)" using run1 by (rule file_steps_rest)
  then have "handle_delete nm k u f = (nm1, o1)" by (simp add: thread_rest_def found_rest_def file_thread_def)
  then have d: "(k, ''200 OK: File deleted successfully.'') \<in> set o1" "nm_file_table nm1 = ht_delete (nm_file_table nm) f"
    "nm_fs nm1 = fs_write (nm_fs nm) NM_FILES_FILE ?txt"
    using assms(2,3,4) by (auto simp: handle_delete_def nm_save_files_def Let_def)
  have "length ?txt \<le> length (table_text nm)" using length_table_text_delete by (simp add: table_text_def)
  then obtain outs nm2 th2 where "file_steps env nm1 th outs nm2 th2" "ft_phase th2 = Ended"
      "nm_file_table nm2 = nm_file_table nm1" "nm_fs nm2 = fs_write (nm_fs nm) NM_FILES_FILE (table_text nm)"
    using old_save_covers [OF d(3) _ assms(1,2,5,6)] by blast
  moreover have "ht_get (nm_file_table nm1) f = None" using ht.lookup_delete [OF assms(1)] by (simp add: d(2))
  ultimately show ?thesis using run1 d(1) by metis
qed

lemma revoke_then_old_save:
  assumes "ht_inv (nm_file_table nm)" "ht_get (nm_file_table nm) f = Some m" "fm_owner m = u"
    and "fs_writable (nm_fs nm) NM_FILES_FILE" "ft_phase th = Writing (table_text nm) 0" "\<not> ft_dangling th"
  shows "\<exists>outs1 nm1 th1 outs nm2 th2. file_steps env nm (file_thread (ChangeAccess w None) k u f) outs1 nm1 th1 \<and>
    (k, ''200 OK: Access removed.'') \<in> set outs1 \<and>
    ft_phase th1 = Ended \<and> file_steps env nm1 th outs nm2 th2 \<and> ft_phase th2 = Ended \<and>
    ht_get (nm_file_table nm2) f = Some (m\<lparr>fm_access_list := remove_access (fm_access_list m) w\<rparr>) \<and>
    nm_fs nm2 = fs_write (nm_fs nm) NM_FILES_FILE (table_text nm)"
proof -
  let ?th = "file_thread (ChangeAccess w None) k u f" let ?acl = "remove_access (fm_access_list m) w"
  let ?txt = "concat (map render_file (ht_files (set_access (nm_file_table nm) f ?acl)))"
  have rest: "thread_rest env nm ?th = Some (nm_save_files (nm\<lparr>nm_file_table := set_access (nm_file_table nm) f ?acl\<rparr>),
      [(k, ''200 OK: Access removed.'')])"
    using assms(2,3) by (simp add: thread_rest_def found_rest_def owned_access_rest_def access_change_def file_thread_def)
  then obtain o1 nm1 th1 where run1: "file_steps env nm ?th o1 nm1 th1" "ft_phase th1 = Ended"
    using file_steps_complete [of ?th env nm] by (auto simp: file_thread_def phase_ok_def)
  then have "thread_rest env nm ?th = Some (nm1, o1)" by (rule file_steps_rest)
  then have d: "(k, ''200 OK: Access removed.'') \<in> set o1" "nm_file_table nm1 = set_access (nm_file_table nm) f ?acl"
    "nm_fs nm1 = fs_write (nm_fs nm) NM_FILES_FILE ?txt"
    using rest assms(4) by (auto simp: nm_save_files_def)
  have "length ?txt \<le> length (table_text nm)"
    using length_table_text_revoked [OF assms(2)] by (simp add: table_text_def)
  then obtain outs nm2 th2 where "file_steps env nm1 th outs nm2 th2" "ft_phase th2 = Ended"
      "nm_file_table nm2 = nm_file_table nm1" "nm_fs nm2 = fs_write (nm_fs nm) NM_FILES_FILE (table_text nm)"
    using old_save_covers [OF d(3) _ assms(1,2,5,6)] by blast
  moreover have "ht_get (nm_file_table nm1) f = Some (m\<lparr>fm_access_list := ?acl\<rparr>)"
    using assms(2) by (simp add: d(2) set_access_lookup)
  ultimately show ?thesis using run1 d(1) by metis
qed

text \<open>The schedule: the CREATE until its save has collected the table, the other command from start to
  end, the rest of the save.\<close>

lemma old_save_wins:
  assumes "nm_inv nm" "ht_get (nm_file_table nm) f = Some m"
    and "ht_get (nm_file_table nm) g = None" "nm_ss_list nm \<noteq> []"
    and "length v < MAX_USERNAME_LEN - 1" "fs_writable (nm_fs nm) NM_FILES_FILE"
    and second: "\<And>nm1 th1. ht_inv (nm_file_table nm1) \<Longrightarrow> ht_get (nm_file_table nm1) f = Some m \<Longrightarrow>
      fs_writable (nm_fs nm1) NM_FILES_FILE \<Longrightarrow> ft_phase th1 = Writing (table_text nm1) 0 \<Longrightarrow> \<not> ft_dangling th1 \<Longrightarrow>
      \<exists>o2 nm2 th2 o3 nm3 th3. file_steps env nm1 (file_thread cmd k' u f) o2 nm2 th2 \<and> msg \<in> set o2 \<and>
        ft_phase th2 = Ended \<and> file_steps env nm2 th1 o3 nm3 th3 \<and> ft_phase th3 = Ended \<and>
        ht_get (nm_file_table nm3) f = r \<and> nm_fs nm3 = fs_write (nm_fs nm1) NM_FILES_FILE (table_text nm1)"
  shows "\<exists>s acl ss. fc_reachable nm s \<and> (\<forall>th\<in>set (fc_threads s). ft_phase th = Ended) \<and>
    msg \<in> set (fc_sent s) \<and> ht_get (nm_file_table (fc_nm s)) f = r \<and>
    add_access [] v (CHR ''W'') = Some acl \<and> ss \<in> set (nm_ss_list nm) \<and>
    nm_fs (fc_nm s) = fs_write (nm_fs nm) NM_FILES_FILE
      (concat (map render_file (ht_files (fst (ht_insert (nm_file_table nm) (new_file env v g acl ss))))))"
proof -
  let ?s0 = "arrived nm [(CreateFile, k, v, g), (cmd, k', u, f)]"
  have s0: "fc_reachable nm ?s0" using fc_run_arrived [of env "[]" nm "[(CreateFile, k, v, g), (cmd, k', u, f)]"] by simp
  have inv: "ht_inv (nm_file_table nm)" using assms(1) by (simp add: nm_inv_def)
  obtain acl ss o1 nm1 th1 where c: "add_access [] v (CHR ''W'') = Some acl" "ss \<in> set (nm_ss_list nm)"
    "file_steps env nm (file_thread CreateFile k v g) o1 nm1 th1" "ft_phase th1 = Writing (table_text nm1) 0"
    "\<not> ft_dangling th1"
    "nm_file_table nm1 = fst (ht_insert (nm_file_table nm) (new_file env v g acl ss))"
    "nm_fs nm1 = fs_write (nm_fs nm) NM_FILES_FILE []"
    using create_until_collected [OF assms(1,3-6), of env k] by metis
  have f: "ht_inv (nm_file_table nm1)" "ht_get (nm_file_table nm1) f = Some m" "fs_writable (nm_fs nm1) NM_FILES_FILE"
    using inv assms(2,6) by (auto simp: c(6,7) ht.inv_insert ht.lookup_insert_if fs_write_def)
  obtain o2 nm2 th2 o3 nm3 th3 where d: "file_steps env nm1 (file_thread cmd k' u f) o2 nm2 th2" "msg \<in> set o2"
    "ft_phase th2 = Ended" "file_steps env nm2 th1 o3 nm3 th3" "ft_phase th3 = Ended"
    "ht_get (nm_file_table nm3) f = r" "nm_fs nm3 = fs_write (nm_fs nm1) NM_FILES_FILE (table_text nm1)"
    using second [OF f c(4,5)] by blast
  obtain s1 where s1: "fc_reachable nm s1" "fc_nm s1 = nm1" "fc_threads s1 ! 0 = th1" "length (fc_threads s1) = 2"
    "fc_threads s1 ! 1 = file_thread cmd k' u f"
    using file_steps_reachable [OF c(3) s0, of 0] by (fastforce simp: arrived_def file_thread_def holds_meta_def)
  have "\<not> holds_meta th1" using c(4) by (simp add: holds_meta_def)
  then obtain s2 where s2: "fc_reachable nm s2" "fc_nm s2 = nm2" "fc_threads s2 ! 1 = th2" "length (fc_threads s2) = 2"
    "fc_threads s2 ! 0 = th1" "msg \<in> set (fc_sent s2)"
    using file_steps_reachable [OF d(1) s1(1), of 1] s1(2-5) d(2) by fastforce
  have "\<not> holds_meta th2" using d(3) by (simp add: holds_meta_def)
  then obtain s3 where s3: "fc_reachable nm s3" "fc_nm s3 = nm3" "fc_threads s3 ! 0 = th3" "length (fc_threads s3) = 2"
    "fc_threads s3 ! 1 = th2" "msg \<in> set (fc_sent s3)"
    using file_steps_reachable [OF d(4) s2(1), of 0] s2(2-6) by fastforce
  have "ft_phase (fc_threads s3 ! i) = Ended" if "i < 2" for i
    using that s3(3,5) d(3,5) by (auto simp: less_2_cases_iff)
  then have "\<forall>th\<in>set (fc_threads s3). ft_phase th = Ended" using s3(4) by (auto simp: in_set_conv_nth)
  moreover have "nm_fs nm3 = fs_write (nm_fs nm) NM_FILES_FILE
      (concat (map render_file (ht_files (fst (ht_insert (nm_file_table nm) (new_file env v g acl ss))))))"
    by (simp add: d(7) c(6,7) table_text_def fs_write_def)
  ultimately show ?thesis using s3(1,2,6) d(6) c(1,2) by blast
qed

lemma inserted_files:
  assumes "ht_inv t" "x \<in> set (ht_files (fst (ht_insert t m)))"
  shows "x = m \<or> x \<in> set (ht_files t)"
proof -
  have "ht_get (fst (ht_insert t m)) (fm_filename x) = Some x"
    using assms(2) ht_files_iff [OF ht.inv_insert [OF assms(1)], of x m] by blast
  then have "x = m \<or> ht_get t (fm_filename x) = Some x"
    using ht.lookup_insert_if [of t m "fm_filename x"] by (metis option.inject)
  then show ?thesis using ht_files_iff [OF assms(1), of x] by blast
qed

text \<open>What a restart makes of that disk.\<close>

lemma deleted_file_reloaded:
  assumes "nm_inv nm" "ht_get (nm_file_table nm) f = Some m"
    and "users_saved nm" "\<forall>x\<in>set (nm_all_users nm). user_ok x" "\<forall>x\<in>set (ht_files (nm_file_table nm)). record_ok x"
    and "record_ok new" "fs = fs_write (nm_fs nm) NM_FILES_FILE
      (concat (map render_file (ht_files (fst (ht_insert (nm_file_table nm) new)))))"
  shows "\<exists>nm' m'. nm_create clock fs = Some nm' \<and> ht_get (nm_file_table nm') f = Some m' \<and> same_record m m'"
proof -
  let ?nm = "nm\<lparr>nm_file_table := fst (ht_insert (nm_file_table nm) new), nm_fs := fs\<rparr>"
  have inv: "ht_inv (nm_file_table nm)" using assms(1) by (simp add: nm_inv_def)
  have "ht_inv (nm_file_table ?nm)" using ht.inv_insert [OF inv] by simp
  moreover have "\<forall>x\<in>set (ht_files (nm_file_table ?nm)). record_ok x"
    using inserted_files [OF inv, of _ new] assms(5,6) by auto
  moreover have "files_saved ?nm" "users_saved ?nm"
    using assms(3,7) by (simp_all add: files_saved_def users_saved_def fs_write_def NM_FILES_FILE_def NM_USERS_FILE_def)
  ultimately obtain nm' where nm': "nm_create clock fs = Some nm'"
    "\<forall>n. rel_option same_record (ht_get (nm_file_table ?nm) n) (ht_get (nm_file_table nm') n)"
    using restart [of ?nm clock] assms(4) by auto
  have "ht_get (nm_file_table ?nm) f = Some m" using assms(2) by (auto simp: ht.lookup_insert_if)
  then show ?thesis using nm' by (metis option_rel_Some1)
qed

lemma old_save_reloaded:
  assumes "nm_inv nm" "ht_get (nm_file_table nm) f = Some m"
    and "ht_get (nm_file_table nm) g = None" "nm_ss_list nm \<noteq> []"
    and "length v < MAX_USERNAME_LEN - 1" "fs_writable (nm_fs nm) NM_FILES_FILE"
    and "users_saved nm" "\<forall>x\<in>set (nm_all_users nm). user_ok x" "\<forall>x\<in>set (ht_files (nm_file_table nm)). record_ok x"
    and new: "\<forall>acl ss. add_access [] v (CHR ''W'') = Some acl \<longrightarrow> ss \<in> set (nm_ss_list nm) \<longrightarrow>
      record_ok (new_file env v g acl ss)"
    and second: "\<And>nm1 th1. ht_inv (nm_file_table nm1) \<Longrightarrow> ht_get (nm_file_table nm1) f = Some m \<Longrightarrow>
      fs_writable (nm_fs nm1) NM_FILES_FILE \<Longrightarrow> ft_phase th1 = Writing (table_text nm1) 0 \<Longrightarrow> \<not> ft_dangling th1 \<Longrightarrow>
      \<exists>o2 nm2 th2 o3 nm3 th3. file_steps env nm1 (file_thread cmd k' u f) o2 nm2 th2 \<and> msg \<in> set o2 \<and>
        ft_phase th2 = Ended \<and> file_steps env nm2 th1 o3 nm3 th3 \<and> ft_phase th3 = Ended \<and>
        ht_get (nm_file_table nm3) f = r \<and> nm_fs nm3 = fs_write (nm_fs nm1) NM_FILES_FILE (table_text nm1)"
  shows "\<exists>s. fc_reachable nm s \<and> (\<forall>th\<in>set (fc_threads s). ft_phase th = Ended) \<and> msg \<in> set (fc_sent s) \<and>
    ht_get (nm_file_table (fc_nm s)) f = r \<and>
    (\<exists>nm' m'. nm_create clock (nm_fs (fc_nm s)) = Some nm' \<and> ht_get (nm_file_table nm') f = Some m' \<and> same_record m m')"
proof -
  obtain s acl ss where s: "fc_reachable nm s" "\<forall>th\<in>set (fc_threads s). ft_phase th = Ended" "msg \<in> set (fc_sent s)"
    "ht_get (nm_file_table (fc_nm s)) f = r" "add_access [] v (CHR ''W'') = Some acl" "ss \<in> set (nm_ss_list nm)"
    "nm_fs (fc_nm s) = fs_write (nm_fs nm) NM_FILES_FILE
      (concat (map render_file (ht_files (fst (ht_insert (nm_file_table nm) (new_file env v g acl ss))))))"
  proof -
    have "\<exists>s acl ss. fc_reachable nm s \<and> (\<forall>th\<in>set (fc_threads s). ft_phase th = Ended) \<and>
      msg \<in> set (fc_sent s) \<and> ht_get (nm_file_table (fc_nm s)) f = r \<and>
      add_access [] v (CHR ''W'') = Some acl \<and> ss \<in> set (nm_ss_list nm) \<and>
      nm_fs (fc_nm s) = fs_write (nm_fs nm) NM_FILES_FILE
        (concat (map render_file (ht_files (fst (ht_insert (nm_file_table nm) (new_file env v g acl ss))))))"
      by (rule old_save_wins [OF assms(1-6)]) (rule second)
    then show ?thesis using that by (elim exE conjE)
  qed
  have "record_ok (new_file env v g acl ss)" using new s(5,6) by blast
  from deleted_file_reloaded [OF assms(1,2,7-9) this s(7), of clock] show ?thesis
    by (intro exI [of _ s] conjI s(1-4))
qed

text \<open>The demo server with its users on disk.\<close>

lemma demo_saved:
  "nm_inv (nm_save_users demo_nm)" "ht_get (nm_file_table (nm_save_users demo_nm)) ''f'' = Some demo_meta"
  "ht_get (nm_file_table (nm_save_users demo_nm)) ''n'' = None" "nm_ss_list (nm_save_users demo_nm) \<noteq> []"
  "fs_writable (nm_fs (nm_save_users demo_nm)) NM_FILES_FILE" "users_saved (nm_save_users demo_nm)"
  "\<forall>x\<in>set (nm_all_users (nm_save_users demo_nm)). user_ok x"
  "\<forall>x\<in>set (ht_files (nm_file_table (nm_save_users demo_nm))). record_ok x"
proof -
  have same: "nm_file_table (nm_save_users demo_nm) = nm_file_table demo_nm"
    "nm_ss_list (nm_save_users demo_nm) = nm_ss_list demo_nm" "nm_all_users (nm_save_users demo_nm) = nm_all_users demo_nm"
    by (simp_all add: nm_save_users_def)
  show "nm_inv (nm_save_users demo_nm)" using demo_nm_inv
    by (rule nm_inv_cong [rotated 2]) (simp_all add: nm_save_users_def demo_nm_def)
  show "ht_get (nm_file_table (nm_save_users demo_nm)) ''f'' = Some demo_meta" using demo_nm_facts(2) by (simp add: same)
  show "ht_get (nm_file_table (nm_save_users demo_nm)) ''n'' = None"
    unfolding same by (simp add: demo_nm_def ht.lookup_insert_if ht.lookup_empty demo_meta_def)
  show "nm_ss_list (nm_save_users demo_nm) \<noteq> []" unfolding same by (simp add: demo_nm_def)
  show "fs_writable (nm_fs (nm_save_users demo_nm)) NM_FILES_FILE" "users_saved (nm_save_users demo_nm)"
    by (simp_all add: nm_save_users_def users_saved_def fs_write_def demo_nm_facts(5))
  show "\<forall>x\<in>set (nm_all_users (nm_save_users demo_nm)). user_ok x"
    "\<forall>x\<in>set (ht_files (nm_file_table (nm_save_users demo_nm))). record_ok x"
    using demo_nm_facts(3,4,6) by (auto simp: same)
qed

lemma demo_saved_new:
  "\<forall>acl ss. add_access [] ''al'' (CHR ''W'') = Some acl \<longrightarrow> ss \<in> set (nm_ss_list (nm_save_users demo_nm)) \<longrightarrow>
     record_ok (new_file demo_env ''al'' ''n'' acl ss)"
proof (intro allI impI)
  fix acl ss
  assume that: "add_access [] ''al'' (CHR ''W'') = Some acl" "ss \<in> set (nm_ss_list (nm_save_users demo_nm))"
  have show_ints: "show_int 91 = ''91''" "show_int 0 = ''0''" "show_int 101 = ''101''" by code_simp+
  have "add_access [] ''al'' (CHR ''W'') = Some [\<lparr>an_username = ''al'', an_permission = CHR ''W''\<rparr>]" by code_simp
  moreover have "ss = \<lparr>si_socket = 5, si_ip = ''10.0.0.1'', si_client_port = 91\<rparr>"
    using that(2) by (simp add: nm_save_users_def demo_nm_def)
  ultimately show "record_ok (new_file demo_env ''al'' ''n'' acl ss)" using that(1) show_ints
    by (simp add: record_ok_def new_file_def field_ok_def node_ok_def access_inv_def
        is_int32_def is_int64_def render_file_def render_access_def demo_env_def strncpy_zeroed_def)
qed

section \<open>Properties\<close>

text \<open>C18. The handlers and the interleaving model are the same program: for a CREATE, DELETE, ADDACCESS or
  REMACCESS line, the complete runs of the steps of its thread with nobody in between are exactly
  the results of the name server's command, however many bytes of the save reach the disk at a
  time.\<close>

theorem file_command_alone:
  assumes "started_thread sock username bytes = Some th"
  shows "nm_client_command env nm sock username bytes = Some (nm', outs) \<longleftrightarrow>
    (\<exists>th'. file_steps env nm th outs nm' th' \<and> ft_phase th' = Ended)"
  by (rule alone_is_handler [OF assms])

theorem file_command_alone_witness:
  "\<exists>nm' outs th'. file_steps demo_env demo_nm (file_thread DeleteFile 8 ''bob'' ''f'') outs nm' th' \<and>
     ft_phase th' = Ended \<and> ht_get (nm_file_table nm') ''f'' = None"
proof -
  obtain nm' notify where d: "handle_delete demo_nm 8 ''bob'' ''f'' =
      (nm', notify @ [(8, ''200 OK: File deleted successfully.'')])"
    "ht_get (nm_file_table nm') = (ht_get (nm_file_table demo_nm))(''f'' := None)"
    using handle_delete_owner [OF demo_nm_inv demo_nm_facts(2), of "''bob''" 8] by (auto simp: demo_meta_def)
  have line: "split_string '' '' (trim_newline (cstr ''DELETE f'')) = [''DELETE'', ''f'']" by code_simp
  then have "nm_client_command demo_env demo_nm 8 ''bob'' ''DELETE f'' =
      Some (nm', notify @ [(8, ''200 OK: File deleted successfully.'')])"
    using d(1) by (simp add: nm_client_command_def handle_create_delete_def)
  moreover have "started_thread 8 ''bob'' ''DELETE f'' = Some (file_thread DeleteFile 8 ''bob'' ''f'')"
    using line by (simp add: started_thread_def)
  ultimately have "\<exists>th'. file_steps demo_env demo_nm (file_thread DeleteFile 8 ''bob'' ''f'')
      (notify @ [(8, ''200 OK: File deleted successfully.'')]) nm' th' \<and> ft_phase th' = Ended"
    using file_command_alone by blast
  moreover have "ht_get (nm_file_table nm') ''f'' = None" using d(2) by simp
  ultimately show ?thesis by blast
qed

text \<open>C19. Commands on different files do not disturb each other, however they interleave with each other
  and with changes of metadata: no thread ever uses a freed entry, a DELETE and a change of permissions
  happen to a file of their caller, and a CREATE that has found its name free inserts it.\<close>

theorem different_files_do_not_interfere:
  assumes "fc_reachable nm s" "ht_inv (nm_file_table nm)" "distinct (map ft_filename (fc_threads s))"
    and "\<forall>th\<in>set (fc_threads s). length (ft_filename th) < MAX_FILENAME_LEN" "th \<in> set (fc_threads s)"
  shows "\<not> ft_dangling th \<and>
    (ft_phase th \<in> {Owned, Notified} \<longrightarrow>
       map_option fm_owner (ht_get (nm_file_table (fc_nm s)) (ft_filename th)) = Some (ft_user th)) \<and>
    (\<forall>meta. ft_phase th = Announced meta \<longrightarrow>
       ht_get (fst (ht_insert (nm_file_table (fc_nm s)) meta)) (ft_filename th) = Some meta)"
proof -
  have "names_apart s" using assms(3,4) by (simp add: names_apart_def)
  then have "thread_ok (nm_file_table (fc_nm s)) th"
    using fc_reachable_ok [OF assms(1,2)] assms(5) by (simp add: fc_ok_def)
  then show ?thesis by (auto simp: thread_ok_def ht.lookup_insert_if)
qed

theorem different_files_do_not_interfere_witness:
  "\<exists>s th. fc_reachable demo_nm s \<and> th \<in> set (fc_threads s) \<and> ft_phase th = Notified \<and>
     map_option fm_owner (ht_get (nm_file_table (fc_nm s)) (ft_filename th)) = Some ''bob''"
proof -
  let ?r = "fc_run demo_env (replicate 3 (1, 1)) (arrived demo_nm [(CreateFile, 7, ''al'', ''n''), (DeleteFile, 8, ''bob'', ''f'')])"
  have "map_option (\<lambda>s. map (\<lambda>th. (ft_filename th, ft_user th, ft_phase th)) (fc_threads s)) ?r =
    Some [(''n'', ''al'', Arrived), (''f'', ''bob'', Notified)]" by code_simp
  then obtain s other th where s: "?r = Some s" "fc_threads s = [other, th]"
    and th: "ft_phase th = Notified" "ft_user th = ''bob''" "ft_filename th = ''f''" "ft_filename other = ''n''"
    by (auto simp: map_eq_Cons_conv)
  then have names: "map ft_filename (fc_threads s) = [''n'', ''f'']" and mem: "th \<in> set (fc_threads s)" by simp_all
  have "\<forall>f\<in>set (map ft_filename (fc_threads s)). length f < MAX_FILENAME_LEN" unfolding names by simp
  then have short: "\<forall>th\<in>set (fc_threads s). length (ft_filename th) < MAX_FILENAME_LEN" by simp
  have "distinct (map ft_filename (fc_threads s))" unfolding names by simp
  then have "map_option fm_owner (ht_get (nm_file_table (fc_nm s)) (ft_filename th)) = Some (ft_user th)"
    using different_files_do_not_interfere [OF fc_run_arrived [OF s(1)] demo_nm_facts(1) _ short mem] th(1) by simp
  then have "map_option fm_owner (ht_get (nm_file_table (fc_nm s)) (ft_filename th)) = Some ''bob''" unfolding th(2) .
  then show ?thesis using fc_run_arrived [OF s(1)] th(1) mem by blast
qed

text \<open>Two CREATEs of one name can both be answered with 201 and both be sent to the storage server
  (which empties the file again); the table has the first one's owner, and the second user has
  no access to the file it was told to own.\<close>

theorem both_creates_succeed:
  "\<exists>s. fc_reachable empty_nm s \<and>
     fc_sent s = [(5, ''CREATE n''), (7, ''201 OK: File created successfully!''),
                  (5, ''CREATE n''), (8, ''201 OK: File created successfully!'')] \<and>
     map_option (\<lambda>m. (fm_owner m, check_access m ''bob'' (CHR ''R''))) (ht_get (nm_file_table (fc_nm s)) ''n'') =
       Some (''al'', False)"
proof -
  have "map_option (\<lambda>s. (fc_sent s,
      map_option (\<lambda>m. (fm_owner m, check_access m ''bob'' (CHR ''R''))) (ht_get (nm_file_table (fc_nm s)) ''n'')))
    create_race = Some ([(5, ''CREATE n''), (7, ''201 OK: File created successfully!''),
                  (5, ''CREATE n''), (8, ''201 OK: File created successfully!'')], Some (''al'', False))"
    by code_simp
  then show ?thesis using races_reachable(1) by auto
qed

text \<open>A DELETE can remove another user's file: its owner check was for a file that is gone.\<close>

theorem delete_takes_another_users_file:
  "\<exists>s s'. fc_reachable demo_nm s \<and> fc_next demo_env 0 1 s = Some s' \<and>
     ft_user (fc_threads s ! 0) = ''bob'' \<and>
     map_option fm_owner (ht_get (nm_file_table (fc_nm s)) ''f'') = Some ''al'' \<and>
     ht_get (nm_file_table (fc_nm s')) ''f'' = None"
proof -
  have "map_option (\<lambda>s. (ft_user (fc_threads s ! 0),
      map_option fm_owner (ht_get (nm_file_table (fc_nm s)) ''f''),
      map_option (\<lambda>s'. map_option fm_owner (ht_get (nm_file_table (fc_nm s')) ''f'')) (fc_next demo_env 0 1 s)))
    delete_race = Some (''bob'', Some ''al'', Some None)" by code_simp
  then obtain s s' where "delete_race = Some s" "fc_next demo_env 0 1 s = Some s'" "ft_user (fc_threads s ! 0) = ''bob''"
    "map_option fm_owner (ht_get (nm_file_table (fc_nm s)) ''f'') = Some ''al''"
    "ht_get (nm_file_table (fc_nm s')) ''f'' = None" by auto
  then show ?thesis using races_reachable(2) by blast
qed





end
