(* ===== verification/Listeners.thy ===== *)
theory Listeners
  imports Client NM_Handlers SS_Startup
begin

text \<open>
  How the three programs come up (\<^verbatim>\<open>create_listener_socket\<close> of \<^verbatim>\<open>common/common.c\<close>,
  \<^verbatim>\<open>ss_create\<close>, \<^verbatim>\<open>ss_connect_to_nm\<close>, \<^verbatim>\<open>ss_run\<close>, \<^verbatim>\<open>ss_listen_for_clients\<close> and \<^verbatim>\<open>main\<close> of
  \<^verbatim>\<open>storage_server.c\<close>, \<^verbatim>\<open>client_connect_to_nm\<close> of \<^verbatim>\<open>client.c\<close>, \<^verbatim>\<open>nm_create\<close>, \<^verbatim>\<open>nm_run\<close>, \<^verbatim>\<open>nm_free\<close> and
  \<^verbatim>\<open>main\<close> of \<^verbatim>\<open>name_server.c\<close>), over a process with a table of descriptors.

  \<open>System\<close> is the operating system: the descriptor \<^verbatim>\<open>socket\<close> returns, and which of the other calls
  succeed. What a successful call does to the descriptor table is part of the model, and
  every call that changes something, sends a message or starts a thread is in the trace.
\<close>

abbreviation NM_PORT :: c_int where "NM_PORT \<equiv> 8000"
abbreviation MAX_CONNECTIONS :: nat where "MAX_CONNECTIONS \<equiv> 20"

section \<open>The operating system\<close>

datatype socket_state =
    Unbound
  | BoundTo nat
  | Listening nat
  | ConnectedTo string nat
  | PeerAt string

datatype thread_start = NMListener | ClientListener | ClientThread c_int string | ConnThread c_int string

datatype sys_event =
    MadeDir string
  | OpenedSocket c_int
  | ListensOn c_int nat
  | Connects c_int string nat
  | Accepts c_int string
  | ClosedSocket c_int
  | SentOn c_int string
  | StartedThread thread_start

record System =
  sy_socket :: "(c_int \<Rightarrow> socket_state option) \<Rightarrow> c_int"
  sy_reuse :: bool
  sy_free_port :: nat
  sy_bind :: "nat \<Rightarrow> bool"
  sy_listen :: "nat \<Rightarrow> bool"
  sy_address :: "string \<Rightarrow> bool"
  sy_connect :: "string \<Rightarrow> nat \<Rightarrow> bool"
  sy_thread :: "nat \<Rightarrow> bool"

record Process =
  pr_fds :: "c_int \<Rightarrow> socket_state option"
  pr_trace :: "sys_event list"

text \<open>What POSIX says of \<^verbatim>\<open>socket\<close>: a descriptor that is not open.\<close>

definition fresh_sockets :: "System \<Rightarrow> bool" where
  "fresh_sockets sy \<longleftrightarrow> (\<forall>fds. sy_socket sy fds \<ge> 0 \<longrightarrow> fds (sy_socket sy fds) = None)"

definition event :: "sys_event \<Rightarrow> Process \<Rightarrow> Process" where
  "event e p = p\<lparr>pr_trace := pr_trace p @ [e]\<rparr>"

text \<open>A close of a descriptor that is not open (such as -1) changes nothing.\<close>

definition sys_close :: "c_int \<Rightarrow> Process \<Rightarrow> Process" where
  "sys_close sock p =
     (if pr_fds p sock = None then p
      else event (ClosedSocket sock) (p\<lparr>pr_fds := (pr_fds p)(sock := None)\<rparr>))"

definition sys_socket :: "System \<Rightarrow> Process \<Rightarrow> Process \<times> c_int" where
  "sys_socket sy p =
     (let sock = sy_socket sy (pr_fds p)
      in if sock < 0 then (p, -1)
         else (event (OpenedSocket sock) (p\<lparr>pr_fds := (pr_fds p)(sock \<mapsto> Unbound)\<rparr>), sock))"

text \<open>\<open>htons\<close> keeps the low 16 bits. A bind to port 0 gets a free port of the system's choice.\<close>

definition htons :: "c_int \<Rightarrow> nat" where
  "htons port = nat (port mod 2 ^ 16)"

definition bound_port :: "System \<Rightarrow> c_int \<Rightarrow> nat" where
  "bound_port sy port = (if htons port = 0 then sy_free_port sy else htons port)"

definition sys_bind :: "System \<Rightarrow> c_int \<Rightarrow> c_int \<Rightarrow> Process \<Rightarrow> Process \<times> bool" where
  "sys_bind sy sock port p =
     (if sy_bind sy (bound_port sy port)
      then (p\<lparr>pr_fds := (pr_fds p)(sock \<mapsto> BoundTo (bound_port sy port))\<rparr>, True) else (p, False))"

definition sys_listen :: "System \<Rightarrow> c_int \<Rightarrow> nat \<Rightarrow> Process \<Rightarrow> Process \<times> bool" where
  "sys_listen sy sock backlog p =
     (case pr_fds p sock of
        Some (BoundTo port) \<Rightarrow>
          if sy_listen sy backlog
          then (event (ListensOn sock port) (p\<lparr>pr_fds := (pr_fds p)(sock \<mapsto> Listening port)\<rparr>), True)
          else (p, False)
      | _ \<Rightarrow> (p, False))"

definition sys_connect :: "System \<Rightarrow> c_int \<Rightarrow> string \<Rightarrow> nat \<Rightarrow> Process \<Rightarrow> Process \<times> bool" where
  "sys_connect sy sock ip port p =
     (if sy_connect sy ip port
      then (event (Connects sock ip port) (p\<lparr>pr_fds := (pr_fds p)(sock \<mapsto> ConnectedTo ip port)\<rparr>), True)
      else (p, False))"

definition accepted_sock :: "c_int \<Rightarrow> string \<Rightarrow> Process \<Rightarrow> Process" where
  "accepted_sock sock ip p = event (Accepts sock ip) (p\<lparr>pr_fds := (pr_fds p)(sock \<mapsto> PeerAt ip)\<rparr>)"

section \<open>A listener\<close>

definition create_listener_socket :: "System \<Rightarrow> c_int \<Rightarrow> Process \<Rightarrow> Process \<times> c_int" where
  "create_listener_socket sy port p =
     (case sys_socket sy p of (p, sock) \<Rightarrow>
        if sock < 0 then (p, -1)
        else if \<not> sy_reuse sy then (sys_close sock p, -1)
        else case sys_bind sy sock port p of
               (p, False) \<Rightarrow> (sys_close sock p, -1)
             | (p, True) \<Rightarrow>
                 (case sys_listen sy sock MAX_CONNECTIONS p of
                    (p, False) \<Rightarrow> (sys_close sock p, -1)
                  | (p, True) \<Rightarrow> (p, sock)))"

section \<open>The storage server\<close>

text \<open>\<open>ss_create\<close> with its listener: the server and \<open>client_listen_sock\<close>, or \<open>NULL\<close>.\<close>

definition ss_create_listening ::
  "System \<Rightarrow> string \<Rightarrow> c_int \<Rightarrow> FileSystem \<Rightarrow> Process \<Rightarrow> Process \<times> (StorageServer \<times> c_int) option" where
  "ss_create_listening sy path client_port fs p =
     (let ss = ss_create path client_port fs
      in case create_listener_socket sy client_port (event (MadeDir (ss_storage_path ss)) p) of
           (p, client_listen_sock) \<Rightarrow>
             if client_listen_sock < 0 then (p, None) else (p, Some (ss, client_listen_sock)))"

text \<open>\<open>ss_connect_to_nm\<close>: the connection, then the message of \<open>ss_connect_to_nm\<close>. The
  result is \<open>nm_sock\<close>. The answer of \<^verbatim>\<open>inet_pton\<close> is not looked at: with a text that is not an address
  \<open>sin_addr\<close> stays uninitialised.\<close>

definition ss_register ::
  "System \<Rightarrow> StorageServer \<Rightarrow> string list option \<Rightarrow> string \<Rightarrow> c_int \<Rightarrow> Process \<Rightarrow> (Process \<times> c_int) option" where
  "ss_register sy ss dir nm_ip nm_port p =
     (case sys_socket sy p of (p, nm_sock) \<Rightarrow>
        if nm_sock < 0 then Some (p, nm_sock)
        else if \<not> sy_address sy nm_ip then None
        else case sys_connect sy nm_sock nm_ip (htons nm_port) p of
               (p, False) \<Rightarrow> Some (sys_close nm_sock p, -1)
             | (p, True) \<Rightarrow>
                 map_option (\<lambda>init_msg. (event (SentOn nm_sock init_msg) p, nm_sock))
                   (ss_connect_to_nm ss dir))"

text \<open>A \<^verbatim>\<open>pthread_create\<close> that fails leaves the thread id uninitialised, and \<^verbatim>\<open>pthread_detach\<close> or
  \<^verbatim>\<open>pthread_join\<close> of it is undefined.\<close>

definition start_thread :: "System \<Rightarrow> nat \<Rightarrow> thread_start \<Rightarrow> Process \<Rightarrow> Process option" where
  "start_thread sy k t p = (if sy_thread sy k then Some (event (StartedThread t) p) else None)"

definition ss_run ::
  "System \<Rightarrow> StorageServer \<Rightarrow> string list option \<Rightarrow> string \<Rightarrow> c_int \<Rightarrow> Process \<Rightarrow> Process option" where
  "ss_run sy ss dir nm_ip nm_port p =
     do { (p, nm_sock) \<leftarrow> ss_register sy ss dir nm_ip nm_port p;
          if nm_sock < 0 then Some p
          else do { p \<leftarrow> start_thread sy 0 NMListener p; start_thread sy 1 ClientListener p } }"

text \<open>The accept loop of \<open>ss_listen_for_clients\<close> over the results of \<^verbatim>\<open>accept\<close>: a descriptor and the
  peer's address.\<close>

fun ss_listen_for_clients :: "System \<Rightarrow> nat \<Rightarrow> (c_int \<times> string) list \<Rightarrow> Process \<Rightarrow> Process option" where
  "ss_listen_for_clients sy k [] p = Some p"
| "ss_listen_for_clients sy k ((client_sock, client_ip) # accepted) p =
     (if client_sock < 0 then ss_listen_for_clients sy k accepted p
      else do { p \<leftarrow> start_thread sy k (ClientThread client_sock client_ip) (accepted_sock client_sock client_ip p);
                ss_listen_for_clients sy (k + 1) accepted p })"

text \<open>\<open>main\<close>: the exit code, 0 also when the name server was not reached.\<close>

definition storage_server_main ::
  "System \<Rightarrow> FileSystem \<Rightarrow> string list option \<Rightarrow> string list \<Rightarrow> Process \<Rightarrow> (Process \<times> c_int) option" where
  "storage_server_main sy fs dir argv p =
     (if length argv \<noteq> 5 then Some (p, 1)
      else
        let path = argv ! 1; nm_ip = argv ! 2; nm_port = atoi (argv ! 3); client_port = atoi (argv ! 4)
        in case ss_create_listening sy path client_port fs p of
             (p, None) \<Rightarrow> Some (p, 1)
           | (p, Some (ss, client_listen_sock)) \<Rightarrow>
               map_option (\<lambda>p. (p, 0)) (ss_run sy ss dir nm_ip nm_port p))"

section \<open>The client\<close>

text \<open>The result is \<open>client->nm_sock\<close>.\<close>

definition client_connect_to_nm :: "System \<Rightarrow> Client \<Rightarrow> string \<Rightarrow> Process \<Rightarrow> Process \<times> c_int" where
  "client_connect_to_nm sy client nm_ip p =
     (case sys_socket sy p of (p, nm_sock) \<Rightarrow>
        if nm_sock < 0 then (p, nm_sock)
        else if \<not> sy_address sy nm_ip then (sys_close nm_sock p, -1)
        else case sys_connect sy nm_sock nm_ip (htons NM_PORT) p of
               (p, False) \<Rightarrow> (sys_close nm_sock p, -1)
             | (p, True) \<Rightarrow>
                 (event (SentOn nm_sock (snprintf BUFFER_SIZE (''INIT_CLIENT '' @ cl_username client))) p, nm_sock))"

text \<open>The connection of the client to a storage server (\<^verbatim>\<open>client_net.c\<close>): the descriptor, or -1.\<close>

definition client_connect_to_ss :: "System \<Rightarrow> string \<Rightarrow> c_int \<Rightarrow> Process \<Rightarrow> Process \<times> c_int" where
  "client_connect_to_ss sy ip port p =
     (case sys_socket sy p of (p, sock) \<Rightarrow>
        if sock < 0 then (p, -1)
        else if \<not> sy_address sy ip then (sys_close sock p, -1)
        else case sys_connect sy sock ip (htons port) p of
               (p, False) \<Rightarrow> (sys_close sock p, -1)
             | (p, True) \<Rightarrow> (p, sock))"

text \<open>The program with its argument: the session of \<open>client_main\<close> runs when the name server
  was reached, which does not depend on the user name.\<close>

definition client_program ::
  "System \<Rightarrow> (nat \<Rightarrow> ClientEnv) \<Rightarrow> string list \<Rightarrow> string list \<Rightarrow> Process \<Rightarrow> (client_act list \<times> c_int) option" where
  "client_program sy env argv stdin p =
     (if length argv \<noteq> 2
      then Some ([Warn (''Usage: ./bin/client <name_server_ip>'' @ [CHR 0x0A]),
                  Warn (''       (Use 127.0.0.1 if running locally)'' @ [CHR 0x0A])], 1)
      else client_main (0 \<le> snd (client_connect_to_nm sy \<lparr>cl_username = []\<rparr> (argv ! 1) p)) env (argv ! 1) stdin)"

section \<open>The name server\<close>

text \<open>\<open>nm_free\<close>: both files are written once more and the listener is closed; the memory it
  releases is the subject of the theory on linked lists.\<close>

definition nm_free :: "NameServer \<Rightarrow> c_int \<Rightarrow> Process \<Rightarrow> Process \<times> FileSystem" where
  "nm_free nm server_sock p = (sys_close server_sock p, nm_fs (nm_save_users (nm_save_files nm)))"

text \<open>\<open>nm_create\<close> as a whole: the name server and its listener, or, when there is no listener, the
  disk \<open>nm_free\<close> leaves behind.\<close>

definition nm_create_listening ::
  "System \<Rightarrow> (nat \<Rightarrow> c_long) \<Rightarrow> FileSystem \<Rightarrow> Process \<Rightarrow> (Process \<times> (FileSystem, NameServer \<times> c_int) sum) option" where
  "nm_create_listening sy clock fs p =
     (let p = event (MadeDir ''logs'') (event (MadeDir ''data/name_server'') (event (MadeDir ''data'') p))
      in case nm_create clock fs of
           None \<Rightarrow> None
         | Some nm \<Rightarrow>
             (case create_listener_socket sy NM_PORT p of (p, server_sock) \<Rightarrow>
                if server_sock < 0
                then (case nm_free nm server_sock p of (p, fs) \<Rightarrow> Some (p, Inl fs))
                else Some (p, Inr (nm, server_sock))))"

text \<open>The accept loop of \<open>nm_run\<close>. A failed \<^verbatim>\<open>pthread_create\<close> is noticed, the connection is closed, and
  then \<^verbatim>\<open>pthread_detach\<close> is called with the uninitialised thread id all the same.\<close>

fun nm_run :: "System \<Rightarrow> nat \<Rightarrow> (c_int \<times> string) list \<Rightarrow> Process \<Rightarrow> Process option" where
  "nm_run sy k [] p = Some p"
| "nm_run sy k ((new_sock, ip) # accepted) p =
     (if new_sock < 0 then nm_run sy k accepted p
      else do { p \<leftarrow> start_thread sy k (ConnThread new_sock ip) (accepted_sock new_sock ip p);
                nm_run sy (k + 1) accepted p })"

text \<open>\<open>main\<close> up to a point of the infinite loop: the exit code when there is none, or the
  process after some accepted connections.\<close>

definition name_server_main ::
  "System \<Rightarrow> (nat \<Rightarrow> c_long) \<Rightarrow> FileSystem \<Rightarrow> (c_int \<times> string) list \<Rightarrow> Process \<Rightarrow>
     (Process \<times> FileSystem \<times> c_int option) option" where
  "name_server_main sy clock fs accepted p =
     (case nm_create_listening sy clock fs p of
        None \<Rightarrow> None
      | Some (p, Inl fs) \<Rightarrow> Some (p, fs, Some 1)
      | Some (p, Inr (nm, server_sock)) \<Rightarrow>
          map_option (\<lambda>p. (p, nm_fs nm, None)) (nm_run sy 0 accepted p))"

end
