(* ===== verification/Startup.thy ===== *)
theory Startup
  imports Listeners NM_Connections
begin

text \<open>
  What the start of the programs guarantees: a listener is whole or leaves nothing behind, a
  storage server is reachable at the port it announces before it announces it, and a name server
  that can not start rewrites its two files with what it read from them.
\<close>

section \<open>System calls\<close>

lemma event_simps [simp]:
  "pr_fds (event e p) = pr_fds p" "pr_trace (event e p) = pr_trace p @ [e]"
  by (simp_all add: event_def)

lemma sys_close_fds [simp]: "pr_fds (sys_close s p) = (pr_fds p)(s := None)"
  by (auto simp: sys_close_def)

lemma sys_close_trace:
  "pr_trace (sys_close s p) = pr_trace p @ (if pr_fds p s = None then [] else [ClosedSocket s])"
  by (simp add: sys_close_def)

text \<open>The three ways a new socket can go, over the results of its system calls.\<close>

definition listens :: "System \<Rightarrow> c_int \<Rightarrow> Process \<Rightarrow> bool" where
  "listens sy port p \<longleftrightarrow> 0 \<le> sy_socket sy (pr_fds p) \<and> sy_reuse sy \<and> sy_bind sy (bound_port sy port) \<and>
     sy_listen sy MAX_CONNECTIONS"

lemma create_listener_ok:
  assumes "listens sy port p"
  defines "s \<equiv> sy_socket sy (pr_fds p)"
  shows "create_listener_socket sy port p =
    (p\<lparr>pr_fds := (pr_fds p)(s \<mapsto> Listening (bound_port sy port)),
       pr_trace := pr_trace p @ [OpenedSocket s, ListensOn s (bound_port sy port)]\<rparr>, s)"
  using assms(1) unfolding s_def
  by (simp add: listens_def create_listener_socket_def sys_socket_def sys_bind_def sys_listen_def event_def Let_def)

lemma create_listener_fail:
  assumes "\<not> listens sy port p" "fresh_sockets sy"
  defines "s \<equiv> sy_socket sy (pr_fds p)"
  shows "create_listener_socket sy port p =
    (p\<lparr>pr_trace := pr_trace p @ (if 0 \<le> s then [OpenedSocket s, ClosedSocket s] else [])\<rparr>, -1)"
proof -
  have fresh: "0 \<le> s \<Longrightarrow> (pr_fds p)(s := None) = pr_fds p"
    using assms(2) unfolding fresh_sockets_def s_def by (auto simp: fun_upd_idem_iff)
  show ?thesis using assms(1) fresh unfolding s_def
    by (auto simp: listens_def create_listener_socket_def sys_socket_def sys_bind_def sys_listen_def
        sys_close_def event_def Let_def)
qed

text \<open>A connection attempt: whole, or nothing left behind.\<close>

definition reaches :: "System \<Rightarrow> string \<Rightarrow> c_int \<Rightarrow> Process \<Rightarrow> bool" where
  "reaches sy ip port p \<longleftrightarrow> 0 \<le> sy_socket sy (pr_fds p) \<and> sy_address sy ip \<and> sy_connect sy ip (htons port)"

lemma client_connect_to_ss_cases:
  assumes "fresh_sockets sy"
  shows "(reaches sy ip port p \<longrightarrow> (let s = sy_socket sy (pr_fds p) in client_connect_to_ss sy ip port p =
      (p\<lparr>pr_fds := (pr_fds p)(s \<mapsto> ConnectedTo ip (htons port)),
         pr_trace := pr_trace p @ [OpenedSocket s, Connects s ip (htons port)]\<rparr>, s))) \<and>
    (\<not> reaches sy ip port p \<longrightarrow> snd (client_connect_to_ss sy ip port p) = -1 \<and>
      pr_fds (fst (client_connect_to_ss sy ip port p)) = pr_fds p)"
proof -
  have fresh: "0 \<le> sy_socket sy (pr_fds p) \<Longrightarrow> (pr_fds p)(sy_socket sy (pr_fds p) := None) = pr_fds p"
    using assms unfolding fresh_sockets_def by (auto simp: fun_upd_idem_iff)
  then show ?thesis
    by (auto simp: reaches_def client_connect_to_ss_def sys_socket_def sys_connect_def Let_def event_def
        sys_close_def)
qed

section \<open>The storage server\<close>

definition new_process :: Process where
  "new_process = \<lparr>pr_fds = Map.empty, pr_trace = []\<rparr>"

text \<open>How a start of the storage server can end, with its descriptors and everything it did in
  order: no listener; a listener but no name server; up and running.\<close>

lemma storage_server_main_cases:
  assumes "fresh_sockets sy" "length argv = 5"
    and "storage_server_main sy fs dir argv new_process = Some (p, code)"
  defines "port \<equiv> bound_port sy (atoi (argv ! 4))"
  defines "ss \<equiv> ss_create (argv ! 1) (atoi (argv ! 4)) fs"
  shows "(code = 1 \<and> pr_fds p = Map.empty \<and>
      (\<exists>es. pr_trace p = MadeDir (ss_storage_path ss) # es \<and>
        (es = [] \<or> (\<exists>l. es = [OpenedSocket l, ClosedSocket l])))) \<or>
    (code = 0 \<and> (\<exists>l es. pr_fds p = [l \<mapsto> Listening port] \<and>
      pr_trace p = [MadeDir (ss_storage_path ss), OpenedSocket l, ListensOn l port] @ es \<and>
      (es = [] \<or> (\<exists>n. es = [OpenedSocket n, ClosedSocket n])))) \<or>
    (code = 0 \<and> (\<exists>l n msg. l \<noteq> n \<and> ss_connect_to_nm ss dir = Some msg \<and>
      pr_fds p = [l \<mapsto> Listening port, n \<mapsto> ConnectedTo (argv ! 2) (htons (atoi (argv ! 3)))] \<and>
      pr_trace p = [MadeDir (ss_storage_path ss), OpenedSocket l, ListensOn l port, OpenedSocket n,
        Connects n (argv ! 2) (htons (atoi (argv ! 3))), SentOn n msg,
        StartedThread NMListener, StartedThread ClientListener]))"
proof -
  let ?p0 = "event (MadeDir (ss_storage_path ss)) new_process" and ?port = "atoi (argv ! 4)"
  have main: "storage_server_main sy fs dir argv new_process =
    (case create_listener_socket sy ?port ?p0 of (p, l) \<Rightarrow>
       if l < 0 then Some (p, 1)
       else map_option (\<lambda>p. (p, 0)) (ss_run sy ss dir (argv ! 2) (atoi (argv ! 3)) p))"
    using assms(2) unfolding storage_server_main_def ss_create_listening_def Let_def ss_def
    by (auto split: prod.splits)
  show ?thesis
  proof (cases "listens sy ?port ?p0")
    case False
    note c = create_listener_fail [OF False assms(1)]
    show ?thesis using assms(3) unfolding main c by (auto simp: new_process_def)
  next
    case True
    note c = create_listener_ok [OF True]
    let ?l = "sy_socket sy (pr_fds ?p0)"
    let ?p1 = "?p0\<lparr>pr_fds := (pr_fds ?p0)(?l \<mapsto> Listening port),
      pr_trace := pr_trace ?p0 @ [OpenedSocket ?l, ListensOn ?l port]\<rparr>"
    have l: "0 \<le> ?l" using True by (simp add: listens_def)
    have run: "map_option (\<lambda>p. (p, 0)) (ss_run sy ss dir (argv ! 2) (atoi (argv ! 3)) ?p1) = Some (p, code)"
      using assms(3) l unfolding main c port_def by simp
    let ?n = "sy_socket sy (pr_fds ?p1)"
    have n: "0 \<le> ?n \<Longrightarrow> ?n \<noteq> ?l \<and> (pr_fds ?p1)(?n := None) = pr_fds ?p1"
      using assms(1) unfolding fresh_sockets_def by (auto simp: fun_upd_idem_iff)
    then show ?thesis using run
      by (auto simp: ss_run_def ss_register_def sys_socket_def sys_connect_def start_thread_def sys_close_def
          event_def new_process_def Let_def bind_eq_Some_conv split: if_splits)
  qed
qed

lemma announced_message:
  assumes "fresh_sockets sy" "storage_server_main sy fs dir argv new_process = Some (p, code)"
    and "SentOn n msg \<in> set (pr_trace p)"
  defines "port \<equiv> bound_port sy (atoi (argv ! 4))"
  shows "\<exists>l pre. pr_fds p l = Some (Listening port) \<and> ListensOn l port \<in> set pre \<and>
    pr_trace p = pre @ [SentOn n msg, StartedThread NMListener, StartedThread ClientListener] \<and>
    (\<forall>t. StartedThread t \<notin> set pre) \<and>
    ss_connect_to_nm (ss_create (argv ! 1) (atoi (argv ! 4)) fs) dir = Some msg"
proof -
  have len: "length argv = 5"
    using assms(2,3) by (auto simp: storage_server_main_def new_process_def split: if_splits)
  show ?thesis
    using storage_server_main_cases [OF assms(1) len assms(2)] assms(3) unfolding port_def [symmetric]
  proof (elim disjE conjE exE)
    fix l n' msg'
    let ?pre = "[MadeDir (ss_storage_path (ss_create (argv ! 1) (atoi (argv ! 4)) fs)), OpenedSocket l,
      ListensOn l port, OpenedSocket n', Connects n' (argv ! 2) (htons (atoi (argv ! 3)))]"
    assume *: "l \<noteq> n'" "ss_connect_to_nm (ss_create (argv ! 1) (atoi (argv ! 4)) fs) dir = Some msg'"
      "pr_fds p = [l \<mapsto> Listening port, n' \<mapsto> ConnectedTo (argv ! 2) (htons (atoi (argv ! 3)))]"
      "pr_trace p = [MadeDir (ss_storage_path (ss_create (argv ! 1) (atoi (argv ! 4)) fs)), OpenedSocket l,
        ListensOn l port, OpenedSocket n', Connects n' (argv ! 2) (htons (atoi (argv ! 3))), SentOn n' msg',
        StartedThread NMListener, StartedThread ClientListener]"
    then have "n' = n" "msg' = msg" using assms(3) by auto
    then show ?thesis using * by (intro exI [of _ l] exI [of _ ?pre]) simp
  qed auto
qed

section \<open>The name server\<close>

lemma nm_free_disk:
  "nm_free nm sock p = (p', fs) \<Longrightarrow> fs = nm_fs (nm_save_users (nm_save_files nm)) \<and> pr_fds p' = (pr_fds p)(sock := None)"
  by (auto simp: nm_free_def)

lemma load_lines_disk: "load_lines clock k nm ls = Some nm' \<Longrightarrow> nm_fs nm' = nm_fs nm"
proof (induction ls arbitrary: k nm)
  case (Cons l ls)
  then show ?case by (auto split: option.splits)
qed simp

lemma nm_create_disk: "nm_create clock fs = Some nm \<Longrightarrow> nm_fs nm = fs"
  by (auto simp: nm_create_def nm_load_files_def nm_load_users_def dest: load_lines_disk split: option.splits)

lemma same_record_trans [trans]: "same_record m1 m2 \<Longrightarrow> same_record m2 m3 \<Longrightarrow> same_record m1 m3"
  by (auto simp: same_record_def)

text \<open>A name server that finds its port taken has read the two files and writes them again before it
  gives up. Loading what it wrote gives every file back, and the users in their old order.\<close>

lemma failed_start:
  assumes "fresh_sockets sy" "\<not> listens sy NM_PORT p"
    and "ht_inv (nm_file_table nm)" "\<forall>m\<in>set (ht_files (nm_file_table nm)). record_ok m \<and> owner_listed m"
    and "\<forall>u\<in>set (nm_all_users nm). user_ok u" "files_saved nm" "users_saved nm"
    and "fs_writable (nm_fs nm) NM_FILES_FILE" "fs_writable (nm_fs nm) NM_USERS_FILE"
  shows "\<exists>p' fs'. nm_create_listening sy clock (nm_fs nm) p = Some (p', Inl fs') \<and> pr_fds p' = (pr_fds p)(-1 := None) \<and>
    (\<exists>nm'. nm_create clock' fs' = Some nm' \<and> nm_all_users nm' = nm_all_users nm \<and> ht_inv (nm_file_table nm') \<and>
      (\<forall>f. rel_option same_record (ht_get (nm_file_table nm) f) (ht_get (nm_file_table nm') f)))"
proof -
  have ok: "\<forall>m\<in>set (ht_files (nm_file_table nm)). record_ok m" using assms(4) by blast
  obtain nm1 where nm1: "nm_create clock (nm_fs nm) = Some nm1" "nm_all_users nm1 = rev (nm_all_users nm)"
    "ht_inv (nm_file_table nm1)"
    "\<forall>f. rel_option reloaded (ht_get (nm_file_table nm) f) (ht_get (nm_file_table nm1) f)"
    using restart_reloaded [OF assms(3) ok assms(5-7), of clock] by (elim exE conjE)
  have "record_ok m1" if m1: "m1 \<in> set (ht_files (nm_file_table nm1))" for m1
  proof -
    have "ht_get (nm_file_table nm1) (fm_filename m1) = Some m1" using m1 by (simp only: ht_files_iff [OF nm1(3)])
    then obtain m where m: "ht_get (nm_file_table nm) (fm_filename m1) = Some m" "reloaded m m1"
      using nm1(4) [rule_format, of "fm_filename m1"] by (auto simp: option_rel_Some2)
    then have "fm_filename m = fm_filename m1" by (intro ht.lookup_name)
    then have "m \<in> set (ht_files (nm_file_table nm))" using m(1) by (simp only: ht_files_iff [OF assms(3)])
    then show ?thesis using reloaded_record_ok [OF m(2)] assms(4) by blast
  qed
  moreover have fs1: "nm_fs nm1 = nm_fs nm" by (rule nm_create_disk [OF nm1(1)])
  ultimately have saved: "\<forall>m\<in>set (ht_files (nm_file_table (nm_save_users (nm_save_files nm1)))). record_ok m"
    "\<forall>u\<in>set (nm_all_users (nm_save_users (nm_save_files nm1))). user_ok u"
    "ht_inv (nm_file_table (nm_save_users (nm_save_files nm1)))"
    "files_saved (nm_save_users (nm_save_files nm1))" "users_saved (nm_save_users (nm_save_files nm1))"
    using nm1(2,3) assms(5,8,9) by (auto simp: saved_both)
  let ?fs' = "nm_fs (nm_save_users (nm_save_files nm1))"
  obtain nm' where nm': "nm_create clock' ?fs' = Some nm'" "nm_all_users nm' = rev (nm_all_users nm1)"
    "ht_inv (nm_file_table nm')"
    "\<forall>f. rel_option same_record (ht_get (nm_file_table nm1) f) (ht_get (nm_file_table nm') f)"
    using restart [OF saved(3,1,2,4,5), of clock'] unfolding saved_both by (elim exE conjE)
  have "rel_option same_record (ht_get (nm_file_table nm) f) (ht_get (nm_file_table nm') f)" for f
    using nm1(4) [rule_format, of f] nm'(4) [rule_format, of f]
    by (cases "ht_get (nm_file_table nm) f"; cases "ht_get (nm_file_table nm1) f"; cases "ht_get (nm_file_table nm') f")
       (auto simp: reloaded_def intro: same_record_trans)
  moreover obtain p' where "nm_create_listening sy clock (nm_fs nm) p = Some (p', Inl ?fs')" "pr_fds p' = (pr_fds p)(-1 := None)"
  proof -
    let ?p = "event (MadeDir ''logs'') (event (MadeDir ''data/name_server'') (event (MadeDir ''data'') p))"
    have "\<not> listens sy NM_PORT ?p" using assms(2) by (simp add: listens_def)
    note c = create_listener_fail [OF this assms(1)]
    show thesis using that by (simp add: nm_create_listening_def Let_def nm1(1) c nm_free_def)
  qed
  ultimately show ?thesis using nm' nm1(2) by fastforce
qed

section \<open>Properties\<close>

text \<open>A listener is whole or leaves nothing behind: a descriptor that \<open>create_listener_socket\<close>
  returns was not open before and listens at the port asked for, and when it returns -1, as it does as
  soon as one of its calls fails, the open descriptors are those of before.\<close>

theorem listener_all_or_nothing:
  assumes "fresh_sockets sy" "create_listener_socket sy port p = (p', sock)"
  shows "(0 \<le> sock \<longleftrightarrow> listens sy port p) \<and>
    (0 \<le> sock \<longrightarrow> pr_fds p sock = None \<and> pr_fds p' = (pr_fds p)(sock \<mapsto> Listening (bound_port sy port))) \<and>
    (sock < 0 \<longrightarrow> sock = -1 \<and> pr_fds p' = pr_fds p)"
proof (cases "listens sy port p")
  case True
  then have s: "0 \<le> sy_socket sy (pr_fds p)" by (simp add: listens_def)
  then have "pr_fds p (sy_socket sy (pr_fds p)) = None" using assms(1) by (simp add: fresh_sockets_def)
  then show ?thesis using assms(2) s True unfolding create_listener_ok [OF True] by auto
next
  case False
  then show ?thesis using assms(2) unfolding create_listener_fail [OF False assms(1)] by auto
qed

definition demo_system :: System where
  "demo_system = \<lparr>sy_socket = (\<lambda>fds. if fds 3 = None then 3 else if fds 4 = None then 4 else -1), sy_reuse = True,
     sy_free_port = 50000, sy_bind = (\<lambda>port. port \<noteq> 8000), sy_listen = (\<lambda>_. True), sy_address = (\<lambda>_. True),
     sy_connect = (\<lambda>_ _. True), sy_thread = (\<lambda>_. True)\<rparr>"

lemma demo_system_fresh: "fresh_sockets demo_system"
  by (simp add: fresh_sockets_def demo_system_def)

theorem listener_all_or_nothing_witness:
  "pr_fds (fst (create_listener_socket demo_system 9001 new_process)) = [3 \<mapsto> Listening 9001] \<and>
   pr_fds (fst (create_listener_socket demo_system 8000 new_process)) = Map.empty"
proof -
  have l9001: "listens demo_system 9001 new_process" and l8000: "\<not> listens demo_system 8000 new_process"
    by (simp_all add: listens_def demo_system_def bound_port_def htons_def new_process_def)
  have "snd (create_listener_socket demo_system 9001 new_process) = 3"
    "snd (create_listener_socket demo_system 8000 new_process) = -1"
    unfolding create_listener_ok [OF l9001] create_listener_fail [OF l8000 demo_system_fresh]
    by (simp_all add: demo_system_def new_process_def)
  then have "create_listener_socket demo_system 9001 new_process = (fst (create_listener_socket demo_system 9001 new_process), 3)"
    "create_listener_socket demo_system 8000 new_process = (fst (create_listener_socket demo_system 8000 new_process), -1)"
    by (metis prod.collapse)+
  note l = listener_all_or_nothing [OF demo_system_fresh this(1)] listener_all_or_nothing [OF demo_system_fresh this(2)]
  have "bound_port demo_system 9001 = 9001" "pr_fds new_process = Map.empty"
    by (simp_all add: bound_port_def htons_def new_process_def)
  then show ?thesis using l by simp
qed





end
