(* ===== verification/Linked_Lists.thy ===== *)
theory Linked_Lists
  imports Prelude
begin

text \<open>
  The linked lists of the program in memory. A heap of nodes maps the address of an allocated node to
  its contents and its \<open>next\<close> pointer; \<open>NULL\<close> is 0, and an access to an address without a node is
  undefined, as is a second \<^verbatim>\<open>free\<close>. The loops below are the loops the code writes out for each of
  its lists: \<^verbatim>\<open>while (curr)\<close> to find, to unlink with \<open>prev\<close>, to free, to append and to count. \<open>None\<close> is
  undefined behaviour or a loop that does not end.

  \<open>linked_list\<close> is the contract of a list: its calls in memory do what the calls on Isabelle lists
  do, touch no other node, and leak nothing.
\<close>

type_synonym addr = nat
type_synonym 'a heap = "addr \<Rightarrow> ('a \<times> addr) option"

abbreviation NULL :: addr where "NULL \<equiv> 0"

section \<open>The code\<close>

partial_function (option) list_find :: "('a \<Rightarrow> bool option) \<Rightarrow> 'a heap \<Rightarrow> addr \<Rightarrow> addr option" where
  "list_find P h cur =
     (if cur = NULL then Some NULL
      else do { (x, nx) \<leftarrow> h cur; found \<leftarrow> P x; if found then Some cur else list_find P h nx })"

text \<open>A \<^verbatim>\<open>free\<close> of a node that is not allocated is undefined.\<close>

definition free_node :: "'a heap \<Rightarrow> addr \<Rightarrow> 'a heap option" where
  "free_node h p = (case h p of None \<Rightarrow> None | Some _ \<Rightarrow> Some (h(p := None)))"

text \<open>A new node; a \<^verbatim>\<open>malloc\<close> that returned \<open>NULL\<close> is written through without a check.\<close>

definition new_node :: "'a heap \<Rightarrow> addr \<Rightarrow> 'a \<Rightarrow> addr \<Rightarrow> 'a heap option" where
  "new_node h p x nx = (if p = NULL then None else Some (h(p \<mapsto> (x, nx))))"

partial_function (option) list_unlink ::
  "('a \<Rightarrow> bool option) \<Rightarrow> 'a heap \<Rightarrow> addr \<Rightarrow> addr \<Rightarrow> addr \<Rightarrow> ('a heap \<times> addr) option" where
  "list_unlink P h head cur prev =
     (if cur = NULL then Some (h, head)
      else do {
        (x, nx) \<leftarrow> h cur;
        found \<leftarrow> P x;
        if found
        then if prev \<noteq> NULL
             then do { (y, _) \<leftarrow> h prev; h \<leftarrow> free_node (h(prev \<mapsto> (y, nx))) cur; Some (h, head) }
             else do { h \<leftarrow> free_node h cur; Some (h, nx) }
        else list_unlink P h head nx cur })"

partial_function (option) list_free :: "'a heap \<Rightarrow> addr \<Rightarrow> 'a heap option" where
  "list_free h cur =
     (if cur = NULL then Some h
      else do { (x, nx) \<leftarrow> h cur; h \<leftarrow> free_node h cur; list_free h nx })"

text \<open>\<^verbatim>\<open>while (curr->next) curr = curr->next\<close>, then the new node after the last.\<close>

partial_function (option) list_append :: "'a heap \<Rightarrow> addr \<Rightarrow> addr \<Rightarrow> 'a heap option" where
  "list_append h cur q =
     do { (x, nx) \<leftarrow> h cur;
          if nx = NULL then Some (h(cur \<mapsto> (x, q))) else list_append h nx q }"

partial_function (option) list_count :: "'a heap \<Rightarrow> addr \<Rightarrow> c_int \<Rightarrow> c_int option" where
  "list_count h cur count =
     (if cur = NULL then Some count else do { (x, nx) \<leftarrow> h cur; list_count h nx (count + 1) })"

text \<open>\<^verbatim>\<open>for (i = 0; i < k; i++) curr = curr->next\<close>.\<close>

fun list_skip :: "'a heap \<Rightarrow> addr \<Rightarrow> nat \<Rightarrow> addr option" where
  "list_skip h cur 0 = Some cur"
| "list_skip h cur (Suc k) = do { (x, nx) \<leftarrow> h cur; list_skip h nx k }"

section \<open>A list in memory\<close>

text \<open>The nodes from a pointer on, with their addresses.\<close>

fun list_at :: "'a heap \<Rightarrow> addr \<Rightarrow> (addr \<times> 'a) list \<Rightarrow> bool" where
  "list_at h p [] \<longleftrightarrow> p = NULL"
| "list_at h p ((q, x) # ns) \<longleftrightarrow> p = q \<and> q \<noteq> NULL \<and> (\<exists>nx. h q = Some (x, nx) \<and> list_at h nx ns)"

abbreviation addrs :: "(addr \<times> 'a) list \<Rightarrow> addr set" where
  "addrs ns \<equiv> fst ` set ns"

text \<open>The list is there, and the rest of the memory is \<open>F\<close>.\<close>

definition owns :: "'a heap \<Rightarrow> addr \<Rightarrow> (addr \<times> 'a) list \<Rightarrow> 'a heap \<Rightarrow> bool" where
  "owns h p ns F \<longleftrightarrow> list_at h p ns \<and> h |` (- addrs ns) = F"

definition fresh :: "(addr \<Rightarrow> 'b option) \<Rightarrow> addr \<Rightarrow> bool" where
  "fresh h q \<longleftrightarrow> q \<noteq> NULL \<and> h q = None"

lemma list_at_NULL [simp]: "list_at h NULL ns \<longleftrightarrow> ns = []"
  by (cases ns) auto

lemma list_at_not_NULL: "list_at h p ns \<Longrightarrow> p \<noteq> NULL \<Longrightarrow> \<exists>x nx ms. ns = (p, x) # ms \<and> h p = Some (x, nx) \<and> list_at h nx ms"
  by (cases ns) auto

lemma list_at_unique: "list_at h p ns \<Longrightarrow> list_at h p ms \<Longrightarrow> ns = ms"
proof (induction ns arbitrary: p ms)
  case (Cons n ns)
  then show ?case by (cases n; cases ms) auto
qed simp

lemma list_at_append: "list_at h p (xs @ ys) \<Longrightarrow> \<exists>q. list_at h q ys"
proof (induction xs arbitrary: p)
  case (Cons n xs)
  then show ?case by (cases n) auto
qed auto

lemma list_at_mem: "list_at h p ns \<Longrightarrow> (q, x) \<in> set ns \<Longrightarrow> q \<noteq> NULL \<and> (\<exists>nx. h q = Some (x, nx))"
proof (induction ns arbitrary: p)
  case (Cons n ns)
  then show ?case by (cases n) auto
qed simp

lemma addrs_allocated: "list_at h p ns \<Longrightarrow> q \<in> addrs ns \<Longrightarrow> q \<noteq> NULL \<and> h q \<noteq> None"
  using list_at_mem by fastforce

lemma list_at_frame: "list_at h p ns \<Longrightarrow> (\<And>q. q \<in> addrs ns \<Longrightarrow> h' q = h q) \<Longrightarrow> list_at h' p ns"
proof (induction ns arbitrary: p)
  case (Cons n ns)
  then show ?case by (cases n) auto
qed simp

text \<open>A node has one successor, so no node comes twice.\<close>

lemma list_at_distinct: "list_at h p ns \<Longrightarrow> distinct (map fst ns)"
proof (induction ns arbitrary: p)
  case (Cons n ns)
  obtain q x where n: "n = (q, x)" by (cases n)
  then obtain nx where nx: "h q = Some (x, nx)" "list_at h nx ns" using Cons.prems by auto
  have "q \<notin> addrs ns"
  proof
    assume "q \<in> addrs ns"
    then obtain y xs ys where ns: "ns = xs @ (q, y) # ys" by (auto dest: split_list)
    then obtain r where "list_at h r ((q, y) # ys)" using list_at_append nx(2) by blast
    then have "list_at h nx ys" using nx(1) by auto
    then have "ns = ys" by (rule list_at_unique [OF nx(2)])
    then show False using ns by auto
  qed
  then show ?case using Cons.IH [OF nx(2)] n by simp
qed simp

section \<open>What the loops do\<close>

lemma list_find_at:
  "list_at h p ns \<Longrightarrow> \<forall>n\<in>set ns. P (snd n) \<noteq> None \<Longrightarrow>
     list_find P h p = Some (case List.find (\<lambda>n. P (snd n) = Some True) ns of None \<Rightarrow> NULL | Some n \<Rightarrow> fst n)"
proof (induction ns arbitrary: p)
  case Nil
  then show ?case by (subst list_find.simps) simp
next
  case (Cons n ns)
  then show ?case by (cases n, subst list_find.simps) auto
qed

lemma restrict_free: "q \<notin> A \<Longrightarrow> (h(q := None)) |` (- A) = h |` (- insert q A)"
  by (auto simp: restrict_map_def)

declare restrict_fun_upd [simp del]

lemma restrict_UNIV [simp]: "h |` UNIV = h"
  by (simp add: restrict_map_def)

lemma restrict_same: "(\<And>a. a \<notin> A \<Longrightarrow> h' a = h a) \<Longrightarrow> h' |` (- A) = h |` (- A)"
  by (rule ext) (simp add: restrict_map_def)

lemma restrict_extend:
  "q \<notin> A \<Longrightarrow> h q = None \<Longrightarrow> (\<And>a. a \<notin> A \<Longrightarrow> a \<noteq> q \<Longrightarrow> h' a = h a) \<Longrightarrow> h' |` (- insert q A) = h |` (- A)"
  by (rule ext) (simp add: restrict_map_def)

lemma list_free_at: "owns h p ns F \<Longrightarrow> list_free h p = Some F"
proof (induction ns arbitrary: p h)
  case Nil
  then show ?case by (subst list_free.simps) (simp add: owns_def)
next
  case (Cons n ns)
  obtain q x where n: "n = (q, x)" by (cases n)
  then obtain nx where nx: "p = q" "q \<noteq> NULL" "h q = Some (x, nx)" "list_at h nx ns"
    using Cons.prems by (auto simp: owns_def)
  have q: "q \<notin> addrs ns" using list_at_distinct [of h p "n # ns"] Cons.prems n by (simp add: owns_def)
  have "list_at (h(q := None)) nx ns" using q by (intro list_at_frame [OF nx(4)]) auto
  moreover have "(h(q := None)) |` (- addrs ns) = F"
    using Cons.prems n by (simp add: owns_def restrict_free [OF q])
  ultimately have "owns (h(q := None)) nx ns F" by (simp add: owns_def)
  then have "list_free (h(q := None)) nx = Some F" by (rule Cons.IH)
  then show ?case using nx by (subst list_free.simps) (simp add: free_node_def)
qed

lemma list_at_relink:
  "list_at h p (xs @ (r, y) # ys) \<Longrightarrow> (\<And>a. a \<in> addrs xs \<Longrightarrow> h' a = h a) \<Longrightarrow> h' r = Some (y, nx) \<Longrightarrow>
     list_at h' nx zs \<Longrightarrow> list_at h' p (xs @ (r, y) # zs)"
proof (induction xs arbitrary: p)
  case (Cons n xs)
  then show ?case by (cases n) auto
qed auto

lemma list_at_next: "list_at h p (xs @ (r, y) # ys) \<Longrightarrow> list_at h q ys \<Longrightarrow> h r = Some (y, q)"
proof (induction xs arbitrary: p)
  case Nil
  then obtain nx where "h r = Some (y, nx)" "list_at h nx ys" by auto
  then show ?case using Nil(2) by (cases ys; cases "hd ys") auto
next
  case (Cons n xs)
  then show ?case by (cases n) auto
qed

lemma list_unlink_at:
  assumes "list_at h head (pre @ ns)" "list_at h cur ns" "\<forall>n\<in>set ns. P (snd n) \<noteq> None"
    and "prev = (if pre = [] then NULL else fst (last pre))"
  shows "\<exists>h' head'. list_unlink P h head cur prev = Some (h', head') \<and>
    list_at h' head' (pre @ remove_first (\<lambda>n. P (snd n) = Some True) ns) \<and>
    h' |` (- addrs (pre @ remove_first (\<lambda>n. P (snd n) = Some True) ns)) = h |` (- addrs (pre @ ns))"
  using assms
proof (induction ns arbitrary: pre cur prev)
  case Nil
  then show ?case by (subst list_unlink.simps) simp
next
  case (Cons n ns)
  obtain q x where n: "n = (q, x)" by (cases n)
  then obtain nx where nx: "cur = q" "q \<noteq> NULL" "h q = Some (x, nx)" "list_at h nx ns" using Cons.prems(2) by auto
  obtain b where b: "P x = Some b" using Cons.prems(3) n by auto
  have dist: "distinct (map fst (pre @ n # ns))" by (rule list_at_distinct [OF Cons.prems(1)])
  show ?case
  proof (cases b)
    case False
    have "\<exists>h' head'. list_unlink P h head nx q = Some (h', head') \<and>
        list_at h' head' ((pre @ [n]) @ remove_first (\<lambda>n. P (snd n) = Some True) ns) \<and>
        h' |` (- addrs ((pre @ [n]) @ remove_first (\<lambda>n. P (snd n) = Some True) ns)) = h |` (- addrs ((pre @ [n]) @ ns))"
      using Cons.prems(1,3) nx(4) n by (intro Cons.IH) auto
    then show ?thesis using nx b False n by (subst list_unlink.simps) simp
  next
    case True
    show ?thesis
    proof (cases pre rule: rev_cases)
      case Nil
      then have q: "q \<notin> addrs ns" using dist n by simp
      then have "list_at (h(q := None)) nx ns" by (intro list_at_frame [OF nx(4)]) auto
      moreover have "list_unlink P h head cur prev = Some (h(q := None), nx)"
        using nx b True Cons.prems(4) Nil by (subst list_unlink.simps) (simp add: free_node_def)
      ultimately show ?thesis using b True n Nil restrict_free [OF q, of h] by simp
    next
      case (snoc pre0 m)
      obtain r y where m: "m = (r, y)" by (cases m)
      let ?h' = "h(r \<mapsto> (y, nx), q := None)"
      have ne: "r \<noteq> q" "r \<notin> addrs pre0" "q \<notin> addrs pre0" "r \<notin> addrs ns" "q \<notin> addrs ns" "r \<noteq> NULL"
        using dist n m snoc list_at_mem [OF Cons.prems(1), of r y] by auto
      have r: "h r = Some (y, q)"
        using list_at_next [of h head pre0 r y "n # ns"] Cons.prems(1,2) m snoc nx(1) by simp
      have "list_at ?h' head (pre0 @ (r, y) # ns)"
      proof (rule list_at_relink [where nx = nx and ys = "n # ns"])
        show "list_at h head (pre0 @ (r, y) # n # ns)" using Cons.prems(1) m snoc by simp
        show "?h' a = h a" if "a \<in> addrs pre0" for a using that ne(2,3) by auto
        show "?h' r = Some (y, nx)" using ne(1) by simp
        show "list_at ?h' nx ns" by (rule list_at_frame [OF nx(4)]) (use ne(4,5) in auto)
      qed
      moreover have "list_unlink P h head cur prev = Some (?h', head)"
        using nx b True Cons.prems(4) snoc m r ne(1,6)
        by (subst list_unlink.simps) (simp add: free_node_def)
      moreover have "?h' |` (- addrs (pre0 @ (r, y) # ns)) = h |` (- addrs (pre0 @ (r, y) # n # ns))"
        by (rule ext) (simp add: restrict_map_def n)
      ultimately show ?thesis using n m snoc b True by simp
    qed
  qed
qed

lemma list_append_at:
  "list_at h p ns \<Longrightarrow> ns \<noteq> [] \<Longrightarrow> h q = Some (x, NULL) \<Longrightarrow> q \<noteq> NULL \<Longrightarrow> q \<notin> addrs ns \<Longrightarrow>
     \<exists>h'. list_append h p q = Some h' \<and> list_at h' p (ns @ [(q, x)]) \<and> (\<forall>a. a \<notin> addrs ns \<longrightarrow> h' a = h a)"
proof (induction ns arbitrary: p)
  case (Cons n ns)
  obtain r y where n: "n = (r, y)" by (cases n)
  then obtain nx where nx: "p = r" "r \<noteq> NULL" "h r = Some (y, nx)" "list_at h nx ns" using Cons.prems(1) by auto
  have r: "r \<notin> addrs ns" "r \<noteq> q" using list_at_distinct [OF Cons.prems(1)] Cons.prems(5) n by auto
  show ?case
  proof (cases ns)
    case Nil
    then show ?thesis using nx n r Cons.prems(3,4) by (subst list_append.simps) auto
  next
    case (Cons m ms)
    then have ne: "nx \<noteq> NULL" "ns \<noteq> []" using nx(4) by (cases m; auto)+
    obtain h' where h': "list_append h nx q = Some h'" "list_at h' nx (ns @ [(q, x)])" "\<forall>a. a \<notin> addrs ns \<longrightarrow> h' a = h a"
      using Cons.IH [OF nx(4) ne(2) Cons.prems(3,4)] Cons.prems(5) by auto
    then show ?thesis using nx n r ne(1) by (subst list_append.simps) auto
  qed
qed simp

lemma find_mem: "List.find Q ns = Some n \<Longrightarrow> n \<in> set ns \<and> Q n"
  by (induction ns) (auto split: if_splits)

lemma list_at_update:
  "list_at h p ns \<Longrightarrow> List.find Q ns = Some (q, x) \<Longrightarrow> h q = Some (x, nx) \<Longrightarrow>
     list_at (h(q \<mapsto> (f x, nx))) p (update_first Q (\<lambda>(a, y). (a, f y)) ns)"
proof (induction ns arbitrary: p)
  case (Cons n ns)
  obtain r y where n: "n = (r, y)" by (cases n)
  then obtain nx' where nx': "p = r" "r \<noteq> NULL" "h r = Some (y, nx')" "list_at h nx' ns" using Cons.prems(1) by auto
  have r: "r \<notin> addrs ns" using list_at_distinct [OF Cons.prems(1)] n by simp
  show ?case
  proof (cases "Q n")
    case True
    then have "q = r" "y = x" "nx = nx'" using Cons.prems(2,3) n nx'(3) by auto
    moreover have "list_at (h(r \<mapsto> (f x, nx'))) nx' ns" by (rule list_at_frame [OF nx'(4)]) (use r in auto)
    ultimately have "\<exists>nx. (h(r \<mapsto> (f x, nx'))) r = Some (f x, nx) \<and> list_at (h(r \<mapsto> (f x, nx'))) nx ns"
      by (intro exI [of _ nx'] conjI) simp
    then show ?thesis using True nx' n \<open>q = r\<close> \<open>y = x\<close> \<open>nx = nx'\<close> by (simp del: fun_upd_apply)
  next
    case False
    then have "q \<in> addrs ns" using Cons.prems(2) find_mem [of Q ns "(q, x)"] by force
    then have "q \<noteq> r" using r by auto
    then show ?thesis using Cons.IH [OF nx'(4)] Cons.prems(2,3) False nx' n by auto
  qed
qed simp

lemma list_count_at: "list_at h p ns \<Longrightarrow> list_count h p count = Some (count + int (length ns))"
proof (induction ns arbitrary: p count)
  case Nil
  then show ?case by (subst list_count.simps) simp
next
  case (Cons n ns)
  then show ?case by (cases n, subst list_count.simps) (auto simp: algebra_simps)
qed

lemma list_skip_at: "list_at h p ns \<Longrightarrow> k < length ns \<Longrightarrow> list_skip h p k = Some (fst (ns ! k))"
proof (induction ns arbitrary: p k)
  case (Cons n ns)
  then show ?case by (cases n; cases k) auto
qed simp

section \<open>The list and the rest of the memory\<close>

lemma ownsD: "owns h p ns F \<Longrightarrow> list_at h p ns" "owns h p ns F \<Longrightarrow> h |` (- addrs ns) = F"
  by (simp_all add: owns_def)

lemma owns_empty [simp]: "owns h p [] F \<longleftrightarrow> p = NULL \<and> h = F"
  by (auto simp: owns_def)

lemma fresh_not_listed: "list_at h p ns \<Longrightarrow> fresh h q \<Longrightarrow> q \<notin> addrs ns"
  using addrs_allocated by (fastforce simp: fresh_def)

lemma owns_new_node:
  assumes "owns h p ns F" "fresh h q"
  shows "\<exists>h'. new_node h q x p = Some h' \<and> owns h' q ((q, x) # ns) F"
proof -
  have q: "q \<notin> addrs ns" "q \<noteq> NULL" "h q = None"
    using fresh_not_listed [OF ownsD(1) [OF assms(1)] assms(2)] assms(2) by (simp_all add: fresh_def)
  have "list_at (h(q \<mapsto> (x, p))) p ns" by (rule list_at_frame [OF ownsD(1) [OF assms(1)]]) (use q(1) in auto)
  moreover have "h(q \<mapsto> (x, p)) |` (- insert q (addrs ns)) = F"
    using restrict_extend [of q "addrs ns" h "h(q \<mapsto> (x, p))"] q(1,3) ownsD(2) [OF assms(1)] by simp
  ultimately show ?thesis using q(2) by (simp add: new_node_def owns_def)
qed

lemma owns_unlink:
  assumes "owns h p ns F" "\<forall>n\<in>set ns. P (snd n) \<noteq> None"
  shows "\<exists>h' p'. list_unlink P h p p NULL = Some (h', p') \<and>
    owns h' p' (remove_first (\<lambda>n. P (snd n) = Some True) ns) F"
  using list_unlink_at [of h p "[]" ns p P NULL] assms by (auto simp: owns_def)

lemma owns_update:
  assumes "owns h p ns F" "List.find Q ns = Some (q, x)"
  shows "\<exists>nx. h q = Some (x, nx) \<and> q \<noteq> NULL \<and>
    owns (h(q \<mapsto> (f x, nx))) p (update_first Q (\<lambda>(a, y). (a, f y)) ns) F"
proof -
  have mem: "(q, x) \<in> set ns" using find_mem [OF assms(2)] by simp
  then obtain nx where nx: "h q = Some (x, nx)" "q \<noteq> NULL" 
    using list_at_mem [OF ownsD(1) [OF assms(1)] mem] by (elim conjE exE)
  have "map fst (update_first Q (\<lambda>(a, y). (a, f y)) ns) = map fst ns" by (rule map_update_first_key) auto
  then have same: "addrs (update_first Q (\<lambda>(a, y). (a, f y)) ns) = addrs ns"
    unfolding set_map [symmetric] by simp
  have "(h(q \<mapsto> (f x, nx))) |` (- addrs ns) = h |` (- addrs ns)"
    by (rule restrict_same) (use mem in force)
  then have "(h(q \<mapsto> (f x, nx))) |` (- addrs ns) = F" using ownsD(2) [OF assms(1)] by simp
  then show ?thesis using list_at_update [OF ownsD(1) [OF assms(1)] assms(2) nx(1)] nx same by (auto simp: owns_def)
qed

lemma owns_append:
  assumes "owns h p ns F" "fresh h q" "ns \<noteq> []"
  shows "\<exists>h1 h'. new_node h q x NULL = Some h1 \<and> list_append h1 p q = Some h' \<and> owns h' p (ns @ [(q, x)]) F"
proof -
  let ?h1 = "h(q \<mapsto> (x, NULL))"
  have q: "q \<notin> addrs ns" "q \<noteq> NULL" "h q = None"
    using fresh_not_listed [OF ownsD(1) [OF assms(1)] assms(2)] assms(2) by (simp_all add: fresh_def)
  have "list_at ?h1 p ns" by (rule list_at_frame [OF ownsD(1) [OF assms(1)]]) (use q(1) in auto)
  then obtain h' where h': "list_append ?h1 p q = Some h'" "list_at h' p (ns @ [(q, x)])"
    "\<forall>a. a \<notin> addrs ns \<longrightarrow> h' a = ?h1 a"
    using list_append_at [of ?h1 p ns q x] assms(3) q by auto
  have "h' |` (- insert q (addrs ns)) = F"
    using restrict_extend [of q "addrs ns" h h'] h'(3) q(1,3) ownsD(2) [OF assms(1)] by simp
  then show ?thesis using h' q(2) by (simp add: new_node_def owns_def)
qed

lemma map_snd_remove_first [list_node_simps]:
  "map snd (remove_first (\<lambda>n. Q (snd n)) ns) = remove_first Q (map snd ns)"
  by (induction ns) auto

lemma map_snd_update_first [list_node_simps]:
  "map snd (update_first (\<lambda>n. Q (snd n)) (\<lambda>(a, y). (a, f y)) ns) = update_first Q f (map snd ns)"
  by (induction ns) auto

lemma find_snd: "List.find Q (map snd ns) = map_option snd (List.find (\<lambda>n. Q (snd n)) ns)"
  by (induction ns) auto

text \<open>A search by a key, with its two outcomes.\<close>

lemma list_find_cases:
  assumes "owns h p ns F"
  obtains (none) "list_find (\<lambda>x. Some (Q x)) h p = Some NULL" "List.find Q (map snd ns) = None"
      "\<not> list_ex Q (map snd ns)"
  | (found) q x nx where "list_find (\<lambda>x. Some (Q x)) h p = Some q" "q \<noteq> NULL" "h q = Some (x, nx)"
      "List.find (\<lambda>n. Q (snd n)) ns = Some (q, x)" "List.find Q (map snd ns) = Some x" "list_ex Q (map snd ns)"
proof -
  have find: "list_find (\<lambda>x. Some (Q x)) h p =
      Some (case List.find (\<lambda>n. Q (snd n)) ns of None \<Rightarrow> NULL | Some n \<Rightarrow> fst n)"
    using list_find_at [OF ownsD(1) [OF assms], of "\<lambda>x. Some (Q x)"] by simp
  show thesis
  proof (cases "List.find (\<lambda>n. Q (snd n)) ns")
    case None
    then have "List.find Q (map snd ns) = None" unfolding find_snd by simp
    then show ?thesis using find None by (intro none) (auto simp: find_None_iff list_ex_iff)
  next
    case (Some n)
    obtain q x where n: "n = (q, x)" by (cases n)
    then have mem: "(q, x) \<in> set ns" "Q x" using find_mem [OF Some] by simp_all
    obtain nx where nx: "q \<noteq> NULL" "h q = Some (x, nx)"
      using list_at_mem [OF ownsD(1) [OF assms] mem(1)] by (elim conjE exE)
    show ?thesis
      by (rule found [of q x nx]) (use find Some n nx mem in \<open>force simp: find_snd list_ex_iff\<close>)+
  qed
qed

section \<open>The contract of a list\<close>

text \<open>An allocator returns an address that is not in use, as \<^verbatim>\<open>malloc\<close> does while there is memory.\<close>

definition allocator :: "((addr \<Rightarrow> 'b option) \<Rightarrow> addr) \<Rightarrow> bool" where
  "allocator malloc \<longleftrightarrow> (\<forall>h. finite (dom h) \<longrightarrow> fresh h (malloc h))"

text \<open>Several calls one after the other, in memory and on Isabelle lists.\<close>

fun run_calls ::
  "('i \<Rightarrow> addr \<Rightarrow> 'a heap \<times> addr \<Rightarrow> (('a heap \<times> addr) \<times> 'r) option) \<Rightarrow> ('a heap \<Rightarrow> addr) \<Rightarrow>
     'a heap \<times> addr \<Rightarrow> 'i list \<Rightarrow> (('a heap \<times> addr) \<times> 'r list) option" where
  "run_calls call malloc m [] = Some (m, [])"
| "run_calls call malloc m (i # is) =
     do { (m1, r) \<leftarrow> call i (malloc (fst m)) m; (m2, rs) \<leftarrow> run_calls call malloc m1 is; Some (m2, r # rs) }"

fun run_spec :: "('i \<Rightarrow> 'a list \<Rightarrow> ('a list \<times> 'r) option) \<Rightarrow> 'a list \<Rightarrow> 'i list \<Rightarrow> ('a list \<times> 'r list) option" where
  "run_spec spec xs [] = Some (xs, [])"
| "run_spec spec xs (i # is) =
     do { (ys, r) \<leftarrow> spec i xs; (zs, rs) \<leftarrow> run_spec spec ys is; Some (zs, r # rs) }"

locale linked_list =
  fixes call :: "'i \<Rightarrow> addr \<Rightarrow> 'a heap \<times> addr \<Rightarrow> (('a heap \<times> addr) \<times> 'r) option"
    and spec :: "'i \<Rightarrow> 'a list \<Rightarrow> ('a list \<times> 'r) option"
  assumes refines: "owns h p ns F \<Longrightarrow> fresh h q \<Longrightarrow> spec i (map snd ns) = Some (ys, r) \<Longrightarrow>
    \<exists>h' p' ns'. call i q (h, p) = Some ((h', p'), r) \<and> owns h' p' ns' F \<and> map snd ns' = ys"
begin

lemma runs_refine:
  assumes "allocator malloc" "finite (dom F)" "owns h p ns F" "run_spec spec (map snd ns) is = Some (ys, rs)"
  shows "\<exists>h' p' ns'. run_calls call malloc (h, p) is = Some ((h', p'), rs) \<and> owns h' p' ns' F \<and> map snd ns' = ys"
  using assms(3,4)
proof (induction "is" arbitrary: h p ns rs)
  case (Cons i "is")
  obtain zs r rs1 where spec: "spec i (map snd ns) = Some (zs, r)" "run_spec spec zs is = Some (ys, rs1)" "rs = r # rs1"
    using Cons.prems(2) by (auto simp: bind_eq_Some_conv)
  have "dom h \<subseteq> addrs ns \<union> dom F" using ownsD(2) [OF Cons.prems(1)] by (auto simp: restrict_map_def)
  then have "finite (dom h)" using assms(2) by (auto intro: finite_subset)
  then have "fresh h (malloc h)" using assms(1) by (simp add: allocator_def)
  then obtain h1 p1 ns1 where 1: "call i (malloc h) (h, p) = Some ((h1, p1), r)" "owns h1 p1 ns1 F" "map snd ns1 = zs"
    using refines [OF Cons.prems(1) _ spec(1)] by blast
  then obtain h' p' ns' where "run_calls call malloc (h1, p1) is = Some ((h', p'), rs1)" "owns h' p' ns' F" "map snd ns' = ys"
    using Cons.IH [OF 1(2)] spec(2) by auto
  then show ?case using 1(1) spec(3) by auto
qed auto

text \<open>Whatever was called before, freeing the list gives back exactly the memory of the rest: no node
  is lost, none is freed twice.\<close>

lemma released:
  assumes "allocator malloc" "finite (dom F)" "run_spec spec [] is = Some (ys, rs)"
  shows "\<exists>h p. run_calls call malloc (F, NULL) is = Some ((h, p), rs) \<and> list_free h p = Some F"
proof -
  have "owns F NULL [] F" by simp
  then show ?thesis using runs_refine [OF assms(1,2), of F NULL "[]" "is" ys rs] assms(3) list_free_at by fastforce
qed

end

end
