(* ===== verification/List_Memory.thy ===== *)
theory List_Memory
  imports Linked_Lists Storage_Locks Name_Server
begin

text \<open>
  The lists of the two servers as the code keeps them, in memory (\<^verbatim>\<open>data_structures.c\<close>,
  \<^verbatim>\<open>client_handler.c\<close>, \<^verbatim>\<open>ss_handler.c\<close>, \<^verbatim>\<open>storage_server.c\<close>): each operation over pointers, and for
  each list the proof that it refines the operation on Isabelle lists that the rest of the
  development uses. An operation takes the address \<^verbatim>\<open>malloc\<close> would return, the heap and the head of
  the list.
\<close>

section \<open>Access lists\<close>

definition add_access_mem :: "string \<Rightarrow> char \<Rightarrow> addr \<Rightarrow> AccessNode heap \<times> addr \<Rightarrow> (AccessNode heap \<times> addr) option" where
  "add_access_mem username perm q = (\<lambda>(h, head).
     do { cur \<leftarrow> list_find (\<lambda>n. Some (an_username n = username)) h head;
          if cur \<noteq> NULL
          then do { (n, nx) \<leftarrow> h cur; Some (h(cur \<mapsto> (n\<lparr>an_permission := perm\<rparr>, nx)), head) }
          else do { n \<leftarrow> create_access_node username perm; h \<leftarrow> new_node h q n head; Some (h, q) } })"

definition remove_access_mem :: "string \<Rightarrow> AccessNode heap \<times> addr \<Rightarrow> (AccessNode heap \<times> addr) option" where
  "remove_access_mem username = (\<lambda>(h, head).
     list_unlink (\<lambda>n. Some (an_username n = username)) h head head NULL)"

definition get_access_mem :: "string \<Rightarrow> AccessNode heap \<times> addr \<Rightarrow> char option" where
  "get_access_mem username = (\<lambda>(h, head).
     do { cur \<leftarrow> list_find (\<lambda>n. Some (an_username n = username)) h head;
          if cur = NULL then Some (CHR 0x00) else do { (n, nx) \<leftarrow> h cur; Some (an_permission n) } })"

definition free_access_list :: "AccessNode heap \<Rightarrow> addr \<Rightarrow> AccessNode heap option" where
  "free_access_list h head = list_free h head"

datatype access_call = AddAccess string char | RemoveAccess string | GetAccess string

fun access_mem :: "access_call \<Rightarrow> addr \<Rightarrow> AccessNode heap \<times> addr \<Rightarrow> ((AccessNode heap \<times> addr) \<times> char) option" where
  "access_mem (AddAccess u p) q m = map_option (\<lambda>m'. (m', CHR 0x00)) (add_access_mem u p q m)"
| "access_mem (RemoveAccess u) q m = map_option (\<lambda>m'. (m', CHR 0x00)) (remove_access_mem u m)"
| "access_mem (GetAccess u) q m = map_option (\<lambda>c. (m, c)) (get_access_mem u m)"

fun access_spec :: "access_call \<Rightarrow> AccessNode list \<Rightarrow> (AccessNode list \<times> char) option" where
  "access_spec (AddAccess u p) l = map_option (\<lambda>l'. (l', CHR 0x00)) (add_access l u p)"
| "access_spec (RemoveAccess u) l = Some (remove_access l u, CHR 0x00)"
| "access_spec (GetAccess u) l = Some (l, get_access l u)"

text \<open>Unlinking by a key refines \<open>remove_first\<close>.\<close>

lemma unlink_refines:
  assumes "owns h p ns F"
  shows "\<exists>h' p' ns'. list_unlink (\<lambda>x. Some (Q x)) h p p NULL = Some (h', p') \<and> owns h' p' ns' F \<and>
    map snd ns' = remove_first Q (map snd ns)"
  using owns_unlink [OF assms, of "\<lambda>x. Some (Q x)"] by (fastforce simp: list_node_simps)

lemma add_access_refines:
  assumes "owns h p ns F" "fresh h q" "add_access (map snd ns) u c = Some l'"
  shows "\<exists>h' p' ns'. add_access_mem u c q (h, p) = Some (h', p') \<and> owns h' p' ns' F \<and> map snd ns' = l'"
proof (rule list_find_cases [OF assms(1), of "\<lambda>n. an_username n = u"])
  assume none: "list_find (\<lambda>n. Some (an_username n = u)) h p = Some NULL"
    "\<not> list_ex (\<lambda>n. an_username n = u) (map snd ns)"
  then obtain n where n: "create_access_node u c = Some n" "l' = n # map snd ns"
    using assms(3) by (auto simp: add_access_def)
  obtain h' where h': "new_node h q n p = Some h'" "owns h' q ((q, n) # ns) F"
    using owns_new_node [OF assms(1,2), of n] by (elim exE conjE)
  then have "add_access_mem u c q (h, p) = Some (h', q)" using none n by (simp add: add_access_mem_def)
  then show ?thesis using h'(2) n(2) by (intro exI [of _ h'] exI [of _ q] exI [of _ "(q, n) # ns"]) simp
next
  fix r x nx
  assume found: "list_find (\<lambda>n. Some (an_username n = u)) h p = Some r" "r \<noteq> NULL" "h r = Some (x, nx)"
    "List.find (\<lambda>n. an_username (snd n) = u) ns = Some (r, x)" "list_ex (\<lambda>n. an_username n = u) (map snd ns)"
  let ?f = "\<lambda>n. n\<lparr>an_permission := c\<rparr>"
  have "owns (h(r \<mapsto> (?f x, nx))) p (update_first (\<lambda>n. an_username (snd n) = u) (\<lambda>(a, y). (a, ?f y)) ns) F"
    using owns_update [OF assms(1) found(4), of ?f] found(3) by auto
  moreover have "l' = update_first (\<lambda>n. an_username n = u) ?f (map snd ns)"
    using assms(3) found(5) by (simp add: add_access_def)
  moreover have "add_access_mem u c q (h, p) = Some (h(r \<mapsto> (?f x, nx)), p)"
    using found(1-3) by (simp add: add_access_mem_def)
  ultimately show ?thesis using map_snd_update_first [of "\<lambda>n. an_username n = u" ?f ns] by fastforce
qed

lemma get_access_refines:
  assumes "owns h p ns F"
  shows "get_access_mem u (h, p) = Some (get_access (map snd ns) u)"
  by (rule list_find_cases [OF assms, of "\<lambda>n. an_username n = u"])
     (simp_all add: get_access_mem_def get_access_def)

interpretation access_memory: linked_list access_mem access_spec
proof
  fix h p ns F q i ys and r :: char
  assume owns: "owns h p ns F" and fresh: "fresh h q" and spec: "access_spec i (map snd ns) = Some (ys, r)"
  show "\<exists>h' p' ns'. access_mem i q (h, p) = Some ((h', p'), r) \<and> owns h' p' ns' F \<and> map snd ns' = ys"
  proof (cases i)
    case (AddAccess u c)
    then show ?thesis using add_access_refines [OF owns fresh, of u c ys] spec by auto
  next
    case (RemoveAccess u)
    then show ?thesis using unlink_refines [OF owns, of "\<lambda>n. an_username n = u"] spec
      by (auto simp: remove_access_mem_def remove_access_def)
  next
    case (GetAccess u)
    then show ?thesis using get_access_refines [OF owns, of u] owns spec by auto
  qed
qed

section \<open>Connected clients and storage servers\<close>

definition add_client_mem :: "c_int \<Rightarrow> string \<Rightarrow> addr \<Rightarrow> ClientInfo heap \<times> addr \<Rightarrow> (ClientInfo heap \<times> addr) option" where
  "add_client_mem sock username q = (\<lambda>(h, head).
     do { u \<leftarrow> strncpy_raw (MAX_USERNAME_LEN - 1) username;
          h \<leftarrow> new_node h q \<lparr>ci_socket = sock, ci_username = u\<rparr> head; Some (h, q) })"

definition remove_client_mem :: "c_int \<Rightarrow> ClientInfo heap \<times> addr \<Rightarrow> (ClientInfo heap \<times> addr) option" where
  "remove_client_mem sock = (\<lambda>(h, head). list_unlink (\<lambda>n. Some (ci_socket n = sock)) h head head NULL)"

definition add_ss_mem ::
  "c_int \<Rightarrow> string \<Rightarrow> c_int \<Rightarrow> addr \<Rightarrow> StorageServerInfo heap \<times> addr \<Rightarrow> (StorageServerInfo heap \<times> addr) option" where
  "add_ss_mem sock ip client_port q = (\<lambda>(h, head).
     do { a \<leftarrow> strncpy_raw (MAX_IP_LEN - 1) ip;
          h \<leftarrow> new_node h q \<lparr>si_socket = sock, si_ip = a, si_client_port = client_port\<rparr> head; Some (h, q) })"

definition remove_ss_mem :: "c_int \<Rightarrow> StorageServerInfo heap \<times> addr \<Rightarrow> (StorageServerInfo heap \<times> addr) option" where
  "remove_ss_mem sock = (\<lambda>(h, head). list_unlink (\<lambda>n. Some (si_socket n = sock)) h head head NULL)"

text \<open>The choice of a server: the pointer it returns, and the new \<open>next_ss_index\<close>.\<close>

definition get_ss_for_new_file_mem ::
  "c_int \<Rightarrow> StorageServerInfo heap \<times> addr \<Rightarrow> (addr \<times> c_int) option" where
  "get_ss_for_new_file_mem next_ss_index = (\<lambda>(h, head).
     if head = NULL then Some (NULL, next_ss_index)
     else do { count \<leftarrow> list_count h head 0;
               let index = (if next_ss_index \<ge> count then 0 else next_ss_index)
               in do { cur \<leftarrow> list_skip h head (nat index); Some (cur, index + 1) } })"

datatype client_call = AddClient c_int string | RemoveClient c_int
datatype ss_call = AddServer c_int string c_int | RemoveServer c_int

fun client_mem :: "client_call \<Rightarrow> addr \<Rightarrow> ClientInfo heap \<times> addr \<Rightarrow> ((ClientInfo heap \<times> addr) \<times> unit) option" where
  "client_mem (AddClient sock u) q m = map_option (\<lambda>m'. (m', ())) (add_client_mem sock u q m)"
| "client_mem (RemoveClient sock) q m = map_option (\<lambda>m'. (m', ())) (remove_client_mem sock m)"

fun client_spec :: "NameServer \<Rightarrow> client_call \<Rightarrow> ClientInfo list \<Rightarrow> (ClientInfo list \<times> unit) option" where
  "client_spec nm (AddClient sock u) l =
     map_option (\<lambda>nm'. (nm_client_list nm', ())) (add_client (nm\<lparr>nm_client_list := l\<rparr>) sock u)"
| "client_spec nm (RemoveClient sock) l = Some (nm_client_list (remove_client (nm\<lparr>nm_client_list := l\<rparr>) sock), ())"

fun ss_mem :: "ss_call \<Rightarrow> addr \<Rightarrow> StorageServerInfo heap \<times> addr \<Rightarrow> ((StorageServerInfo heap \<times> addr) \<times> unit) option" where
  "ss_mem (AddServer sock ip port) q m = map_option (\<lambda>m'. (m', ())) (add_ss_mem sock ip port q m)"
| "ss_mem (RemoveServer sock) q m = map_option (\<lambda>m'. (m', ())) (remove_ss_mem sock m)"

fun ss_spec :: "NameServer \<Rightarrow> ss_call \<Rightarrow> StorageServerInfo list \<Rightarrow> (StorageServerInfo list \<times> unit) option" where
  "ss_spec nm (AddServer sock ip port) l =
     map_option (\<lambda>nm'. (nm_ss_list nm', ())) (add_ss (nm\<lparr>nm_ss_list := l\<rparr>) sock ip port)"
| "ss_spec nm (RemoveServer sock) l = Some (nm_ss_list (remove_ss (nm\<lparr>nm_ss_list := l\<rparr>) sock), ())"

interpretation client_memory: linked_list client_mem "client_spec nm" for nm
proof
  fix h p ns F q i ys and r :: unit
  assume owns: "owns h p ns F" and fresh: "fresh h q" and spec: "client_spec nm i (map snd ns) = Some (ys, r)"
  show "\<exists>h' p' ns'. client_mem i q (h, p) = Some ((h', p'), r) \<and> owns h' p' ns' F \<and> map snd ns' = ys"
  proof (cases i)
    case (AddClient sock u)
    then obtain v where "strncpy_raw (MAX_USERNAME_LEN - 1) u = Some v" "ys = \<lparr>ci_socket = sock, ci_username = v\<rparr> # map snd ns"
      using spec by (auto simp: add_client_def)
    moreover obtain h' where "new_node h q \<lparr>ci_socket = sock, ci_username = v\<rparr> p = Some h'"
      "owns h' q ((q, \<lparr>ci_socket = sock, ci_username = v\<rparr>) # ns) F"
      using owns_new_node [OF owns fresh] by blast
    ultimately show ?thesis using AddClient
      by (intro exI [of _ h'] exI [of _ q] exI [of _ "(q, \<lparr>ci_socket = sock, ci_username = v\<rparr>) # ns"])
        (simp add: add_client_mem_def strncpy_raw_def)
  next
    case (RemoveClient sock)
    then show ?thesis using unlink_refines [OF owns, of "\<lambda>n. ci_socket n = sock"] spec
      by (auto simp: remove_client_mem_def remove_client_def)
  qed
qed

interpretation ss_memory: linked_list ss_mem "ss_spec nm" for nm
proof
  fix h p ns F q i ys and r :: unit
  assume owns: "owns h p ns F" and fresh: "fresh h q" and spec: "ss_spec nm i (map snd ns) = Some (ys, r)"
  show "\<exists>h' p' ns'. ss_mem i q (h, p) = Some ((h', p'), r) \<and> owns h' p' ns' F \<and> map snd ns' = ys"
  proof (cases i)
    case (AddServer sock ip port)
    then obtain a where "strncpy_raw (MAX_IP_LEN - 1) ip = Some a"
      "ys = \<lparr>si_socket = sock, si_ip = a, si_client_port = port\<rparr> # map snd ns"
      using spec by (auto simp: add_ss_def)
    moreover obtain h' where "new_node h q \<lparr>si_socket = sock, si_ip = a, si_client_port = port\<rparr> p = Some h'"
      "owns h' q ((q, \<lparr>si_socket = sock, si_ip = a, si_client_port = port\<rparr>) # ns) F"
      using owns_new_node [OF owns fresh] by blast
    ultimately show ?thesis using AddServer
      by (intro exI [of _ h'] exI [of _ q] exI [of _ "(q, \<lparr>si_socket = sock, si_ip = a, si_client_port = port\<rparr>) # ns"])
        (simp add: add_ss_mem_def strncpy_raw_def)
  next
    case (RemoveServer sock)
    then show ?thesis using unlink_refines [OF owns, of "\<lambda>n. si_socket n = sock"] spec
      by (auto simp: remove_ss_mem_def remove_ss_def)
  qed
qed

lemma get_ss_refines:
  assumes "owns h p ns F" "map snd ns = nm_ss_list nm" "0 \<le> nm_next_ss_index nm"
    and "get_ss_for_new_file nm = (nm', ss)"
  shows "\<exists>cur. get_ss_for_new_file_mem (nm_next_ss_index nm) (h, p) = Some (cur, nm_next_ss_index nm') \<and>
    (case ss of None \<Rightarrow> cur = NULL | Some info \<Rightarrow> (cur, info) \<in> set ns)"
proof (cases "ns = []")
  case True
  then show ?thesis using assms by (auto simp: get_ss_for_new_file_def get_ss_for_new_file_mem_def)
next
  case False
  have at: "list_at h p ns" by (rule ownsD(1) [OF assms(1)])
  have p: "p \<noteq> NULL" using at False by (cases ns) auto
  have ne: "nm_ss_list nm \<noteq> []" and len: "length (nm_ss_list nm) = length ns"
    using False assms(2) by (auto simp flip: assms(2))
  let ?i = "if nm_next_ss_index nm \<ge> int (length ns) then 0 else nm_next_ss_index nm"
  have i: "nat ?i < length ns" using assms(3) False by auto
  have "get_ss_for_new_file_mem (nm_next_ss_index nm) (h, p) = Some (fst (ns ! nat ?i), ?i + 1)"
    using p list_count_at [OF at, of 0] list_skip_at [OF at i] by (simp add: get_ss_for_new_file_mem_def Let_def)
  moreover have "nm_next_ss_index nm' = ?i + 1" "ss = Some (snd (ns ! nat ?i))"
    using assms(4) ne len i by (auto simp: get_ss_for_new_file_def Let_def simp flip: assms(2))
  moreover have "(fst (ns ! nat ?i), snd (ns ! nat ?i)) \<in> set ns" using i by simp
  ultimately show ?thesis by simp
qed

section \<open>Registered users, sentence locks, commit locks\<close>

text \<open>The shape the three share: nothing when the key is found, else a new node at the head. The result
  is the pointer found, or \<open>NULL\<close> when the node is new.\<close>

definition find_or_push ::
  "('a \<Rightarrow> bool) \<Rightarrow> 'a option \<Rightarrow> addr \<Rightarrow> 'a heap \<times> addr \<Rightarrow> (('a heap \<times> addr) \<times> addr) option" where
  "find_or_push Q node q = (\<lambda>(h, head).
     do { cur \<leftarrow> list_find (\<lambda>n. Some (Q n)) h head;
          if cur \<noteq> NULL then Some ((h, head), cur)
          else do { n \<leftarrow> node; h \<leftarrow> new_node h q n head; Some ((h, q), NULL) } })"

definition nm_register_user_mem :: "string \<Rightarrow> addr \<Rightarrow> UserNode heap \<times> addr \<Rightarrow> ((UserNode heap \<times> addr) \<times> addr) option" where
  "nm_register_user_mem username q =
     find_or_push (\<lambda>n. us_username n = username)
       (map_option (\<lambda>u. \<lparr>us_username = u\<rparr>) (strncpy_raw (MAX_USERNAME_LEN - 1) username)) q"

definition try_lock_sentence_mem ::
  "string \<Rightarrow> c_int \<Rightarrow> addr \<Rightarrow> SentenceLockNode heap \<times> addr \<Rightarrow> ((SentenceLockNode heap \<times> addr) \<times> bool) option" where
  "try_lock_sentence_mem filename sent_num q m =
     map_option (\<lambda>(m', cur). (m', cur = NULL))
       (find_or_push (\<lambda>n. sl_filename n = filename \<and> sl_sentence_num n = sent_num)
         (map_option (\<lambda>f. \<lparr>sl_filename = f, sl_sentence_num = sent_num\<rparr>) (strncpy_raw (MAX_FILENAME_LEN - 1) filename)) q m)"

definition unlock_sentence_mem ::
  "string \<Rightarrow> c_int \<Rightarrow> SentenceLockNode heap \<times> addr \<Rightarrow> (SentenceLockNode heap \<times> addr) option" where
  "unlock_sentence_mem filename sent_num = (\<lambda>(h, head).
     list_unlink (\<lambda>n. Some (sl_filename n = filename \<and> sl_sentence_num n = sent_num)) h head head NULL)"

text \<open>The pointer returned is into the node: the one found or the new one.\<close>

definition get_file_commit_lock_mem ::
  "string \<Rightarrow> addr \<Rightarrow> FileLockNode heap \<times> addr \<Rightarrow> ((FileLockNode heap \<times> addr) \<times> addr) option" where
  "get_file_commit_lock_mem filename q m =
     map_option (\<lambda>(m', cur). (m', if cur = NULL then q else cur))
       (find_or_push (\<lambda>n. fl_filename n = filename)
         (map_option (\<lambda>f. \<lparr>fl_filename = f, fl_holder = None\<rparr>) (strncpy_raw (MAX_FILENAME_LEN - 1) filename)) q m)"

lemma find_or_push_refines:
  assumes "owns h p ns F" "fresh h q"
  shows "(\<forall>x. List.find Q (map snd ns) = Some x \<longrightarrow>
      (\<exists>cur. find_or_push Q node q (h, p) = Some ((h, p), cur) \<and> cur \<noteq> NULL \<and> (cur, x) \<in> set ns)) \<and>
    (\<forall>n. List.find Q (map snd ns) = None \<and> node = Some n \<longrightarrow>
      (\<exists>h'. find_or_push Q node q (h, p) = Some ((h', q), NULL) \<and> owns h' q ((q, n) # ns) F))"
proof (rule list_find_cases [OF assms(1), of Q])
  assume none: "list_find (\<lambda>x. Some (Q x)) h p = Some NULL" "List.find Q (map snd ns) = None"
  have "\<exists>h'. find_or_push Q (Some n) q (h, p) = Some ((h', q), NULL) \<and> owns h' q ((q, n) # ns) F" for n
    using owns_new_node [OF assms, of n] none(1) by (auto simp: find_or_push_def)
  then show ?thesis using none(2) by simp
next
  fix r x nx
  assume found: "list_find (\<lambda>x. Some (Q x)) h p = Some r" "r \<noteq> NULL" "List.find (\<lambda>n. Q (snd n)) ns = Some (r, x)"
    "List.find Q (map snd ns) = Some x"
  have "(r, x) \<in> set ns" using find_mem [OF found(3)] by simp
  then show ?thesis using found by (simp add: find_or_push_def)
qed

lemma list_ex_find: "list_ex Q xs \<longleftrightarrow> List.find Q xs \<noteq> None"
  by (induction xs) auto

datatype lock_call = TryLock string c_int | Unlock string c_int

fun lock_mem :: "lock_call \<Rightarrow> addr \<Rightarrow> SentenceLockNode heap \<times> addr \<Rightarrow> ((SentenceLockNode heap \<times> addr) \<times> bool) option" where
  "lock_mem (TryLock f n) q m = try_lock_sentence_mem f n q m"
| "lock_mem (Unlock f n) q m = map_option (\<lambda>m'. (m', True)) (unlock_sentence_mem f n m)"

fun lock_spec :: "StorageServer \<Rightarrow> lock_call \<Rightarrow> SentenceLockNode list \<Rightarrow> (SentenceLockNode list \<times> bool) option" where
  "lock_spec ss (TryLock f n) l =
     map_option (\<lambda>(ss', b). (ss_sentence_locks ss', b)) (try_lock_sentence (ss\<lparr>ss_sentence_locks := l\<rparr>) f n)"
| "lock_spec ss (Unlock f n) l = Some (ss_sentence_locks (unlock_sentence (ss\<lparr>ss_sentence_locks := l\<rparr>) f n), True)"

interpretation lock_memory: linked_list lock_mem "lock_spec ss" for ss
proof
  fix h p ns F q i ys and r :: bool
  assume owns: "owns h p ns F" and fresh: "fresh h q" and spec: "lock_spec ss i (map snd ns) = Some (ys, r)"
  show "\<exists>h' p' ns'. lock_mem i q (h, p) = Some ((h', p'), r) \<and> owns h' p' ns' F \<and> map snd ns' = ys"
  proof (cases i)
    case (TryLock f n)
    let ?Q = "\<lambda>node. sl_filename node = f \<and> sl_sentence_num node = n"
    show ?thesis
    proof (cases "List.find ?Q (map snd ns)")
      case None
      then have "length f < MAX_FILENAME_LEN - 1" "ys = \<lparr>sl_filename = f, sl_sentence_num = n\<rparr> # map snd ns" "r = True"
        using spec TryLock by (auto simp: try_lock_sentence_def list_ex_find strncpy_raw_def split: if_splits)
      then show ?thesis
        using find_or_push_refines [OF owns fresh, of ?Q "Some \<lparr>sl_filename = f, sl_sentence_num = n\<rparr>"] None TryLock
        by (force simp: try_lock_sentence_mem_def strncpy_raw_def)
    next
      case (Some x)
      then have "ys = map snd ns" "r = False" using spec TryLock by (auto simp: try_lock_sentence_def list_ex_find)
      then show ?thesis
        using find_or_push_refines [OF owns fresh, of ?Q] Some TryLock owns
        by (fastforce simp: try_lock_sentence_mem_def)
    qed
  next
    case (Unlock f n)
    then show ?thesis
      using unlink_refines [OF owns, of "\<lambda>node. sl_filename node = f \<and> sl_sentence_num node = n"] spec
      by (auto simp: unlock_sentence_mem_def unlock_sentence_def)
  qed
qed

definition user_mem :: "string \<Rightarrow> addr \<Rightarrow> UserNode heap \<times> addr \<Rightarrow> ((UserNode heap \<times> addr) \<times> unit) option" where
  "user_mem username q m = map_option (\<lambda>(m', _). (m', ())) (nm_register_user_mem username q m)"

definition user_spec :: "NameServer \<Rightarrow> string \<Rightarrow> UserNode list \<Rightarrow> (UserNode list \<times> unit) option" where
  "user_spec nm username l =
     map_option (\<lambda>nm'. (nm_all_users nm', ())) (nm_register_persistent_user (nm\<lparr>nm_all_users := l\<rparr>) username)"

interpretation user_memory: linked_list user_mem "user_spec nm" for nm
proof
  fix h p ns F q u ys and r :: unit
  assume owns: "owns h p ns F" and fresh: "fresh h q" and spec: "user_spec nm u (map snd ns) = Some (ys, r)"
  let ?Q = "\<lambda>node. us_username node = u"
  show "\<exists>h' p' ns'. user_mem u q (h, p) = Some ((h', p'), r) \<and> owns h' p' ns' F \<and> map snd ns' = ys"
  proof (cases "List.find ?Q (map snd ns)")
    case None
    then have "length u < MAX_USERNAME_LEN - 1" "ys = \<lparr>us_username = u\<rparr> # map snd ns"
      using spec by (auto simp: user_spec_def nm_register_persistent_user_def list_ex_find nm_save_users_def split: if_splits)
    then show ?thesis
      using find_or_push_refines [OF owns fresh, of ?Q "Some \<lparr>us_username = u\<rparr>"] None
      by (force simp: user_mem_def nm_register_user_mem_def strncpy_raw_def)
  next
    case (Some x)
    then have "ys = map snd ns" using spec by (auto simp: user_spec_def nm_register_persistent_user_def list_ex_find)
    then show ?thesis
      using find_or_push_refines [OF owns fresh, of ?Q] Some owns
      by (fastforce simp: user_mem_def nm_register_user_mem_def)
  qed
qed

text \<open>What the returned pointer points to.\<close>

definition commit_lock_mem ::
  "string \<Rightarrow> addr \<Rightarrow> FileLockNode heap \<times> addr \<Rightarrow> ((FileLockNode heap \<times> addr) \<times> FileLockNode) option" where
  "commit_lock_mem filename q m =
     do { (m, cur) \<leftarrow> get_file_commit_lock_mem filename q m; (n, nx) \<leftarrow> fst m cur; Some (m, n) }"

definition commit_lock_spec :: "StorageServer \<Rightarrow> string \<Rightarrow> FileLockNode list \<Rightarrow> (FileLockNode list \<times> FileLockNode) option" where
  "commit_lock_spec ss filename l =
     map_option (\<lambda>(ss', n). (ss_file_locks ss', n)) (get_file_commit_lock (ss\<lparr>ss_file_locks := l\<rparr>) filename)"

interpretation commit_lock_memory: linked_list commit_lock_mem "commit_lock_spec ss" for ss
proof
  fix h p ns F q f ys r
  assume owns: "owns h p ns F" and fresh: "fresh h q" and spec: "commit_lock_spec ss f (map snd ns) = Some (ys, r)"
  let ?Q = "\<lambda>node. fl_filename node = f" and ?n = "\<lparr>fl_filename = f, fl_holder = None\<rparr>"
  show "\<exists>h' p' ns'. commit_lock_mem f q (h, p) = Some ((h', p'), r) \<and> owns h' p' ns' F \<and> map snd ns' = ys"
  proof (cases "List.find ?Q (map snd ns)")
    case None
    then have f: "length f < MAX_FILENAME_LEN - 1" "ys = ?n # map snd ns" "r = ?n"
      using spec by (auto simp: commit_lock_spec_def get_file_commit_lock_def strncpy_raw_def Let_def split: if_splits)
    obtain h' where h': "find_or_push ?Q (Some ?n) q (h, p) = Some ((h', q), NULL)" "owns h' q ((q, ?n) # ns) F"
      using find_or_push_refines [OF owns fresh, of ?Q "Some ?n"] None by blast
    then obtain nx where "h' q = Some (?n, nx)" using ownsD(1) [OF h'(2)] by auto
    then have "commit_lock_mem f q (h, p) = Some ((h', q), ?n)"
      using h'(1) f(1) by (simp add: commit_lock_mem_def get_file_commit_lock_mem_def strncpy_raw_def)
    then show ?thesis using h'(2) f(2,3) by (intro exI [of _ h'] exI [of _ q] exI [of _ "(q, ?n) # ns"]) simp
  next
    case (Some x)
    then have x: "ys = map snd ns" "r = x" using spec by (auto simp: commit_lock_spec_def get_file_commit_lock_def)
    obtain cur where cur: "find_or_push ?Q (map_option (\<lambda>f. \<lparr>fl_filename = f, fl_holder = None\<rparr>)
        (strncpy_raw (MAX_FILENAME_LEN - 1) f)) q (h, p) = Some ((h, p), cur)" "cur \<noteq> NULL" "(cur, x) \<in> set ns"
      using find_or_push_refines [OF owns fresh, of ?Q] Some by blast
    obtain nx where "h cur = Some (x, nx)" using list_at_mem [OF ownsD(1) [OF owns] cur(3)] by (elim conjE exE)
    then show ?thesis using cur x owns
      by (intro exI [of _ h] exI [of _ p] exI [of _ ns]) (simp add: commit_lock_mem_def get_file_commit_lock_mem_def)
  qed
qed

section \<open>The modification log\<close>

text \<open>The log is appended to; \<open>next_log_id\<close> is the counter beside it.\<close>

definition log_modification_mem ::
  "c_int \<Rightarrow> string \<Rightarrow> c_int \<Rightarrow> c_int \<Rightarrow> addr \<Rightarrow> ModificationLogNode heap \<times> addr \<Rightarrow>
     (ModificationLogNode heap \<times> addr) option" where
  "log_modification_mem next_log_id filename index delta q = (\<lambda>(h, head).
     if delta = 0 then Some (h, head)
     else do { f \<leftarrow> strncpy_raw (MAX_FILENAME_LEN - 1) filename;
               h \<leftarrow> new_node h q \<lparr>ml_id = next_log_id, ml_filename = f, ml_original_sentence_index = index,
                                 ml_sentence_delta = delta\<rparr> NULL;
               if head = NULL then Some (h, q) else do { h \<leftarrow> list_append h head q; Some (h, head) } })"

partial_function (option) sentence_shift_mem ::
  "string \<Rightarrow> c_int \<Rightarrow> c_int \<Rightarrow> ModificationLogNode heap \<Rightarrow> addr \<Rightarrow> c_int \<Rightarrow> c_int option" where
  "sentence_shift_mem filename original_index start_log_id h cur shift =
     (if cur = NULL then Some shift
      else do { (n, nx) \<leftarrow> h cur;
                sentence_shift_mem filename original_index start_log_id h nx
                  (if ml_id n \<ge> start_log_id then
                     if ml_filename n = filename then
                       if ml_original_sentence_index n < original_index then shift + ml_sentence_delta n else shift
                     else shift
                   else shift) })"

datatype log_call = LogModification c_int string c_int c_int | GetShift string c_int c_int

fun log_mem :: "log_call \<Rightarrow> addr \<Rightarrow> ModificationLogNode heap \<times> addr \<Rightarrow> ((ModificationLogNode heap \<times> addr) \<times> c_int) option" where
  "log_mem (LogModification c f i d) q m = map_option (\<lambda>m'. (m', 0)) (log_modification_mem c f i d q m)"
| "log_mem (GetShift f i k) q m = map_option (\<lambda>r. (m, r)) (sentence_shift_mem f i k (fst m) (snd m) 0)"

fun log_spec :: "StorageServer \<Rightarrow> log_call \<Rightarrow> ModificationLogNode list \<Rightarrow> (ModificationLogNode list \<times> c_int) option" where
  "log_spec ss (LogModification c f i d) l =
     map_option (\<lambda>ss'. (ss_mod_log ss', 0)) (log_modification (ss\<lparr>ss_mod_log := l, ss_next_log_id := c\<rparr>) f i d)"
| "log_spec ss (GetShift f i k) l = Some (l, get_sentence_shift (ss\<lparr>ss_mod_log := l\<rparr>) f i k)"

lemma sentence_shift_refines:
  "list_at h p ns \<Longrightarrow> sentence_shift_mem f i k h p shift = Some (sentence_shift_loop f i k (map snd ns) shift)"
proof (induction ns arbitrary: p shift)
  case Nil
  then show ?case by (subst sentence_shift_mem.simps) simp
next
  case (Cons n ns)
  then show ?case by (cases n, subst sentence_shift_mem.simps) auto
qed

interpretation log_memory: linked_list log_mem "log_spec ss" for ss
proof
  fix h p ns F q i ys r
  assume owns: "owns h p ns F" and fresh: "fresh h q" and spec: "log_spec ss i (map snd ns) = Some (ys, r)"
  show "\<exists>h' p' ns'. log_mem i q (h, p) = Some ((h', p'), r) \<and> owns h' p' ns' F \<and> map snd ns' = ys"
  proof (cases i)
    case (LogModification c f j d)
    let ?n = "\<lparr>ml_id = c, ml_filename = f, ml_original_sentence_index = j, ml_sentence_delta = d\<rparr>"
    show ?thesis
    proof (cases "d = 0")
      case True
      then show ?thesis using LogModification spec owns by (auto simp: log_modification_def log_modification_mem_def)
    next
      case False
      then have f: "strncpy_raw (MAX_FILENAME_LEN - 1) f = Some f" "ys = map snd ns @ [?n]" "r = 0"
        using LogModification spec by (auto simp: log_modification_def Let_def split: option.splits)
      show ?thesis
      proof (cases "ns = []")
        case True
        then have p: "p = NULL" using owns by simp
        obtain h' where h': "new_node h q ?n NULL = Some h'" "owns h' q [(q, ?n)] F"
          using owns_new_node [OF owns fresh, of ?n] True p by auto
        then have "log_modification_mem c f j d q (h, p) = Some (h', q)"
          using False f(1) p by (simp add: log_modification_mem_def strncpy_raw_def)
        then show ?thesis using LogModification f h'(2) True
          by (intro exI [of _ h'] exI [of _ q] exI [of _ "[(q, ?n)]"]) simp
      next
        case ne: False
        then have p: "p \<noteq> NULL" using ownsD(1) [OF owns] by (cases ns) auto
        obtain h1 h' where h': "new_node h q ?n NULL = Some h1" "list_append h1 p q = Some h'" "owns h' p (ns @ [(q, ?n)]) F"
          using owns_append [OF owns fresh ne, of ?n] by (elim exE conjE)
        then have "log_modification_mem c f j d q (h, p) = Some (h', p)"
          using False f(1) p by (simp add: log_modification_mem_def strncpy_raw_def)
        then show ?thesis using LogModification f h'(3)
          by (intro exI [of _ h'] exI [of _ p] exI [of _ "ns @ [(q, ?n)]"]) simp
      qed
    qed
  next
    case (GetShift f j k)
    then show ?thesis using sentence_shift_refines [OF ownsD(1) [OF owns], of f j k 0] owns spec
      by (auto simp: get_sentence_shift_def)
  qed
qed

section \<open>Properties\<close>

text \<open>C30. The access list of a file in memory: any grants, revocations and lookups one after the other, over
  any \<^verbatim>\<open>malloc\<close> that returns unused memory, return what they return on lists and leave a well-formed
  list with the same entries, and \<open>free_access_list\<close> then gives back exactly the memory that was there
  before: no node is lost, read after it was freed, or freed twice.\<close>

theorem access_list_in_memory:
  assumes "allocator malloc" "finite (dom F)" "run_spec access_spec [] calls = Some (l, rs)"
  shows "\<exists>h p ns. run_calls access_mem malloc (F, NULL) calls = Some ((h, p), rs) \<and> list_at h p ns \<and> map snd ns = l \<and>
    free_access_list h p = Some F"
proof -
  have "owns F NULL [] F" by simp
  then obtain h p ns where "run_calls access_mem malloc (F, NULL) calls = Some ((h, p), rs)" "owns h p ns F" "map snd ns = l"
    using access_memory.runs_refine [OF assms(1,2), of F NULL "[]" calls l rs] assms(3) by auto
  then show ?thesis using ownsD(1) list_free_at unfolding free_access_list_def by blast
qed

definition demo_malloc :: "(addr \<Rightarrow> 'b option) \<Rightarrow> addr" where
  "demo_malloc h = Suc (Max (insert 0 (dom h)))"

lemma demo_malloc_ok: "allocator demo_malloc"
proof -
  have "fresh h (demo_malloc h)" if "finite (dom h)" for h :: "addr \<Rightarrow> 'a option"
  proof -
    have "demo_malloc h \<notin> dom h"
    proof
      assume "demo_malloc h \<in> dom h"
      then have "demo_malloc h \<le> Max (insert 0 (dom h))" using that by (intro Max_ge) simp_all
      then show False by (simp add: demo_malloc_def)
    qed
    then have "h (demo_malloc h) = None" by (simp only: domIff simp_thms)
    moreover have "demo_malloc h \<noteq> NULL" by (simp add: demo_malloc_def)
    ultimately show ?thesis unfolding fresh_def by blast
  qed
  then show ?thesis by (simp add: allocator_def)
qed

theorem access_list_in_memory_witness:
  "\<exists>h p. run_calls access_mem demo_malloc (Map.empty, NULL)
     [AddAccess ''al'' (CHR ''R''), AddAccess ''bo'' (CHR ''W''), RemoveAccess ''al'', GetAccess ''bo''] =
     Some ((h, p), [CHR 0x00, CHR 0x00, CHR 0x00, CHR ''W'']) \<and> free_access_list h p = Some Map.empty"
proof -
  have "run_spec access_spec [] [AddAccess ''al'' (CHR ''R''), AddAccess ''bo'' (CHR ''W''), RemoveAccess ''al'', GetAccess ''bo''] =
      Some ([\<lparr>an_username = ''bo'', an_permission = CHR ''W''\<rparr>], [CHR 0x00, CHR 0x00, CHR 0x00, CHR ''W''])"
    by (simp add: add_access_def create_access_node_def strncpy_raw_def remove_access_def get_access_def)
  from access_list_in_memory [OF demo_malloc_ok _ this, of Map.empty] show ?thesis by auto
qed

text \<open>The sentence locks of a storage server in memory, likewise: a lock is refused exactly when the list
  operations refuse it, and the nodes of released locks are freed.\<close>

theorem sentence_locks_in_memory:
  assumes "allocator malloc" "finite (dom F)" "run_spec (lock_spec ss) [] calls = Some (l, rs)"
  shows "\<exists>h p ns. run_calls lock_mem malloc (F, NULL) calls = Some ((h, p), rs) \<and> list_at h p ns \<and> map snd ns = l \<and>
    (l = [] \<longrightarrow> h = F)"
proof -
  have "owns F NULL [] F" by simp
  then obtain h p ns where run: "run_calls lock_mem malloc (F, NULL) calls = Some ((h, p), rs)" "owns h p ns F" "map snd ns = l"
    using lock_memory.runs_refine [OF assms(1,2), of F NULL "[]" ss calls l rs] assms(3) by auto
  have "h = F" if "l = []" using run(2,3) that by simp
  then show ?thesis using run ownsD(1) by blast
qed

theorem sentence_locks_in_memory_witness:
  "\<exists>p. run_calls lock_mem demo_malloc (Map.empty, NULL)
     [TryLock ''f'' 2, TryLock ''f'' 2, TryLock ''f'' 3, Unlock ''f'' 2, Unlock ''f'' 3] =
     Some ((Map.empty, p), [True, False, True, True, True])"
proof -
  have "run_spec (lock_spec (ss_create ''s'' 90 \<lparr>fs_files = Map.empty, fs_writable = (\<lambda>_. True)\<rparr>)) []
      [TryLock ''f'' 2, TryLock ''f'' 2, TryLock ''f'' 3, Unlock ''f'' 2, Unlock ''f'' 3] =
      Some ([], [True, False, True, True, True])"
    by (simp add: try_lock_sentence_def unlock_sentence_def strncpy_raw_def)
  from sentence_locks_in_memory [OF demo_malloc_ok _ this, of Map.empty] show ?thesis by auto
qed

text \<open>The pointer \<open>get_ss_for_new_file\<close> returns is used after the list's mutex is released: when the server
  disconnects in between, \<open>remove_ss\<close> has freed the node it points to.\<close>

theorem chosen_server_can_dangle:
  assumes "owns h p ns F" "map snd ns = nm_ss_list nm" "0 \<le> nm_next_ss_index nm"
    and "get_ss_for_new_file nm = (nm', Some info)" "distinct (map si_socket (nm_ss_list nm))"
  shows "\<exists>cur nx h' p'. get_ss_for_new_file_mem (nm_next_ss_index nm) (h, p) = Some (cur, nm_next_ss_index nm') \<and>
    h cur = Some (info, nx) \<and> remove_ss_mem (si_socket info) (h, p) = Some (h', p') \<and> h' cur = None"
proof -
  obtain cur where cur: "get_ss_for_new_file_mem (nm_next_ss_index nm) (h, p) = Some (cur, nm_next_ss_index nm')"
    "(cur, info) \<in> set ns"
    using get_ss_refines [OF assms(1-4)] by auto
  obtain nx where nx: "h cur = Some (info, nx)" using list_at_mem [OF ownsD(1) [OF assms(1)] cur(2)] by (elim conjE exE)
  let ?Q = "\<lambda>n. si_socket (snd n) = si_socket info"
  obtain h' p' where u: "remove_ss_mem (si_socket info) (h, p) = Some (h', p')" "owns h' p' (remove_first ?Q ns) F"
    using owns_unlink [OF assms(1), of "\<lambda>x. Some (si_socket x = si_socket info)"] by (auto simp: remove_ss_mem_def)
  have dist: "distinct (map fst ns)" by (rule list_at_distinct [OF ownsD(1) [OF assms(1)]])
  have "distinct (map (\<lambda>n. si_socket (snd n)) ns)" using assms(5) by (simp flip: assms(2) add: comp_def)
  then have "cur \<notin> addrs (remove_first ?Q ns)"
    using cur(2) dist
  proof (induction ns)
    case (Cons n ns)
    show ?case
    proof (cases "?Q n")
      case True
      then have "n = (cur, info)" using Cons.prems(1,2) by force
      then show ?thesis using Cons.prems(3) True by auto
    next
      case False
      then have "(cur, info) \<in> set ns" using Cons.prems(2) by auto
      then show ?thesis using Cons False by force
    qed
  qed simp
  then have "h' cur = (h' |` (- addrs (remove_first ?Q ns))) cur" by simp
  also have "\<dots> = (h |` (- addrs ns)) cur" using ownsD(2) [OF u(2)] ownsD(2) [OF assms(1)] by simp
  also have "\<dots> = None" using cur(2) by (force simp: restrict_map_def)
  finally show ?thesis using cur(1) nx u(1) by blast
qed

theorem chosen_server_can_dangle_witness:
  "\<exists>cur nx h' p'. get_ss_for_new_file_mem 0 ([7 \<mapsto> (\<lparr>si_socket = 5, si_ip = ''10.0.0.1'', si_client_port = 91\<rparr>, NULL)], 7) = Some (cur, 1) \<and>
     [7 \<mapsto> (\<lparr>si_socket = 5, si_ip = ''10.0.0.1'', si_client_port = 91\<rparr>, NULL)] cur =
       Some (\<lparr>si_socket = 5, si_ip = ''10.0.0.1'', si_client_port = 91\<rparr>, nx) \<and>
     remove_ss_mem 5 ([7 \<mapsto> (\<lparr>si_socket = 5, si_ip = ''10.0.0.1'', si_client_port = 91\<rparr>, NULL)], 7) = Some (h', p') \<and> h' cur = None"
proof -
  let ?s = "\<lparr>si_socket = 5, si_ip = ''10.0.0.1'', si_client_port = 91\<rparr>"
  let ?nm = "\<lparr>nm_file_table = ht_create, nm_file_trie = trie_create_node, nm_client_list = [], nm_ss_list = [?s],
     nm_all_users = [], nm_next_ss_index = 0, nm_fs = \<lparr>fs_files = Map.empty, fs_writable = (\<lambda>_. True)\<rparr>\<rparr>"
  have own: "owns [7 \<mapsto> (?s, NULL)] 7 [(7, ?s)] Map.empty"
    by (auto simp: owns_def restrict_map_def fun_eq_iff)
  have "get_ss_for_new_file ?nm = (?nm\<lparr>nm_next_ss_index := 1\<rparr>, Some ?s)" by (simp add: get_ss_for_new_file_def)
  from chosen_server_can_dangle [OF own _ _ this] show ?thesis by simp
qed

end
