(* ===== verification/Table_Memory.thy ===== *)
theory Table_Memory
  imports List_Memory
begin

text \<open>
  The file table of the name server in memory (\<^verbatim>\<open>data_structures.c\<close>): 1024 buckets of \<^verbatim>\<open>HTNode\<close>s,
  each with a pointer to metadata, which points to its access list. \<open>ht_get\<close>, \<open>ht_insert\<close> and
  \<open>ht_delete\<close> over pointers refine the operations of \<open>Hash_Table\<close>; \<open>ht_delete\<close> frees the node, the
  metadata and the access list of one file and nothing else, and \<open>ht_free\<close> frees everything once.
\<close>

section \<open>The code\<close>

text \<open>In \<open>tm_meta\<close> the pointer beside the metadata is \<open>access_list_head\<close>; the field \<open>fm_access_list\<close> of
  the metadata itself is not used.\<close>

record TableMem =
  tm_buckets :: "nat \<Rightarrow> addr"
  tm_nodes :: "addr heap"
  tm_meta :: "FileMetadata heap"
  tm_access :: "AccessNode heap"

text \<open>\<open>strcmp(curr->metadata->filename, filename) == 0\<close>.\<close>

definition meta_named :: "TableMem \<Rightarrow> string \<Rightarrow> addr \<Rightarrow> bool option" where
  "meta_named m filename md = map_option (\<lambda>(meta, acl). fm_filename meta = filename) (tm_meta m md)"

definition ht_get_mem :: "string \<Rightarrow> TableMem \<Rightarrow> addr option" where
  "ht_get_mem filename m =
     do { cur \<leftarrow> list_find (meta_named m filename) (tm_nodes m) (tm_buckets m (hash_function filename));
          if cur = NULL then Some NULL else do { (md, nx) \<leftarrow> tm_nodes m cur; Some md } }"

text \<open>Here the result of \<^verbatim>\<open>malloc\<close> is checked.\<close>

definition ht_insert_mem :: "addr \<Rightarrow> addr \<Rightarrow> TableMem \<Rightarrow> (TableMem \<times> bool) option" where
  "ht_insert_mem q md m =
     do { (meta, acl) \<leftarrow> tm_meta m md;
          let index = hash_function (fm_filename meta)
          in if q = NULL then Some (m, False)
             else do { cur \<leftarrow> list_find (meta_named m (fm_filename meta)) (tm_nodes m) (tm_buckets m index);
                       if cur \<noteq> NULL then Some (m, False)
                       else do { nodes \<leftarrow> new_node (tm_nodes m) q md (tm_buckets m index);
                                 Some (m\<lparr>tm_nodes := nodes, tm_buckets := (tm_buckets m)(index := q)\<rparr>, True) } } }"

text \<open>The release of one entry: the access list, the metadata, the node.\<close>

definition free_entry :: "TableMem \<Rightarrow> addr \<Rightarrow> addr \<Rightarrow> addr \<Rightarrow> TableMem option" where
  "free_entry m cur md acl =
     do { access \<leftarrow> free_access_list (tm_access m) acl;
          metas \<leftarrow> free_node (tm_meta m) md;
          nodes \<leftarrow> free_node (tm_nodes m) cur;
          Some (m\<lparr>tm_access := access, tm_meta := metas, tm_nodes := nodes\<rparr>) }"

partial_function (option) ht_delete_loop :: "string \<Rightarrow> nat \<Rightarrow> TableMem \<Rightarrow> addr \<Rightarrow> addr \<Rightarrow> TableMem option" where
  "ht_delete_loop filename index m cur prev =
     (if cur = NULL then Some m
      else do {
        (md, nx) \<leftarrow> tm_nodes m cur;
        (meta, acl) \<leftarrow> tm_meta m md;
        if fm_filename meta = filename
        then do {
          m \<leftarrow> (if prev \<noteq> NULL
                then do { (pmd, _) \<leftarrow> tm_nodes m prev; Some (m\<lparr>tm_nodes := (tm_nodes m)(prev \<mapsto> (pmd, nx))\<rparr>) }
                else Some (m\<lparr>tm_buckets := (tm_buckets m)(index := nx)\<rparr>));
          free_entry m cur md acl }
        else ht_delete_loop filename index m nx cur })"

definition ht_delete_mem :: "string \<Rightarrow> TableMem \<Rightarrow> TableMem option" where
  "ht_delete_mem filename m =
     (let index = hash_function filename in ht_delete_loop filename index m (tm_buckets m index) NULL)"

partial_function (option) ht_free_bucket :: "TableMem \<Rightarrow> addr \<Rightarrow> TableMem option" where
  "ht_free_bucket m cur =
     (if cur = NULL then Some m
      else do { (md, nx) \<leftarrow> tm_nodes m cur; (meta, acl) \<leftarrow> tm_meta m md;
                m \<leftarrow> free_entry m cur md acl; ht_free_bucket m nx })"

fun ht_free_loop :: "nat list \<Rightarrow> TableMem \<Rightarrow> TableMem option" where
  "ht_free_loop [] m = Some m"
| "ht_free_loop (i # js) m = do { m \<leftarrow> ht_free_bucket m (tm_buckets m i); ht_free_loop js m }"

definition ht_free :: "TableMem \<Rightarrow> TableMem option" where
  "ht_free m = ht_free_loop [0..<HT_SIZE] m"

section \<open>A table in memory\<close>

text \<open>An entry of the table: its three addresses' contents.\<close>

datatype Entry = Entry (e_node: addr) (e_meta: addr) (e_file: FileMetadata) (e_access: "(addr \<times> AccessNode) list")

definition entry_at :: "TableMem \<Rightarrow> Entry \<Rightarrow> bool" where
  "entry_at m e \<longleftrightarrow> (\<exists>acl. tm_meta m (e_meta e) = Some (e_file e, acl) \<and> list_at (tm_access m) acl (e_access e))"

definition entry_value :: "Entry \<Rightarrow> FileMetadata" where
  "entry_value e = (e_file e)\<lparr>fm_access_list := map snd (e_access e)\<rparr>"

definition bucket_at :: "TableMem \<Rightarrow> addr \<Rightarrow> Entry list \<Rightarrow> bool" where
  "bucket_at m p es \<longleftrightarrow> list_at (tm_nodes m) p (map (\<lambda>e. (e_node e, e_meta e)) es) \<and> (\<forall>e\<in>set es. entry_at m e)"

text \<open>No two entries share memory.\<close>

definition apart :: "Entry set \<Rightarrow> bool" where
  "apart S \<longleftrightarrow> (\<forall>e\<in>S. \<forall>e'\<in>S. e \<noteq> e' \<longrightarrow> e_node e \<noteq> e_node e' \<and> e_meta e \<noteq> e_meta e' \<and>
     addrs (e_access e) \<inter> addrs (e_access e') = {})"

definition all_entries :: "(nat \<Rightarrow> Entry list) \<Rightarrow> Entry set" where
  "all_entries E = (\<Union>i<HT_SIZE. set (E i))"

definition table_at :: "TableMem \<Rightarrow> (nat \<Rightarrow> Entry list) \<Rightarrow> HashTable \<Rightarrow> bool" where
  "table_at m E table \<longleftrightarrow>
     (\<forall>i<HT_SIZE. bucket_at m (tm_buckets m i) (E i) \<and> map entry_value (E i) = buckets table i) \<and>
     apart (all_entries E) \<and> (\<forall>i<HT_SIZE. \<forall>j<HT_SIZE. i \<noteq> j \<longrightarrow> set (E i) \<inter> set (E j) = {})"

text \<open>The memory without that of an entry.\<close>

definition without :: "TableMem \<Rightarrow> Entry \<Rightarrow> TableMem" where
  "without m e = m\<lparr>tm_access := tm_access m |` (- addrs (e_access e)), tm_meta := (tm_meta m)(e_meta e := None),
     tm_nodes := (tm_nodes m)(e_node e := None)\<rparr>"

lemma apart_subset: "apart S \<Longrightarrow> T \<subseteq> S \<Longrightarrow> apart T"
  by (auto simp: apart_def)

lemma bucket_distinct: "bucket_at m p es \<Longrightarrow> distinct (map e_node es)"
  using list_at_distinct [of "tm_nodes m" p "map (\<lambda>e. (e_node e, e_meta e)) es"] by (simp add: bucket_at_def comp_def)

lemma entry_at_meta: "entry_at m e \<Longrightarrow> \<exists>acl. tm_meta m (e_meta e) = Some (e_file e, acl)"
  by (auto simp: entry_at_def)

lemma entry_file_value [simp]: "fm_filename (entry_value e) = fm_filename (e_file e)"
  by (simp add: entry_value_def)

lemma free_entry_ok:
  assumes "tm_meta m (e_meta e) = Some (e_file e, acl)" "list_at (tm_access m) acl (e_access e)"
    and "tm_nodes m (e_node e) \<noteq> None"
  shows "free_entry m (e_node e) (e_meta e) acl = Some (without m e)"
proof -
  have "owns (tm_access m) acl (e_access e) (tm_access m |` (- addrs (e_access e)))" using assms(2) by (simp add: owns_def)
  then have "free_access_list (tm_access m) acl = Some (tm_access m |` (- addrs (e_access e)))"
    unfolding free_access_list_def by (rule list_free_at)
  then show ?thesis using assms(1,3) by (auto simp: free_entry_def free_node_def without_def)
qed

text \<open>The other entries stay.\<close>

lemma entry_at_without:
  assumes "entry_at m e'" "e' \<noteq> e" "apart {e, e'}"
  shows "entry_at (without m e) e'"
proof -
  obtain acl where acl: "tm_meta m (e_meta e') = Some (e_file e', acl)" "list_at (tm_access m) acl (e_access e')"
    using assms(1) by (auto simp: entry_at_def)
  have "addrs (e_access e') \<inter> addrs (e_access e) = {}" "e_meta e' \<noteq> e_meta e" using assms(2,3) by (auto simp: apart_def)
  moreover from this have "list_at (tm_access (without m e)) acl (e_access e')"
    by (intro list_at_frame [OF acl(2)]) (auto simp: without_def restrict_map_def)
  ultimately show ?thesis using acl(1) by (simp add: entry_at_def without_def)
qed

lemma bucket_at_without:
  assumes "bucket_at m p es" "e \<notin> set es" "apart (insert e (set es))"
  shows "bucket_at (without m e) p es"
proof -
  have "entry_at (without m e) e'" if "e' \<in> set es" for e'
  proof (rule entry_at_without)
    show "entry_at m e'" using that assms(1) by (simp add: bucket_at_def)
    show "e' \<noteq> e" using that assms(2) by auto
    show "apart {e, e'}" using that by (intro apart_subset [OF assms(3)]) simp
  qed
  moreover have "e_node e' \<noteq> e_node e" if "e' \<in> set es" for e' using that assms(2,3) by (auto simp: apart_def)
  note other = this
  have nodes: "list_at (tm_nodes m) p (map (\<lambda>e. (e_node e, e_meta e)) es)" using assms(1) by (simp add: bucket_at_def)
  have "list_at (tm_nodes (without m e)) p (map (\<lambda>e. (e_node e, e_meta e)) es)"
    by (rule list_at_frame [OF nodes]) (use other in \<open>force simp: without_def\<close>)
  ultimately show ?thesis by (simp add: bucket_at_def)
qed

lemma ht_free_bucket_at:
  "bucket_at m p es \<Longrightarrow> apart (set es) \<Longrightarrow> ht_free_bucket m p = Some (foldl without m es)"
proof (induction es arbitrary: p m)
  case Nil
  then show ?case by (subst ht_free_bucket.simps) (simp add: bucket_at_def)
next
  case (Cons e es)
  obtain nx where nx: "p = e_node e" "p \<noteq> NULL" "tm_nodes m p = Some (e_meta e, nx)"
    "list_at (tm_nodes m) nx (map (\<lambda>e. (e_node e, e_meta e)) es)"
    using Cons.prems(1) by (auto simp: bucket_at_def)
  obtain acl where acl: "tm_meta m (e_meta e) = Some (e_file e, acl)" "list_at (tm_access m) acl (e_access e)"
    using Cons.prems(1) by (auto simp: bucket_at_def entry_at_def)
  have "distinct (map e_node (e # es))" by (rule bucket_distinct [OF Cons.prems(1)])
  then have e: "e \<notin> set es" by auto
  have "bucket_at m nx es" using Cons.prems(1) nx(4) by (simp add: bucket_at_def)
  then have "bucket_at (without m e) nx es" using e Cons.prems(2) by (intro bucket_at_without) simp_all
  then have "ht_free_bucket (without m e) nx = Some (foldl without (without m e) es)"
    using Cons.prems(2) by (intro Cons.IH) (auto intro: apart_subset)
  moreover have "free_entry m p (e_meta e) acl = Some (without m e)"
    using free_entry_ok [OF acl] nx(1,3) by simp
  ultimately show ?case using nx acl by (subst ht_free_bucket.simps) simp
qed

lemma bucket_at_foldl_without:
  "bucket_at m p es' \<Longrightarrow> set es' \<inter> set es = {} \<Longrightarrow> apart (set es \<union> set es') \<Longrightarrow> bucket_at (foldl without m es) p es'"
proof (induction es arbitrary: m)
  case (Cons e es)
  have "bucket_at (without m e) p es'"
    using Cons.prems by (intro bucket_at_without) (auto intro: apart_subset)
  then show ?case using Cons.IH [of "without m e"] Cons.prems(2,3) by (auto intro: apart_subset)
qed simp

lemma foldl_without:
  "tm_buckets (foldl without m es) = tm_buckets m"
  "tm_nodes (foldl without m es) = tm_nodes m |` (- e_node ` set es)"
  "tm_meta (foldl without m es) = tm_meta m |` (- e_meta ` set es)"
  "tm_access (foldl without m es) = tm_access m |` (- (\<Union>e\<in>set es. addrs (e_access e)))"
  by (induction es arbitrary: m) (auto simp: without_def restrict_map_def)

lemma ht_free_loop_at:
  "distinct js \<Longrightarrow> (\<And>i. i \<in> set js \<Longrightarrow> bucket_at m (tm_buckets m i) (E i)) \<Longrightarrow> apart (\<Union>i\<in>set js. set (E i)) \<Longrightarrow>
     (\<And>i j. i \<in> set js \<Longrightarrow> j \<in> set js \<Longrightarrow> i \<noteq> j \<Longrightarrow> set (E i) \<inter> set (E j) = {}) \<Longrightarrow>
     ht_free_loop js m = Some (foldl without m (concat (map E js)))"
proof (induction js arbitrary: m)
  case (Cons i js)
  let ?m = "foldl without m (E i)"
  have free: "ht_free_bucket m (tm_buckets m i) = Some ?m"
    using Cons.prems(2,3) by (intro ht_free_bucket_at) (auto intro: apart_subset)
  have "bucket_at ?m (tm_buckets ?m j) (E j)" if j: "j \<in> set js" for j
    unfolding foldl_without(1)
  proof (rule bucket_at_foldl_without)
    show "bucket_at m (tm_buckets m j) (E j)" using Cons.prems(2) j by simp
    show "set (E j) \<inter> set (E i) = {}" using Cons.prems(1) j by (intro Cons.prems(4)) auto
    show "apart (set (E i) \<union> set (E j))" using j by (intro apart_subset [OF Cons.prems(3)]) auto
  qed
  moreover have "apart (\<Union>i\<in>set js. set (E i))" by (rule apart_subset [OF Cons.prems(3)]) auto
  ultimately have "ht_free_loop js ?m = Some (foldl without ?m (concat (map E js)))"
    using Cons.prems(1,4) by (intro Cons.IH) auto
  then show ?case using free by simp
qed simp

lemma ht_free_at:
  assumes "table_at m E table"
  shows "\<exists>m'. ht_free m = Some m' \<and> tm_nodes m' = tm_nodes m |` (- e_node ` all_entries E) \<and>
    tm_meta m' = tm_meta m |` (- e_meta ` all_entries E) \<and>
    tm_access m' = tm_access m |` (- (\<Union>e\<in>all_entries E. addrs (e_access e)))"
proof -
  let ?es = "concat (map E [0..<HT_SIZE])"
  have all: "set ?es = all_entries E" by (auto simp: all_entries_def)
  have "ht_free m = Some (foldl without m ?es)"
    unfolding ht_free_def using assms
    by (intro ht_free_loop_at) (auto simp: table_at_def all_entries_def lessThan_atLeast0)
  then show ?thesis using foldl_without(2-4) [of m ?es] unfolding all by blast
qed

section \<open>Lookup\<close>

lemma meta_named_at: "entry_at m e \<Longrightarrow> meta_named m f (e_meta e) = Some (fm_filename (e_file e) = f)"
  using entry_at_meta by (fastforce simp: meta_named_def)

text \<open>The search in one bucket, as a search for an entry.\<close>

lemma bucket_find:
  assumes "bucket_at m p es"
  shows "list_find (meta_named m f) (tm_nodes m) p =
    Some (case List.find (\<lambda>e. fm_filename (e_file e) = f) es of None \<Rightarrow> NULL | Some e \<Rightarrow> e_node e)"
proof -
  let ?ns = "map (\<lambda>e. (e_node e, e_meta e)) es"
  have named: "meta_named m f (e_meta e) = Some (fm_filename (e_file e) = f)" if "e \<in> set es" for e
    using assms that meta_named_at by (simp add: bucket_at_def)
  have "(case List.find (\<lambda>n. meta_named m f (snd n) = Some True) ?ns of None \<Rightarrow> NULL | Some n \<Rightarrow> fst n) =
      (case List.find (\<lambda>e. fm_filename (e_file e) = f) es of None \<Rightarrow> NULL | Some e \<Rightarrow> e_node e)"
    using named by (induction es) auto
  moreover have "list_find (meta_named m f) (tm_nodes m) p =
      Some (case List.find (\<lambda>n. meta_named m f (snd n) = Some True) ?ns of None \<Rightarrow> NULL | Some n \<Rightarrow> fst n)"
    using assms named by (intro list_find_at) (auto simp: bucket_at_def)
  ultimately show ?thesis by simp
qed

lemma find_entry_value:
  "List.find (\<lambda>m. fm_filename m = f) (map entry_value es) = map_option entry_value (List.find (\<lambda>e. fm_filename (e_file e) = f) es)"
  by (induction es) auto

lemma bucket_of [simp]: "hash_function f < HT_SIZE" by (rule hash_function_bound)

lemma table_at_bucket:
  "table_at m E table \<Longrightarrow> i < HT_SIZE \<Longrightarrow> bucket_at m (tm_buckets m i) (E i) \<and> map entry_value (E i) = buckets table i"
  by (simp add: table_at_def)

lemma bucket_entry:
  assumes "bucket_at m p es" "e \<in> set es"
  shows "e_node e \<noteq> NULL \<and> entry_at m e \<and> (\<exists>nx. tm_nodes m (e_node e) = Some (e_meta e, nx))"
  using list_at_mem [of "tm_nodes m" p "map (\<lambda>e. (e_node e, e_meta e)) es" "e_node e" "e_meta e"] assms
  by (auto simp: bucket_at_def)

lemma ht_get_mem_at:
  assumes "table_at m E table"
  shows "case ht_get table f of
      None \<Rightarrow> ht_get_mem f m = Some NULL
    | Some v \<Rightarrow> \<exists>e\<in>all_entries E. ht_get_mem f m = Some (e_meta e) \<and> entry_at m e \<and> entry_value e = v"
proof -
  let ?i = "hash_function f"
  have b: "bucket_at m (tm_buckets m ?i) (E ?i)" "map entry_value (E ?i) = buckets table ?i"
    using table_at_bucket [OF assms, of ?i] by simp_all
  show ?thesis
  proof (cases "List.find (\<lambda>e. fm_filename (e_file e) = f) (E ?i)")
    case None
    then show ?thesis using bucket_find [OF b(1), of f] find_entry_value [of f "E ?i"] b(2)
      by (simp add: ht_get_def ht_get_mem_def)
  next
    case (Some e)
    then have e: "e \<in> set (E ?i)" using find_mem [of _ "E ?i" e] by blast
    then have "e \<in> all_entries E" by (auto simp: all_entries_def)
    moreover have "ht_get_mem f m = Some (e_meta e)"
      using bucket_find [OF b(1), of f] Some bucket_entry [OF b(1) e] by (auto simp: ht_get_mem_def)
    ultimately show ?thesis using find_entry_value [of f "E ?i"] b(2) Some bucket_entry [OF b(1) e]
      by (auto simp: ht_get_def)
  qed
qed

section \<open>Deletion\<close>

text \<open>The loop of \<open>ht_delete\<close> unlinks like every other list and then frees what belongs to the entry.\<close>

lemma ht_delete_loop_unlink:
  assumes "list_at (tm_nodes m) cur ns" "\<forall>n\<in>set ns. tm_meta m (snd n) \<noteq> None"
  shows "ht_delete_loop f i m cur prev =
    (case List.find (\<lambda>n. meta_named m f (snd n) = Some True) ns of
       None \<Rightarrow> Some m
     | Some (q, md) \<Rightarrow>
         do { (nodes, head) \<leftarrow> list_unlink (meta_named m f) (tm_nodes m) (tm_buckets m i) cur prev;
              (meta, acl) \<leftarrow> tm_meta m md;
              access \<leftarrow> free_access_list (tm_access m) acl;
              metas \<leftarrow> free_node (tm_meta m) md;
              Some (m\<lparr>tm_access := access, tm_meta := metas, tm_nodes := nodes, tm_buckets := (tm_buckets m)(i := head)\<rparr>) })"
  using assms
proof (induction ns arbitrary: cur prev)
  case Nil
  then show ?case by (subst ht_delete_loop.simps) simp
next
  case (Cons n ns)
  obtain q md where n: "n = (q, md)" by (cases n)
  then obtain nx where nx: "cur = q" "q \<noteq> NULL" "tm_nodes m q = Some (md, nx)" "list_at (tm_nodes m) nx ns"
    using Cons.prems(1) by auto
  obtain meta acl where meta: "tm_meta m md = Some (meta, acl)" using Cons.prems(2) n by auto
  show ?case
  proof (cases "fm_filename meta = f")
    case False
    then have del: "ht_delete_loop f i m cur prev = ht_delete_loop f i m nx q"
      using nx meta by (subst ht_delete_loop.simps) simp
    have unl: "list_unlink (meta_named m f) (tm_nodes m) (tm_buckets m i) cur prev =
        list_unlink (meta_named m f) (tm_nodes m) (tm_buckets m i) nx q"
      using nx meta False by (subst list_unlink.simps) (simp add: meta_named_def)
    have "meta_named m f (snd n) \<noteq> Some True" using n meta False by (simp add: meta_named_def)
    then have find: "List.find (\<lambda>n. meta_named m f (snd n) = Some True) (n # ns) =
        List.find (\<lambda>n. meta_named m f (snd n) = Some True) ns" by simp
    have "\<forall>n\<in>set ns. tm_meta m (snd n) \<noteq> None" using Cons.prems(2) by simp
    from Cons.IH [OF nx(4) this, of q] show ?thesis unfolding del unl find .
  next
    case True
    then have del: "ht_delete_loop f i m cur prev =
        (if prev \<noteq> NULL
         then do { (pmd, _) \<leftarrow> tm_nodes m prev;
                   free_entry (m\<lparr>tm_nodes := (tm_nodes m)(prev \<mapsto> (pmd, nx))\<rparr>) q md acl }
         else free_entry (m\<lparr>tm_buckets := (tm_buckets m)(i := nx)\<rparr>) q md acl)"
      using nx meta by (subst ht_delete_loop.simps) (auto simp: bind_assoc split: Option.bind_splits)
    have unl: "list_unlink (meta_named m f) (tm_nodes m) (tm_buckets m i) cur prev =
        (if prev \<noteq> NULL
         then do { (y, _) \<leftarrow> tm_nodes m prev; h \<leftarrow> free_node ((tm_nodes m)(prev \<mapsto> (y, nx))) q; Some (h, tm_buckets m i) }
         else do { h \<leftarrow> free_node (tm_nodes m) q; Some (h, nx) })"
      using nx meta True by (subst list_unlink.simps) (simp add: meta_named_def)
    show ?thesis unfolding del unl using n meta True
      by (auto simp: meta_named_def free_entry_def split: Option.bind_splits)
  qed
qed

lemma entry_at_cong:
  "tm_meta m' = tm_meta m \<Longrightarrow> tm_access m' = tm_access m \<Longrightarrow> entry_at m' e = entry_at m e"
  by (simp add: entry_at_def)

lemma find_bucket_unlink:
  assumes "\<forall>e\<in>set es. entry_at m e"
  shows "List.find (\<lambda>n. meta_named m f (snd n) = Some True) (map (\<lambda>e. (e_node e, e_meta e)) es) =
      map_option (\<lambda>e. (e_node e, e_meta e)) (List.find (\<lambda>e. fm_filename (e_file e) = f) es)"
    "remove_first (\<lambda>n. meta_named m f (snd n) = Some True) (map (\<lambda>e. (e_node e, e_meta e)) es) =
      map (\<lambda>e. (e_node e, e_meta e)) (remove_first (\<lambda>e. fm_filename (e_file e) = f) es)"
  using assms by (induction es) (auto simp: meta_named_at)

text \<open>What a delete does to the bucket of the name: nothing when it is not there, else it takes the
  entry out and frees its memory.\<close>

lemma ht_delete_bucket:
  assumes "bucket_at m (tm_buckets m i) es" "apart (set es)" "i = hash_function f"
  shows "case List.find (\<lambda>e. fm_filename (e_file e) = f) es of
      None \<Rightarrow> ht_delete_mem f m = Some m
    | Some e \<Rightarrow> \<exists>nodes head. ht_delete_mem f m =
          Some (m\<lparr>tm_access := tm_access m |` (- addrs (e_access e)), tm_meta := (tm_meta m)(e_meta e := None),
                  tm_nodes := nodes, tm_buckets := (tm_buckets m)(i := head)\<rparr>) \<and>
        owns nodes head (map (\<lambda>e. (e_node e, e_meta e)) (remove_first (\<lambda>e. fm_filename (e_file e) = f) es))
          (tm_nodes m |` (- e_node ` set es))"
proof -
  let ?ns = "map (\<lambda>e. (e_node e, e_meta e)) es"
  have at: "list_at (tm_nodes m) (tm_buckets m i) ?ns" and ent: "\<forall>e\<in>set es. entry_at m e"
    using assms(1) by (simp_all add: bucket_at_def)
  have total: "\<forall>n\<in>set ?ns. tm_meta m (snd n) \<noteq> None" using ent entry_at_meta by fastforce
  then have named: "\<forall>n\<in>set ?ns. meta_named m f (snd n) \<noteq> None" by (simp add: meta_named_def)
  have del: "ht_delete_mem f m = ht_delete_loop f i m (tm_buckets m i) NULL"
    using assms(3) by (simp add: ht_delete_mem_def Let_def)
  show ?thesis
  proof (cases "List.find (\<lambda>e. fm_filename (e_file e) = f) es")
    case None
    then show ?thesis
      unfolding del ht_delete_loop_unlink [OF at total] find_bucket_unlink(1) [OF ent] by simp
  next
    case (Some e)
    then have e: "e \<in> set es" using find_mem [of _ es e] by blast
    obtain acl where acl: "tm_meta m (e_meta e) = Some (e_file e, acl)" "list_at (tm_access m) acl (e_access e)"
      using ent e by (auto simp: entry_at_def)
    have "owns (tm_access m) acl (e_access e) (tm_access m |` (- addrs (e_access e)))" using acl(2) by (simp add: owns_def)
    then have free: "free_access_list (tm_access m) acl = Some (tm_access m |` (- addrs (e_access e)))"
      unfolding free_access_list_def by (rule list_free_at)
    have addrs: "addrs ?ns = e_node ` set es" by (simp add: image_image)
    have "owns (tm_nodes m) (tm_buckets m i) ?ns (tm_nodes m |` (- e_node ` set es))"
      using at unfolding owns_def addrs by simp
    from owns_unlink [OF this named] obtain nodes head where u:
      "list_unlink (meta_named m f) (tm_nodes m) (tm_buckets m i) (tm_buckets m i) NULL = Some (nodes, head)"
      "owns nodes head (map (\<lambda>e. (e_node e, e_meta e)) (remove_first (\<lambda>e. fm_filename (e_file e) = f) es))
         (tm_nodes m |` (- e_node ` set es))"
      unfolding find_bucket_unlink(2) [OF ent] by (elim exE conjE)
    have "ht_delete_mem f m = Some (m\<lparr>tm_access := tm_access m |` (- addrs (e_access e)),
        tm_meta := (tm_meta m)(e_meta e := None), tm_nodes := nodes, tm_buckets := (tm_buckets m)(i := head)\<rparr>)"
      unfolding del ht_delete_loop_unlink [OF at total] find_bucket_unlink(1) [OF ent] Some
      by (simp add: u(1) acl(1) free free_node_def)
    then show ?thesis using Some u(2) by auto
  qed
qed

definition drop_entry :: "string \<Rightarrow> (nat \<Rightarrow> Entry list) \<Rightarrow> nat \<Rightarrow> Entry list" where
  "drop_entry f E = E(hash_function f := remove_first (\<lambda>e. fm_filename (e_file e) = f) (E (hash_function f)))"

lemma drop_entry_subset: "set (drop_entry f E i) \<subseteq> set (E i)"
  using set_remove_first_subset by (auto simp: drop_entry_def)

lemma map_entry_value_remove:
  "map entry_value (remove_first (\<lambda>e. fm_filename (e_file e) = f) es) = remove_first (\<lambda>m. fm_filename m = f) (map entry_value es)"
  by (induction es) auto

lemma find_None_remove: "List.find P xs = None \<Longrightarrow> remove_first P xs = xs"
  by (induction xs) (auto split: if_splits)

lemma set_remove_first_found:
  "List.find P xs = Some x \<Longrightarrow> distinct xs \<Longrightarrow> set (remove_first P xs) = set xs - {x}"
proof (induction xs)
  case (Cons a xs)
  show ?case
  proof (cases "P a")
    case False
    then have "x \<in> set xs" using Cons.prems(1) find_mem [of P xs x] by simp
    then have "a \<noteq> x" using Cons.prems(2) by auto
    then show ?thesis using False Cons by auto
  qed (use Cons.prems in auto)
qed simp

text \<open>The nodes outside a bucket are as they were; inside, the entry's node is gone.\<close>

lemma owns_nodes:
  assumes "owns nodes head ns F" "F = old |` (- A)" "addrs ns \<subseteq> A"
  shows "a \<notin> A \<Longrightarrow> nodes a = old a" "a \<in> A \<Longrightarrow> nodes a \<noteq> None \<longleftrightarrow> a \<in> addrs ns"
proof -
  have eq: "(nodes |` (- addrs ns)) a = (old |` (- A)) a" using assms(1,2) by (simp add: owns_def)
  show "nodes a = old a" if "a \<notin> A"
  proof -
    have "a \<notin> addrs ns" using that assms(3) by blast
    then show ?thesis using eq that by (simp add: restrict_map_def)
  qed
  show "a \<in> A \<Longrightarrow> nodes a \<noteq> None \<longleftrightarrow> a \<in> addrs ns"
    using eq addrs_allocated [OF ownsD(1) [OF assms(1)], of a] by (auto simp: restrict_map_def split: if_splits)
qed

lemma bucket_nodes_kept:
  assumes "bucket_at m p es" "apart (set es \<union> set es')" "set es \<inter> set es' = {}"
    and "\<And>a. a \<notin> e_node ` set es' \<Longrightarrow> nodes a = tm_nodes m a"
  shows "list_at nodes p (map (\<lambda>e. (e_node e, e_meta e)) es)"
proof (rule list_at_frame)
  show "list_at (tm_nodes m) p (map (\<lambda>e. (e_node e, e_meta e)) es)" using assms(1) by (simp add: bucket_at_def)
  fix a assume "a \<in> addrs (map (\<lambda>e. (e_node e, e_meta e)) es)"
  then obtain e where e: "e \<in> set es" "a = e_node e" by auto
  have "e_node e \<noteq> e_node e'" if "e' \<in> set es'" for e'
  proof -
    have "e \<noteq> e'" using that e(1) assms(3) by auto
    then show ?thesis using that e(1) assms(2) unfolding apart_def by blast
  qed
  then show "nodes a = tm_nodes m a" using e(2) by (intro assms(4)) auto
qed

lemma ht_delete_mem_at:
  assumes "table_at m E table"
  shows "\<exists>m'. ht_delete_mem f m = Some m' \<and> table_at m' (drop_entry f E) (ht_delete table f) \<and>
    (case List.find (\<lambda>e. fm_filename (e_file e) = f) (E (hash_function f)) of
       None \<Rightarrow> m' = m
     | Some e \<Rightarrow> dom (tm_nodes m') = dom (tm_nodes m) - {e_node e} \<and> tm_meta m' = (tm_meta m)(e_meta e := None) \<and>
         tm_access m' = tm_access m |` (- addrs (e_access e)))"
proof -
  let ?i = "hash_function f" and ?P = "\<lambda>e. fm_filename (e_file e) = f"
  have b: "bucket_at m (tm_buckets m ?i) (E ?i)" "map entry_value (E ?i) = buckets table ?i"
    using table_at_bucket [OF assms, of ?i] by simp_all
  have apart: "apart (all_entries E)"
    and sep: "\<And>j k. j < HT_SIZE \<Longrightarrow> k < HT_SIZE \<Longrightarrow> j \<noteq> k \<Longrightarrow> set (E j) \<inter> set (E k) = {}"
    using assms by (auto simp: table_at_def)
  have mem: "set (E j) \<subseteq> all_entries E" if "j < HT_SIZE" for j using that by (auto simp: all_entries_def)
  have ap: "apart (set (E ?i))" by (rule apart_subset [OF apart mem]) simp
  have drop: "all_entries (drop_entry f E) \<subseteq> all_entries E"
    using drop_entry_subset [of f E] unfolding all_entries_def by blast
  have vals: "map entry_value (drop_entry f E j) = buckets (ht_delete table f) j" if "j < HT_SIZE" for j
    using assms that by (auto simp: drop_entry_def ht_delete_def Let_def map_entry_value_remove table_at_def)
  show ?thesis
  proof (cases "List.find ?P (E ?i)")
    case None
    then have "drop_entry f E = E" by (auto simp: drop_entry_def find_None_remove)
    then show ?thesis using ht_delete_bucket [OF b(1) ap refl] None vals assms by (simp add: table_at_def)
  next
    case (Some e)
    then have e: "e \<in> set (E ?i)" using find_mem [of _ "E ?i" e] by blast
    obtain nodes head where d: "ht_delete_mem f m =
        Some (m\<lparr>tm_access := tm_access m |` (- addrs (e_access e)), tm_meta := (tm_meta m)(e_meta e := None),
                tm_nodes := nodes, tm_buckets := (tm_buckets m)(?i := head)\<rparr>)"
      "owns nodes head (map (\<lambda>e. (e_node e, e_meta e)) (remove_first ?P (E ?i))) (tm_nodes m |` (- e_node ` set (E ?i)))"
      using ht_delete_bucket [OF b(1) ap refl] Some by auto
    let ?m' = "m\<lparr>tm_access := tm_access m |` (- addrs (e_access e)), tm_meta := (tm_meta m)(e_meta e := None),
                tm_nodes := nodes, tm_buckets := (tm_buckets m)(?i := head)\<rparr>"
    let ?ns = "map (\<lambda>e. (e_node e, e_meta e)) (remove_first ?P (E ?i))" and ?A = "e_node ` set (E ?i)"
    have dist: "distinct (map e_node (E ?i))" by (rule bucket_distinct [OF b(1)])
    then have rest: "set (remove_first ?P (E ?i)) = set (E ?i) - {e}"
      using set_remove_first_found [OF Some] by (simp add: distinct_map)
    have addrs: "addrs ?ns = e_node ` (set (E ?i) - {e})" unfolding rest [symmetric] by (simp add: image_image)
    then have sub: "addrs ?ns \<subseteq> ?A" by auto
    note nodes = owns_nodes [OF d(2) refl sub]
    have keep: "entry_at ?m' e'" if e': "e' \<in> all_entries E" "e' \<noteq> e" for e'
    proof -
      have "entry_at m e'" using e'(1) assms by (auto simp: all_entries_def table_at_def bucket_at_def)
      then have "entry_at (without m e) e'"
        using e' mem [of ?i] e by (intro entry_at_without apart_subset [OF apart]) auto
      then show ?thesis by (subst entry_at_cong [of _ "without m e"]) (simp_all add: without_def)
    qed
    have bucket: "bucket_at ?m' (tm_buckets ?m' j) (drop_entry f E j)" if j: "j < HT_SIZE" for j
    proof (cases "j = ?i")
      case True
      have "entry_at ?m' e'" if "e' \<in> set (remove_first ?P (E ?i))" for e'
        using that rest mem [of ?i] by (intro keep) auto
      then show ?thesis using True ownsD(1) [OF d(2)] by (simp add: bucket_at_def drop_entry_def)
    next
      case False
      then have disj: "set (E j) \<inter> set (E ?i) = {}" using sep [of j ?i] j by simp
      have ent: "\<forall>e'\<in>set (E j). entry_at ?m' e'"
      proof
        fix e' assume "e' \<in> set (E j)"
        then show "entry_at ?m' e'" using mem [OF j] disj e by (intro keep) auto
      qed
      have "apart (set (E j) \<union> set (E ?i))" using mem [OF j] mem [of ?i] by (intro apart_subset [OF apart]) simp
      then have "list_at nodes (tm_buckets m j) (map (\<lambda>e. (e_node e, e_meta e)) (E j))"
        using table_at_bucket [OF assms j] disj nodes(1) by (intro bucket_nodes_kept) auto
      then show ?thesis using False ent by (simp add: bucket_at_def drop_entry_def)
    qed
    have sep': "set (drop_entry f E j) \<inter> set (drop_entry f E k) = {}" if "j < HT_SIZE" "k < HT_SIZE" "j \<noteq> k" for j k
      using sep [OF that] drop_entry_subset [of f E j] drop_entry_subset [of f E k] by blast
    have "table_at ?m' (drop_entry f E) (ht_delete table f)"
      using bucket vals apart_subset [OF apart drop] sep' unfolding table_at_def by blast
    moreover have "a \<in> dom nodes \<longleftrightarrow> a \<in> dom (tm_nodes m) - {e_node e}" for a
    proof (cases "a \<in> ?A")
      case True
      obtain x where "x \<in> set (E ?i)" "a = e_node x" using True by auto
      then have "tm_nodes m a \<noteq> None" using bucket_entry [OF b(1), of x] by auto
      moreover have "a \<in> addrs ?ns \<longleftrightarrow> a \<noteq> e_node e"
        using True dist e unfolding addrs by (auto simp: distinct_map inj_on_def)
      ultimately show ?thesis using nodes(2) [OF True] by auto
    next
      case False
      then have "a \<noteq> e_node e" using e by blast
      then show ?thesis using nodes(1) [OF False] unfolding dom_def by simp
    qed
    then have "dom nodes = dom (tm_nodes m) - {e_node e}" by blast
    ultimately show ?thesis using d(1) Some by auto
  qed
qed

text \<open>A lookup in memory, as a search for an entry.\<close>

lemma ht_get_mem_entry:
  assumes "table_at m E table"
  shows "ht_get_mem g m = Some (case List.find (\<lambda>e. fm_filename (e_file e) = g) (E (hash_function g)) of
    None \<Rightarrow> NULL | Some e \<Rightarrow> e_meta e)"
proof -
  have b: "bucket_at m (tm_buckets m (hash_function g)) (E (hash_function g))"
    using table_at_bucket [OF assms, of "hash_function g"] by simp
  show ?thesis
  proof (cases "List.find (\<lambda>e. fm_filename (e_file e) = g) (E (hash_function g))")
    case (Some e)
    then have "e \<in> set (E (hash_function g))" using find_mem by fastforce
    then show ?thesis using bucket_find [OF b, of g] bucket_entry [OF b] Some by (fastforce simp: ht_get_mem_def)
  qed (use bucket_find [OF b, of g] in \<open>simp add: ht_get_mem_def\<close>)
qed

lemma delete_one_file:
  assumes "table_at m E table" "ht_get table f = Some v"
  shows "\<exists>m' e. ht_get_mem f m = Some (e_meta e) \<and> entry_at m e \<and> entry_value e = v \<and>
    ht_delete_mem f m = Some m' \<and> table_at m' (drop_entry f E) (ht_delete table f) \<and>
    dom (tm_nodes m') = dom (tm_nodes m) - {e_node e} \<and> tm_meta m' = (tm_meta m)(e_meta e := None) \<and>
    tm_access m' = tm_access m |` (- addrs (e_access e)) \<and>
    (\<forall>g. g \<noteq> f \<longrightarrow> ht_get_mem g m' = ht_get_mem g m)"
proof -
  let ?i = "hash_function f" and ?P = "\<lambda>e. fm_filename (e_file e) = f"
  have "map entry_value (E ?i) = buckets table ?i" using table_at_bucket [OF assms(1), of ?i] by simp
  then have "map_option entry_value (List.find ?P (E ?i)) = Some v"
    using assms(2) find_entry_value [of f "E ?i"] by (simp add: ht_get_def)
  then obtain e where e: "List.find ?P (E ?i) = Some e" "entry_value e = v" by auto
  obtain m' where m': "ht_delete_mem f m = Some m'" "table_at m' (drop_entry f E) (ht_delete table f)"
    "dom (tm_nodes m') = dom (tm_nodes m) - {e_node e}" "tm_meta m' = (tm_meta m)(e_meta e := None)"
    "tm_access m' = tm_access m |` (- addrs (e_access e))"
    using ht_delete_mem_at [OF assms(1), of f] e(1) by auto
  have "ht_get_mem g m' = ht_get_mem g m" if g: "g \<noteq> f" for g
    using find_remove_first_other [OF g, of "\<lambda>e. fm_filename (e_file e)" "E ?i"]
    unfolding ht_get_mem_entry [OF m'(2)] ht_get_mem_entry [OF assms(1)] by (simp add: drop_entry_def)
  moreover have "ht_get_mem f m = Some (e_meta e)" using ht_get_mem_entry [OF assms(1), of f] e(1) by simp
  moreover have "entry_at m e"
    using find_mem [OF e(1)] table_at_bucket [OF assms(1), of ?i] by (simp add: bucket_at_def)
  ultimately show ?thesis using e(2) m' by blast
qed

section \<open>Insertion\<close>

lemma ht_insert_mem_at:
  assumes "table_at m E table" "fresh (tm_nodes m) q" "entry_at m e" "e_node e = q"
    and "apart (insert e (all_entries E))"
  defines "i \<equiv> hash_function (fm_filename (e_file e))"
  shows "if ht_get table (fm_filename (e_file e)) = None
    then \<exists>m'. ht_insert_mem q (e_meta e) m = Some (m', True) \<and>
      table_at m' (E(i := e # E i)) (fst (ht_insert table (entry_value e)))
    else ht_insert_mem q (e_meta e) m = Some (m, False)"
proof -
  let ?f = "fm_filename (e_file e)" and ?P = "\<lambda>e'. fm_filename (e_file e') = fm_filename (e_file e)"
  have i: "i < HT_SIZE" by (simp add: i_def)
  note b = table_at_bucket [OF assms(1) i]
  have q: "q \<noteq> NULL" "tm_nodes m q = None" using assms(2) by (simp_all add: fresh_def)
  obtain acl where acl: "tm_meta m (e_meta e) = Some (e_file e, acl)" using assms(3) entry_at_meta by blast
  have find: "list_find (meta_named m ?f) (tm_nodes m) (tm_buckets m i) =
      Some (case List.find ?P (E i) of None \<Rightarrow> NULL | Some e \<Rightarrow> e_node e)"
    using bucket_find b by blast
  have get: "ht_get table ?f = map_option entry_value (List.find ?P (E i))"
    using find_entry_value [of ?f "E i"] b by (simp add: ht_get_def i_def)
  show ?thesis
  proof (cases "List.find ?P (E i)")
    case (Some e')
    then have "e' \<in> set (E i)" using find_mem by fastforce
    then have "e_node e' \<noteq> NULL" using bucket_entry b by blast
    then show ?thesis using Some get find acl q(1) by (simp add: ht_insert_mem_def i_def [symmetric] Let_def)
  next
    case None
    let ?nodes = "(tm_nodes m)(q \<mapsto> (e_meta e, tm_buckets m i))"
    let ?m' = "m\<lparr>tm_nodes := ?nodes, tm_buckets := (tm_buckets m)(i := q)\<rparr>"
    have ins: "ht_insert_mem q (e_meta e) m = Some (?m', True)"
      using None find acl q by (simp add: ht_insert_mem_def i_def [symmetric] Let_def new_node_def)
    have not: "e_node e' \<noteq> q" if "j < HT_SIZE" "e' \<in> set (E j)" for e' j
      using bucket_entry [of m "tm_buckets m j" "E j" e'] table_at_bucket [OF assms(1) that(1)] that(2) q(2) by auto
    have kept: "bucket_at ?m' (tm_buckets m j) (E j)" if j: "j < HT_SIZE" for j
    proof -
      note bj = table_at_bucket [OF assms(1) j]
      have at: "list_at (tm_nodes m) (tm_buckets m j) (map (\<lambda>e. (e_node e, e_meta e)) (E j))" using bj by (simp add: bucket_at_def)
      have "list_at ?nodes (tm_buckets m j) (map (\<lambda>e. (e_node e, e_meta e)) (E j))"
        by (rule list_at_frame [OF at]) (use not [OF j] in force)
      moreover have "\<forall>e\<in>set (E j). entry_at ?m' e" using bj entry_at_cong [of ?m' m] by (simp add: bucket_at_def)
      ultimately show ?thesis by (simp add: bucket_at_def)
    qed
    have new: "bucket_at ?m' q (e # E i)"
      using kept [OF i] q(1) assms(3,4) entry_at_cong [of ?m' m e] by (simp add: bucket_at_def)
    have "e \<notin> set (E j)" if "j < HT_SIZE" for j using not [OF that, of e] assms(4) by blast
    then have sep: "set ((E(i := e # E i)) j) \<inter> set ((E(i := e # E i)) k) = {}"
      if "j < HT_SIZE" "k < HT_SIZE" "j \<noteq> k" for j k
      using that assms(1) by (auto simp: table_at_def)
    have "all_entries (E(i := e # E i)) \<subseteq> insert e (all_entries E)"
      by (auto simp: all_entries_def split: if_splits)
    then have "apart (all_entries (E(i := e # E i)))" by (rule apart_subset [OF assms(5)])
    moreover have vals: "map entry_value ((E(i := e # E i)) j) = buckets (fst (ht_insert table (entry_value e))) j"
      if "j < HT_SIZE" for j
      using None b table_at_bucket [OF assms(1) that] list_ex_find [of "\<lambda>m. fm_filename m = ?f" "buckets table i"]
        find_entry_value [of ?f "E i"] by (auto simp: ht_insert_def Let_def i_def [symmetric])
    ultimately have "table_at ?m' (E(i := e # E i)) (fst (ht_insert table (entry_value e)))"
      using new kept sep unfolding table_at_def by simp
    then show ?thesis using ins None get by simp
  qed
qed

section \<open>Properties\<close>


text \<open>A table with the one file \<open>f\<close>.\<close>

definition one_file :: FileMetadata where
  "one_file = \<lparr>fm_filename = ''f'', fm_owner = ''bob'', fm_access_list = [], fm_ss_ip = ''10.0.0.1'',
     fm_ss_client_port = 91, fm_size = 12, fm_word_count = 3, fm_char_count = 12, fm_created_at = 5,
     fm_last_modified = 6, fm_last_accessed = 7\<rparr>"

definition one_entry :: Entry where
  "one_entry = Entry 5 6 one_file [(7, \<lparr>an_username = ''bob'', an_permission = CHR ''W''\<rparr>)]"

definition one_table :: TableMem where
  "one_table = \<lparr>tm_buckets = (\<lambda>_. NULL)(hash_function ''f'' := 5), tm_nodes = [5 \<mapsto> (6, NULL)],
     tm_meta = [6 \<mapsto> (one_file, 7)], tm_access = [7 \<mapsto> (\<lparr>an_username = ''bob'', an_permission = CHR ''W''\<rparr>, NULL)]\<rparr>"

lemma one_table_at:
  "table_at one_table ((\<lambda>_. [])(hash_function ''f'' := [one_entry])) (fst (ht_insert ht_create (entry_value one_entry)))"
  "all_entries ((\<lambda>_. [])(hash_function ''f'' := [one_entry])) = {one_entry}"
proof -
  let ?E = "(\<lambda>_. [])(hash_function ''f'' := [one_entry])"
  show all: "all_entries ?E = {one_entry}"
    using bucket_of [of "''f''"] unfolding all_entries_def by (auto split: if_splits)
  have name: "fm_filename (entry_value one_entry) = ''f''" by (simp add: one_entry_def one_file_def)
  have "bucket_at one_table (tm_buckets one_table i) (?E i) \<and>
      map entry_value (?E i) = buckets (fst (ht_insert ht_create (entry_value one_entry))) i" for i
    by (simp add: bucket_at_def entry_at_def one_entry_def one_table_def ht_insert_def ht_create_def Let_def
        name [unfolded one_entry_def] one_file_def)
  moreover have "set (?E i) \<inter> set (?E j) = {}" if "i \<noteq> j" for i j using that by auto
  moreover have "apart {one_entry}" by (simp add: apart_def)
  ultimately show "table_at one_table ?E (fst (ht_insert ht_create (entry_value one_entry)))"
    unfolding table_at_def all by blast
qed


end
