(* ===== verification/Memory_Release.thy ===== *)
theory Memory_Release
  imports Table_Memory
begin

text \<open>
  The release of the name server's memory: \<open>trie_free\<close> (\<^verbatim>\<open>data_structures.c\<close>) over a trie in memory, and
  the part of \<open>nm_free\<close> (\<^verbatim>\<open>name_server.c\<close>) that frees the table, the trie and the three lists. With
  the stubs of the search cache, whose functions hold no memory.
\<close>

section \<open>The code\<close>

text \<open>A node of the trie in memory: the flag and the 256 child pointers.\<close>

type_synonym trie_heap = "addr \<Rightarrow> (bool \<times> (nat \<Rightarrow> addr)) option"

text \<open>\<open>trie_free\<close> with the loop counter \<open>i\<close>.\<close>

partial_function (option) trie_free :: "trie_heap \<Rightarrow> nat \<Rightarrow> addr \<Rightarrow> trie_heap option" where
  "trie_free h i node =
     (if node = NULL then Some h
      else do { (e, ch) \<leftarrow> h node;
                if i < 256 then do { h \<leftarrow> trie_free h 0 (ch i); trie_free h (i + 1) node }
                else Some (h(node := None)) })"

text \<open>The cache: \<open>lru_create\<close> returns \<open>NULL\<close>, \<open>lru_put\<close> and \<open>lru_free\<close> are empty.\<close>

definition lru_create :: "c_int \<Rightarrow> addr" where "lru_create capacity = NULL"
definition lru_put :: "addr \<Rightarrow> string \<Rightarrow> string \<Rightarrow> addr" where "lru_put cache filename data = cache"
definition lru_free :: "addr \<Rightarrow> addr" where "lru_free cache = cache"

record NMMem =
  mm_table :: TableMem
  mm_trie :: "trie_heap \<times> addr"
  mm_clients :: "ClientInfo heap \<times> addr"
  mm_servers :: "StorageServerInfo heap \<times> addr"
  mm_users :: "UserNode heap \<times> addr"

text \<open>\<open>nm_free\<close> from \<open>ht_free\<close> on.\<close>

definition nm_free_memory :: "NMMem \<Rightarrow> NMMem option" where
  "nm_free_memory m =
     do { table \<leftarrow> ht_free (mm_table m);
          trie \<leftarrow> trie_free (fst (mm_trie m)) 0 (snd (mm_trie m));
          clients \<leftarrow> list_free (fst (mm_clients m)) (snd (mm_clients m));
          servers \<leftarrow> list_free (fst (mm_servers m)) (snd (mm_servers m));
          users \<leftarrow> list_free (fst (mm_users m)) (snd (mm_users m));
          Some (m\<lparr>mm_table := table, mm_trie := (trie, snd (mm_trie m)), mm_clients := (clients, snd (mm_clients m)),
                  mm_servers := (servers, snd (mm_servers m)), mm_users := (users, snd (mm_users m))\<rparr>) }"

section \<open>A trie in memory\<close>

text \<open>The trie at a pointer, and the addresses it takes.\<close>

inductive trie_at :: "trie_heap \<Rightarrow> addr \<Rightarrow> TrieNode option \<Rightarrow> addr set \<Rightarrow> bool" for h where
  null: "trie_at h NULL None {}"
| node: "p \<noteq> NULL \<Longrightarrow> h p = Some (e, ch) \<Longrightarrow> (\<And>i. i < 256 \<Longrightarrow> trie_at h (ch i) (t (char_of i)) (A i)) \<Longrightarrow>
    (\<And>i. i < 256 \<Longrightarrow> p \<notin> A i) \<Longrightarrow> (\<And>i j. i < 256 \<Longrightarrow> j < 256 \<Longrightarrow> i \<noteq> j \<Longrightarrow> A i \<inter> A j = {}) \<Longrightarrow>
    trie_at h p (Some (TrieNode e t)) (insert p (\<Union>i<256. A i))"

inductive_cases trie_atE: "trie_at h p t A"

lemma trie_free_at:
  "trie_at h p t A \<Longrightarrow> (\<And>a. a \<in> A \<Longrightarrow> h' a = h a) \<Longrightarrow> trie_free h' 0 p = Some (h' |` (- A))"
proof (induction arbitrary: h' rule: trie_at.induct)
  case null
  show ?case by (subst trie_free.simps) (simp add: restrict_map_def)
next
  case (node p e ch t A)
  have p: "h' p = Some (e, ch)" using node.hyps(2) node.prems by simp
  let ?h = "\<lambda>k. h' |` (- (\<Union>i<k. A i))"
  have "trie_free (?h k) k p = Some (h' |` (- insert p (\<Union>i<256. A i)))" if "k \<le> 256" for k
    using that
  proof (induction k rule: inc_induct)
    case base
    have "p \<notin> (\<Union>i<256. A i)" using node.hyps(4) by auto
    then have "?h 256 p = Some (e, ch)" using p by (simp add: restrict_map_def)
    moreover have "(?h 256)(p := None) = h' |` (- insert p (\<Union>i<256. A i))" by (rule ext) (simp add: restrict_map_def)
    ultimately show ?case using node.hyps(1) by (subst trie_free.simps) simp
  next
    case (step k)
    have "p \<notin> (\<Union>i<k. A i)" using node.hyps(4) step.hyps by auto
    then have hk: "?h k p = Some (e, ch)" using p by (simp add: restrict_map_def)
    have "?h k a = h a" if a: "a \<in> A k" for a
    proof -
      have "a \<notin> A i" if "i < k" for i using node.hyps(5) [of i k] that step.hyps a by auto
      then show ?thesis using node.prems a step.hyps by (auto simp: restrict_map_def)
    qed
    then have "trie_free (?h k) 0 (ch k) = Some (?h k |` (- A k))" using node.IH [of k "?h k"] step.hyps by simp
    moreover have "?h k |` (- A k) = ?h (Suc k)" by (rule ext) (simp add: restrict_map_def lessThan_Suc)
    ultimately show ?case using step.IH step.hyps hk node.hyps(1) by (subst trie_free.simps) simp
  qed
  from this [of 0] show ?case by (simp add: restrict_map_def)
qed

section \<open>Everything is released\<close>

text \<open>The memory holds the state of the name server, and nothing else.\<close>

definition holds_state :: "NMMem \<Rightarrow> NameServer \<Rightarrow> bool" where
  "holds_state m nm \<longleftrightarrow>
     (\<exists>E. table_at (mm_table m) E (nm_file_table nm) \<and> dom (tm_nodes (mm_table m)) = e_node ` all_entries E \<and>
        dom (tm_meta (mm_table m)) = e_meta ` all_entries E \<and>
        dom (tm_access (mm_table m)) = (\<Union>e\<in>all_entries E. addrs (e_access e))) \<and>
     trie_at (fst (mm_trie m)) (snd (mm_trie m)) (Some (nm_file_trie nm)) (dom (fst (mm_trie m))) \<and>
     (\<exists>cs. owns (fst (mm_clients m)) (snd (mm_clients m)) cs Map.empty \<and> map snd cs = nm_client_list nm) \<and>
     (\<exists>ss. owns (fst (mm_servers m)) (snd (mm_servers m)) ss Map.empty \<and> map snd ss = nm_ss_list nm) \<and>
     (\<exists>us. owns (fst (mm_users m)) (snd (mm_users m)) us Map.empty \<and> map snd us = nm_all_users nm)"

lemma restrict_dom: "h |` (- dom h) = Map.empty"
  by (rule ext) (auto simp: restrict_map_def)

lemma trie_all_freed: "trie_at h p t (dom h) \<Longrightarrow> trie_free h 0 p = Some Map.empty"
  using trie_free_at [of h p t "dom h" h] by (simp add: restrict_dom)


text \<open>The state with the one file \<open>f\<close>, whose trie entry has been dropped, and one user.\<close>

definition one_memory :: NMMem where
  "one_memory = \<lparr>mm_table = one_table, mm_trie = ([1 \<mapsto> (False, \<lambda>_. NULL)], 1), mm_clients = (Map.empty, NULL),
     mm_servers = (Map.empty, NULL), mm_users = ([8 \<mapsto> (\<lparr>us_username = ''bob''\<rparr>, NULL)], 8)\<rparr>"


end
