(* ===== verification/Text_Memory.thy ===== *)
theory Text_Memory
  imports File_Ops List_Memory
begin

text \<open>
  The memory of the editing path of a storage server: the strings and arrays of strings that
  \<open>split_string\<close>, \<open>free_split_string\<close> (\<^verbatim>\<open>common/common.c\<close>), the functions of \<^verbatim>\<open>file_parser.c\<close> and
  \<open>handle_ss_write\<close> (\<^verbatim>\<open>file_ops.c\<close>) allocate, fill, read and free. An access to memory that is not
  allocated, an array slot that was never written, a string written past the end of its buffer and
  a second \<^verbatim>\<open>free\<close> are undefined (\<open>None\<close>).

  The functions of \<open>File_Parser\<close> and \<open>File_Ops\<close> are their specification: the code in memory
  computes the same strings, leaves every block it did not allocate alone, and leaves nothing behind
  but its result.
\<close>

section \<open>Memory\<close>

text \<open>A block: a buffer of \<open>n\<close> bytes that holds a C string, an array of pointers (\<open>None\<close> for a slot
  that was not written yet), a queued update.\<close>

datatype block = Bytes nat string | Pointers "addr option list" | UpdateBlock c_int addr addr

type_synonym mem = "addr \<Rightarrow> block option"

text \<open>\<^verbatim>\<open>malloc\<close>: the address it returns is \<open>NULL\<close> when there is no memory.\<close>

definition alloc :: "(mem \<Rightarrow> addr) \<Rightarrow> block \<Rightarrow> mem \<Rightarrow> addr \<times> mem" where
  "alloc malloc b m = (let p = malloc m in if p = NULL then (NULL, m) else (p, m(p \<mapsto> b)))"

definition free_block :: "addr \<Rightarrow> mem \<Rightarrow> mem option" where
  "free_block p m =
     (if p = NULL then Some m else case m p of None \<Rightarrow> None | Some _ \<Rightarrow> Some (m(p := None)))"

text \<open>The string at an address: the block is a buffer and the terminator is inside.\<close>

definition text_at :: "addr \<Rightarrow> mem \<Rightarrow> string option" where
  "text_at p m =
     (if p = NULL then None
      else case m p of Some (Bytes n s) \<Rightarrow> if length s < n then Some s else None | _ \<Rightarrow> None)"

text \<open>\<^verbatim>\<open>malloc(n)\<close> and \<^verbatim>\<open>strncpy\<close> into it with the terminator behind: the result of \<^verbatim>\<open>malloc\<close> is not checked.\<close>

definition copy_text :: "(mem \<Rightarrow> addr) \<Rightarrow> nat \<Rightarrow> string \<Rightarrow> mem \<Rightarrow> (addr \<times> mem) option" where
  "copy_text malloc n s m =
     (case alloc malloc (Bytes n []) m of (p, m) \<Rightarrow>
        if p = NULL \<or> n \<le> length s then None else Some (p, m(p \<mapsto> Bytes n s)))"

definition strdup :: "(mem \<Rightarrow> addr) \<Rightarrow> string \<Rightarrow> mem \<Rightarrow> addr \<times> mem" where
  "strdup malloc s m = alloc malloc (Bytes (length s + 1) s) m"

text \<open>\<^verbatim>\<open>strcat\<close> to a buffer.\<close>

definition strcat_at :: "addr \<Rightarrow> string \<Rightarrow> mem \<Rightarrow> mem option" where
  "strcat_at p s m =
     (if p = NULL then None
      else case m p of Some (Bytes n d) \<Rightarrow> map_option (\<lambda>t. m(p \<mapsto> Bytes n t)) (strcat n d s) | _ \<Rightarrow> None)"

text \<open>\<open>arr[i]\<close>, and the string it points to.\<close>

definition get_slot :: "addr \<Rightarrow> nat \<Rightarrow> mem \<Rightarrow> addr option" where
  "get_slot arr i m =
     (if arr = NULL then None
      else case m arr of Some (Pointers ps) \<Rightarrow> if i < length ps then ps ! i else None | _ \<Rightarrow> None)"

definition set_slot :: "addr \<Rightarrow> nat \<Rightarrow> addr \<Rightarrow> mem \<Rightarrow> mem option" where
  "set_slot arr i p m =
     (if arr = NULL then None
      else case m arr of
             Some (Pointers ps) \<Rightarrow> if i < length ps then Some (m(arr \<mapsto> Pointers (ps[i := Some p]))) else None
           | _ \<Rightarrow> None)"

definition slot_text :: "addr \<Rightarrow> nat \<Rightarrow> mem \<Rightarrow> string option" where
  "slot_text arr i m = do { p \<leftarrow> get_slot arr i m; text_at p m }"

text \<open>\<^verbatim>\<open>realloc(arr, n * sizeof(char*))\<close>: the old block is gone unless there was no memory; the new one
  may be at the same address.\<close>

definition realloc_slots :: "(mem \<Rightarrow> addr) \<Rightarrow> addr \<Rightarrow> nat \<Rightarrow> mem \<Rightarrow> (addr \<times> mem) option" where
  "realloc_slots malloc arr n m =
     (if arr = NULL then Some (alloc malloc (Pointers (replicate n None)) m)
      else case m arr of
             Some (Pointers ps) \<Rightarrow>
               (case alloc malloc (Pointers (take n ps @ replicate (n - length ps) None)) (m(arr := None)) of
                  (q, m') \<Rightarrow> if q = NULL then Some (NULL, m) else Some (q, m'))
           | _ \<Rightarrow> None)"

section \<open>The code\<close>

function free_slots :: "addr \<Rightarrow> nat \<Rightarrow> nat \<Rightarrow> mem \<Rightarrow> mem option" where
  "free_slots arr count i m =
     (if i < count
      then do { p \<leftarrow> get_slot arr i m; m \<leftarrow> free_block p m; free_slots arr count (i + 1) m }
      else Some m)"
  by pat_completeness auto
termination
  by (relation "measure (\<lambda>(arr, count, i, m). count - i)") auto

declare free_slots.simps [simp del]

definition free_split_string :: "addr \<Rightarrow> nat \<Rightarrow> mem \<Rightarrow> mem option" where
  "free_split_string arr count m =
     (if arr = NULL then Some m else do { m \<leftarrow> free_slots arr count 0 m; free_block arr m })"

text \<open>The loop of \<open>split_string\<close>; \<open>s\<close> is what \<open>rest\<close> points to in the copy. Here the result of
  \<^verbatim>\<open>realloc\<close> is checked; the count stays.\<close>

function split_loop_mem ::
  "(mem \<Rightarrow> addr) \<Rightarrow> string \<Rightarrow> addr \<Rightarrow> string \<Rightarrow> addr \<Rightarrow> nat \<Rightarrow> mem \<Rightarrow> (addr \<times> nat \<times> mem) option" where
  "split_loop_mem malloc delim str_copy s result count m =
     (let s' = dropWhile (\<lambda>c. c \<in> set delim) s
      in if s' = [] then do { m \<leftarrow> free_block str_copy m; Some (result, count, m) }
         else do {
           (new_result, m) \<leftarrow> realloc_slots malloc result (count + 1) m;
           if new_result = NULL
           then do { m \<leftarrow> free_block str_copy m; m \<leftarrow> free_split_string result count m;
                     Some (NULL, count + 1, m) }
           else do {
             let (token, m) = strdup malloc (takeWhile (\<lambda>c. c \<notin> set delim) s') m;
             m \<leftarrow> set_slot new_result count token m;
             split_loop_mem malloc delim str_copy (drop 1 (dropWhile (\<lambda>c. c \<notin> set delim) s'))
               new_result (count + 1) m } })"
  by pat_completeness auto
termination
proof (relation "measure (\<lambda>(malloc, delim, str_copy, s, result, count, m). length s)", goal_cases)
  case (2 malloc delim str_copy s result count m s')
  have "length (dropWhile (\<lambda>c. c \<notin> set delim) s') \<le> length s'" "length s' \<le> length s"
    using 2(1) by (simp_all add: length_dropWhile_le)
  moreover have "0 < length s'" using 2(2) by simp
  ultimately show ?case by (simp only: in_measure prod.case length_drop)
qed simp

declare split_loop_mem.simps [simp del]

definition split_string_mem ::
  "(mem \<Rightarrow> addr) \<Rightarrow> string \<Rightarrow> string \<Rightarrow> mem \<Rightarrow> (addr \<times> nat \<times> mem) option" where
  "split_string_mem malloc delim str m =
     (case strdup malloc str m of (str_copy, m) \<Rightarrow>
        if str_copy = NULL then Some (NULL, 0, m) else split_loop_mem malloc delim str_copy str NULL 0 m)"

text \<open>One more string at the end of an array: \<^verbatim>\<open>realloc\<close>, \<^verbatim>\<open>malloc(n)\<close>, the copy.\<close>

definition push_text ::
  "(mem \<Rightarrow> addr) \<Rightarrow> nat \<Rightarrow> string \<Rightarrow> addr \<times> nat \<times> mem \<Rightarrow> (addr \<times> nat \<times> mem) option" where
  "push_text malloc n s = (\<lambda>(arr, count, m). do {
     (arr, m) \<leftarrow> realloc_slots malloc arr (count + 1) m;
     (p, m) \<leftarrow> copy_text malloc n s m;
     m \<leftarrow> set_slot arr count p m;
     Some (arr, count + 1, m) })"

function sis_loop_mem ::
  "(mem \<Rightarrow> addr) \<Rightarrow> string \<Rightarrow> nat \<Rightarrow> nat \<Rightarrow> addr \<times> nat \<times> mem \<Rightarrow> (nat \<times> nat \<times> addr \<times> nat \<times> mem) option" where
  "sis_loop_mem malloc content start p a =
     (if p < length content then
        if is_delimiter (content ! p)
        then do {
          let len = p - start + 1;
          a \<leftarrow> push_text malloc (len + 1) (substr content start len) a;
          sis_loop_mem malloc content (skip_spaces content (p + 1)) (p + 1) a }
        else sis_loop_mem malloc content start (p + 1) a
      else Some (start, p, a))"
  by pat_completeness auto
termination
  by (relation "measure (\<lambda>(malloc, content, start, p, a). length content - p)") auto

declare sis_loop_mem.simps [simp del]

definition split_into_sentences_mem ::
  "(mem \<Rightarrow> addr) \<Rightarrow> string \<Rightarrow> mem \<Rightarrow> (addr \<times> nat \<times> mem) option" where
  "split_into_sentences_mem malloc content m = do {
     (start, p, a) \<leftarrow> sis_loop_mem malloc content 0 0 (NULL, 0, m);
     if start < p \<and> 0 < length (drop start content)
     then do { let len = p - start; push_text malloc (len + 1) (substr content start len) a }
     else Some a }"

function siw_loop_mem ::
  "(mem \<Rightarrow> addr) \<Rightarrow> string \<Rightarrow> nat \<Rightarrow> nat \<Rightarrow> bool \<Rightarrow> addr \<times> nat \<times> mem \<Rightarrow>
     (nat \<times> nat \<times> bool \<times> addr \<times> nat \<times> mem) option" where
  "siw_loop_mem malloc s start p in_word a =
     (if p < length s then
        if isspace (s ! p) then do {
          a \<leftarrow> (if in_word then push_text malloc (p - start + 1) (substr s start (p - start)) a else Some a);
          siw_loop_mem malloc s (p + 1) (p + 1) False a }
        else if is_delimiter (s ! p) then do {
          a \<leftarrow> (if in_word then push_text malloc (p - start + 1) (substr s start (p - start)) a else Some a);
          a \<leftarrow> push_text malloc 2 [s ! p] a;
          siw_loop_mem malloc s (p + 1) (p + 1) False a }
        else siw_loop_mem malloc s start (p + 1) True a
      else Some (start, p, in_word, a))"
  by pat_completeness auto
termination
  by (relation "measure (\<lambda>(malloc, s, start, p, in_word, a). length s - p)") auto

declare siw_loop_mem.simps [simp del]

definition split_into_words_mem :: "(mem \<Rightarrow> addr) \<Rightarrow> string \<Rightarrow> mem \<Rightarrow> (addr \<times> nat \<times> mem) option" where
  "split_into_words_mem malloc sentence m = do {
     (start, p, in_word, a) \<leftarrow> siw_loop_mem malloc sentence 0 0 False (NULL, 0, m);
     if in_word then push_text malloc (p - start + 1) (substr sentence start (p - start)) a else Some a }"

text \<open>The joiners: the length, a zeroed buffer, one \<^verbatim>\<open>strcat\<close> after the other.\<close>

function total_len_mem :: "addr \<Rightarrow> nat \<Rightarrow> nat \<Rightarrow> nat \<Rightarrow> mem \<Rightarrow> nat option" where
  "total_len_mem arr count i len m =
     (if i < count then do { w \<leftarrow> slot_text arr i m; total_len_mem arr count (i + 1) (len + (length w + 1)) m }
      else Some len)"
  by pat_completeness auto
termination
  by (relation "measure (\<lambda>(arr, count, i, len, m). count - i)") auto

declare total_len_mem.simps [simp del]

text \<open>\<open>sep v\<close>: whether a space goes in front of the next string \<open>v\<close>.\<close>

function join_loop_mem :: "(string \<Rightarrow> bool) \<Rightarrow> addr \<Rightarrow> nat \<Rightarrow> addr \<Rightarrow> nat \<Rightarrow> mem \<Rightarrow> mem option" where
  "join_loop_mem sep arr count out i m =
     (if i < count then do {
        w \<leftarrow> slot_text arr i m;
        m \<leftarrow> strcat_at out w m;
        m \<leftarrow> (if i < count - 1
             then do { v \<leftarrow> slot_text arr (i + 1) m; if sep v then strcat_at out '' '' m else Some m }
             else Some m);
        join_loop_mem sep arr count out (i + 1) m }
      else Some m)"
  by pat_completeness auto
termination
  by (relation "measure (\<lambda>(sep, arr, count, out, i, m). count - i)") auto

declare join_loop_mem.simps [simp del]

definition join_words_mem :: "(mem \<Rightarrow> addr) \<Rightarrow> addr \<Rightarrow> nat \<Rightarrow> mem \<Rightarrow> (addr \<times> mem) option" where
  "join_words_mem malloc ws word_count m =
     (if word_count = 0 then Some (strdup malloc [] m)
      else do {
        len \<leftarrow> total_len_mem ws word_count 0 0 m;
        let (sentence, m) = alloc malloc (Bytes (len + 1) []) m;
        m \<leftarrow> join_loop_mem (\<lambda>v. \<not> is_delimiter (first_char v)) ws word_count sentence 0 m;
        Some (sentence, m) })"

definition join_sentences_mem :: "(mem \<Rightarrow> addr) \<Rightarrow> addr \<Rightarrow> nat \<Rightarrow> mem \<Rightarrow> (addr \<times> mem) option" where
  "join_sentences_mem malloc sents sentence_count m =
     (if sentence_count = 0 then Some (strdup malloc [] m)
      else do {
        len \<leftarrow> total_len_mem sents sentence_count 0 0 m;
        let (content, m) = alloc malloc (Bytes len []) m;
        m \<leftarrow> join_loop_mem (\<lambda>v. first_char v \<noteq> CHR '' '') sents sentence_count content 0 m;
        Some (content, m) })"

text \<open>\<open>for (i = i; i < j; i++) final_words[k++] = strdup(words[i])\<close>.\<close>

function copy_slots ::
  "(mem \<Rightarrow> addr) \<Rightarrow> addr \<Rightarrow> nat \<Rightarrow> nat \<Rightarrow> addr \<Rightarrow> nat \<times> mem \<Rightarrow> (nat \<times> mem) option" where
  "copy_slots malloc ws i j final_words km =
     (if i < j then do {
        let (k, m) = km;
        w \<leftarrow> slot_text ws i m;
        let (p, m) = strdup malloc w m;
        m \<leftarrow> set_slot final_words k p m;
        copy_slots malloc ws (i + 1) j final_words (k + 1, m) }
      else Some km)"
  by pat_completeness auto
termination
  by (relation "measure (\<lambda>(malloc, ws, i, j, final_words, km). j - i)") auto

declare copy_slots.simps [simp del]

text \<open>\<open>sentences[sent_num]\<close> replaced by the joined words with the new ones in between.\<close>

definition edit_words_mem ::
  "(mem \<Rightarrow> addr) \<Rightarrow> addr \<Rightarrow> nat \<Rightarrow> addr \<Rightarrow> nat \<Rightarrow> addr \<Rightarrow> nat \<Rightarrow> mem \<Rightarrow> mem option" where
  "edit_words_mem malloc ws word_count new_content word_idx sents sent_num m = do {
     new_text \<leftarrow> text_at new_content m;
     (new_words, new_word_count, m) \<leftarrow> split_string_mem malloc '' '' new_text m;
     let (final_words, m) = alloc malloc (Pointers (replicate (word_count + new_word_count) (Some NULL))) m;
     km \<leftarrow> copy_slots malloc ws 0 word_idx final_words (0, m);
     km \<leftarrow> copy_slots malloc new_words 0 new_word_count final_words km;
     (k, m) \<leftarrow> copy_slots malloc ws word_idx word_count final_words km;
     m \<leftarrow> free_split_string ws word_count m;
     m \<leftarrow> free_split_string new_words new_word_count m;
     (new_sentence, m) \<leftarrow> join_words_mem malloc final_words k m;
     m \<leftarrow> free_split_string final_words k m;
     old_sentence \<leftarrow> get_slot sents sent_num m;
     m \<leftarrow> free_block old_sentence m;
     set_slot sents sent_num new_sentence m }"

definition rerender_mem :: "(mem \<Rightarrow> addr) \<Rightarrow> addr \<Rightarrow> nat \<Rightarrow> mem \<Rightarrow> (addr \<times> mem) option" where
  "rerender_mem malloc sents sentence_count m = do {
     (final_content, m) \<leftarrow> join_sentences_mem malloc sents sentence_count m;
     m \<leftarrow> free_split_string sents sentence_count m;
     content \<leftarrow> text_at final_content m;
     (final_sentences, final_sent_count, m) \<leftarrow> split_into_sentences_mem malloc content m;
     m \<leftarrow> free_block final_content m;
     (final_final_content, m) \<leftarrow> join_sentences_mem malloc final_sentences final_sent_count m;
     m \<leftarrow> free_split_string final_sentences final_sent_count m;
     Some (final_final_content, m) }"

text \<open>\<open>NULL\<close> for an index out of range. The two cases of an append are one: with no sentence the array is
  \<open>NULL\<close> and gets its first slot.\<close>

definition apply_single_update_mem ::
  "(mem \<Rightarrow> addr) \<Rightarrow> addr \<Rightarrow> c_int \<Rightarrow> c_int \<Rightarrow> addr \<Rightarrow> mem \<Rightarrow> (addr \<times> mem) option" where
  "apply_single_update_mem malloc current_content sent_num word_idx new_content m = do {
     content \<leftarrow> text_at current_content m;
     (sents, sentence_count, m) \<leftarrow> split_into_sentences_mem malloc content m;
     if sent_num < 0 \<or> sent_num > int sentence_count
     then do { m \<leftarrow> free_split_string sents sentence_count m; Some (NULL, m) }
     else do {
       (sents, sentence_count, m) \<leftarrow>
         (if sent_num = int sentence_count
          then do {
            (sents, m) \<leftarrow> realloc_slots malloc sents (sentence_count + 1) m;
            let (empty, m) = strdup malloc [] m;
            m \<leftarrow> set_slot sents sentence_count empty m;
            Some (sents, sentence_count + 1, m) }
          else Some (sents, sentence_count, m));
       sentence \<leftarrow> slot_text sents (nat sent_num) m;
       (ws, word_count, m) \<leftarrow> split_into_words_mem malloc sentence m;
       if word_idx < 0 \<or> word_idx > int word_count
       then do { m \<leftarrow> free_split_string ws word_count m; m \<leftarrow> free_split_string sents sentence_count m;
                 Some (NULL, m) }
       else do {
         m \<leftarrow> edit_words_mem malloc ws word_count new_content (nat word_idx) sents (nat sent_num) m;
         rerender_mem malloc sents sentence_count m } } }"

section \<open>The memory of a WRITE session\<close>

text \<open>\<open>get_file_content\<close> of a file that is there, or not.\<close>

definition read_content_mem :: "(mem \<Rightarrow> addr) \<Rightarrow> string option \<Rightarrow> mem \<Rightarrow> addr \<times> mem" where
  "read_content_mem malloc file m =
     (case file of
        None \<Rightarrow> strdup malloc [] m
      | Some bytes \<Rightarrow> alloc malloc (Bytes (length bytes + 1) (cstr bytes)) m)"

text \<open>The check of the sentence index.\<close>

definition write_check_mem :: "(mem \<Rightarrow> addr) \<Rightarrow> string option \<Rightarrow> c_int \<Rightarrow> mem \<Rightarrow> (bool \<times> mem) option" where
  "write_check_mem malloc file sent_num m = do {
     let (check_content, m) = read_content_mem malloc file m;
     content \<leftarrow> text_at check_content m;
     (temp_sents, initial_sent_count, m) \<leftarrow> split_into_sentences_mem malloc content m;
     max_valid_index \<leftarrow>
       (if initial_sent_count > 0
        then do {
          last_sent \<leftarrow> slot_text temp_sents (initial_sent_count - 1) m;
          let last_char = (case dropWhile isspace (rev last_sent) of [] \<Rightarrow> CHR 0x00 | c # _ \<Rightarrow> c);
          Some (if \<not> is_delimiter last_char then int initial_sent_count - 1 else int initial_sent_count) }
        else Some (int initial_sent_count));
     m \<leftarrow> free_split_string temp_sents initial_sent_count m;
     m \<leftarrow> free_block check_content m;
     Some (\<not> (sent_num < 0 \<or> sent_num > max_valid_index), m) }"

text \<open>The queue of updates, with \<open>update_head\<close> and \<open>update_tail\<close>: a node behind the tail.\<close>

definition queue_append_mem :: "addr \<Rightarrow> addr \<Rightarrow> addr \<Rightarrow> mem \<Rightarrow> (addr \<times> mem) option" where
  "queue_append_mem update_head update_tail node m =
     (if update_head = NULL then Some (node, m)
      else case m update_tail of
             Some (UpdateBlock i c nx) \<Rightarrow> Some (update_head, m(update_tail \<mapsto> UpdateBlock i c node))
           | _ \<Rightarrow> None)"

fun queue_loop_mem ::
  "(mem \<Rightarrow> addr) \<Rightarrow> string list \<Rightarrow> addr \<times> addr \<times> mem \<Rightarrow> (addr \<times> addr \<times> mem) option" where
  "queue_loop_mem malloc [] q = Some q"
| "queue_loop_mem malloc (msg # msgs) (update_head, update_tail, m) =
     (let buffer = cstr msg
      in if msg = [] \<or> buffer = ''ETIRW'' then Some (update_head, update_tail, m)
         else do {
           (parts, count, m) \<leftarrow> split_string_mem malloc '' '' buffer m;
           if count < 2
           then do { m \<leftarrow> free_split_string parts count m;
                     queue_loop_mem malloc msgs (update_head, update_tail, m) }
           else do {
             let (node, m) = alloc malloc (UpdateBlock 0 NULL NULL) m;
             part \<leftarrow> slot_text parts 0 m;
             let (content, m) = strdup malloc (drop 1 (dropWhile (\<lambda>c. c \<noteq> CHR '' '') buffer)) m;
             m \<leftarrow> (if node = NULL then None else Some (m(node \<mapsto> UpdateBlock (atoi part) content NULL)));
             (update_head, m) \<leftarrow> queue_append_mem update_head update_tail node m;
             m \<leftarrow> free_split_string parts count m;
             queue_loop_mem malloc msgs (update_head, node, m) } })"

text \<open>The loop that applies the queue: the content, or the old one with the error flag.\<close>

partial_function (option) apply_loop_mem ::
  "(mem \<Rightarrow> addr) \<Rightarrow> c_int \<Rightarrow> addr \<Rightarrow> addr \<Rightarrow> mem \<Rightarrow> (bool \<times> addr \<times> mem) option" where
  "apply_loop_mem malloc real_sent_num cur current_content m =
     (if cur = NULL then Some (False, current_content, m)
      else case m cur of
             Some (UpdateBlock word_idx content nx) \<Rightarrow> do {
               (updated_content, m) \<leftarrow>
                 apply_single_update_mem malloc current_content real_sent_num word_idx content m;
               if updated_content = NULL then Some (True, current_content, m)
               else do {
                 m \<leftarrow> free_block current_content m;
                 apply_loop_mem malloc real_sent_num nx updated_content m } }
           | _ \<Rightarrow> None)"

partial_function (option) free_queue :: "addr \<Rightarrow> mem \<Rightarrow> mem option" where
  "free_queue u m =
     (if u = NULL then Some m
      else case m u of
             Some (UpdateBlock word_idx content nx) \<Rightarrow> do {
               m \<leftarrow> free_block content m;
               m \<leftarrow> free_block u m;
               free_queue nx m }
           | _ \<Rightarrow> None)"

text \<open>The commit phase: \<open>file\<close> is the file after the backup, \<open>shift\<close> what \<open>get_sentence_shift\<close> returns, and
  \<open>writable\<close> says that \<^verbatim>\<open>fopen\<close> succeeds. The result is the string \<^verbatim>\<open>fwrite\<close> gets, with the
  number of sentences before and after.\<close>

definition commit_mem ::
  "(mem \<Rightarrow> addr) \<Rightarrow> string option \<Rightarrow> bool \<Rightarrow> c_int \<Rightarrow> addr \<Rightarrow> mem \<Rightarrow>
     ((string \<times> nat \<times> nat) option \<times> mem) option" where
  "commit_mem malloc file writable real_sent_num update_head m = do {
     let (current_content, m) = read_content_mem malloc file m;
     content \<leftarrow> text_at current_content m;
     (sents_before, count_before, m) \<leftarrow> split_into_sentences_mem malloc content m;
     m \<leftarrow> free_split_string sents_before count_before m;
     (apply_error, current_content, m) \<leftarrow> apply_loop_mem malloc real_sent_num update_head current_content m;
     (written, m) \<leftarrow>
       (if apply_error \<or> \<not> writable then Some (None, m)
        else do {
          content \<leftarrow> text_at current_content m;
          (sents_after, count_after, m) \<leftarrow> split_into_sentences_mem malloc content m;
          m \<leftarrow> free_split_string sents_after count_after m;
          Some (Some (content, count_before, count_after), m) });
     m \<leftarrow> free_block current_content m;
     Some (written, m) }"

text \<open>A session from its lock on: \<open>file\<close> when it checks its index, \<open>file'\<close> when it commits.\<close>

definition write_session_mem ::
  "(mem \<Rightarrow> addr) \<Rightarrow> string option \<Rightarrow> c_int \<Rightarrow> string list \<Rightarrow> string option \<Rightarrow> bool \<Rightarrow> c_int \<Rightarrow> mem \<Rightarrow>
     ((string \<times> nat \<times> nat) option option \<times> mem) option" where
  "write_session_mem malloc file sent_num msgs file' writable shift m = do {
     (in_range, m) \<leftarrow> write_check_mem malloc file sent_num m;
     if \<not> in_range then Some (None, m)
     else do {
       (update_head, update_tail, m) \<leftarrow> queue_loop_mem malloc msgs (NULL, NULL, m);
       (written, m) \<leftarrow> commit_mem malloc file' writable (sent_num + shift) update_head m;
       m \<leftarrow> free_queue update_head m;
       Some (Some written, m) } }"

section \<open>What a function owns\<close>

declare restrict_fun_upd [simp del]

text \<open>\<open>adds P m F\<close>: the memory \<open>m\<close> is \<open>F\<close> and, apart from it, a part that is \<open>P\<close>.\<close>

definition adds :: "(mem \<Rightarrow> bool) \<Rightarrow> mem \<Rightarrow> mem \<Rightarrow> bool" where
  "adds P m F \<longleftrightarrow> (\<exists>X. P X \<and> finite (dom X) \<and> dom X \<inter> dom F = {} \<and> m = F ++ X)"

definition a_text :: "addr \<Rightarrow> string \<Rightarrow> mem \<Rightarrow> bool" where
  "a_text p s X \<longleftrightarrow> p \<noteq> NULL \<and> (\<exists>n > length s. X = [p \<mapsto> Bytes n s])"

definition a_block :: "addr \<Rightarrow> block \<Rightarrow> mem \<Rightarrow> bool" where
  "a_block p b X \<longleftrightarrow> p \<noteq> NULL \<and> X = [p \<mapsto> b]"

text \<open>An array whose first slots point to the strings \<open>ss\<close>, and an array of strings, which is \<open>NULL\<close>
  for none.\<close>

definition slots :: "addr \<Rightarrow> string list \<Rightarrow> addr option list \<Rightarrow> mem \<Rightarrow> bool" where
  "slots arr ss rest X \<longleftrightarrow> arr \<noteq> NULL \<and>
     (\<exists>ps. list_all2 (\<lambda>p s. p \<noteq> NULL \<and> (\<exists>n > length s. X p = Some (Bytes n s))) ps ss \<and> distinct (arr # ps) \<and>
        X arr = Some (Pointers (map Some ps @ rest)) \<and> dom X = insert arr (set ps))"

definition texts :: "addr \<Rightarrow> string list \<Rightarrow> mem \<Rightarrow> bool" where
  "texts arr ss X \<longleftrightarrow> arr = NULL \<and> ss = [] \<and> X = Map.empty \<or> slots arr ss [] X"

lemma adds_swap:
  assumes "adds P m G" "adds Q G F"
  shows "\<exists>G'. adds Q m G' \<and> adds P G' F"
proof -
  obtain X where X: "P X" "finite (dom X)" "dom X \<inter> dom G = {}" "m = G ++ X" using assms(1) unfolding adds_def by auto
  obtain Y where Y: "Q Y" "finite (dom Y)" "dom Y \<inter> dom F = {}" "G = F ++ Y" using assms(2) unfolding adds_def by auto
  have "dom X \<inter> dom Y = {}" "dom X \<inter> dom F = {}" using X(3) Y(4) by auto
  then have "m = (F ++ X) ++ Y" using X(4) Y(4) map_add_comm [of Y X] by (metis Int_commute map_add_assoc)
  moreover have "dom Y \<inter> dom (F ++ X) = {}" using X(3) Y(3,4) by auto
  ultimately have "adds Q m (F ++ X)" using Y(1,2) unfolding adds_def by blast
  moreover have "adds P (F ++ X) F" using X(1,2) \<open>dom X \<inter> dom F = {}\<close> unfolding adds_def by blast
  ultimately show ?thesis by blast
qed

lemma adds_finite: "adds P m F \<Longrightarrow> finite (dom m) \<longleftrightarrow> finite (dom F)"
  by (auto simp: adds_def)

lemma adds_le: "adds P m F \<Longrightarrow> F \<subseteq>\<^sub>m m"
  unfolding adds_def map_le_def by (metis disjoint_iff map_add_dom_app_simps(3))

lemma adds_mono: "adds P m F \<Longrightarrow> (\<And>X. P X \<Longrightarrow> Q X) \<Longrightarrow> adds Q m F"
  by (auto simp: adds_def)

lemma adds_block: "adds (a_block p b) m F \<longleftrightarrow> p \<noteq> NULL \<and> F p = None \<and> m = F(p \<mapsto> b)"
  by (auto simp: adds_def a_block_def)

lemma adds_text: "adds (a_text p s) m F \<longleftrightarrow> p \<noteq> NULL \<and> F p = None \<and> (\<exists>n > length s. m = F(p \<mapsto> Bytes n s))"
proof
  assume "adds (a_text p s) m F"
  then show "p \<noteq> NULL \<and> F p = None \<and> (\<exists>n > length s. m = F(p \<mapsto> Bytes n s))" by (auto simp: adds_def a_text_def)
next
  assume "p \<noteq> NULL \<and> F p = None \<and> (\<exists>n > length s. m = F(p \<mapsto> Bytes n s))"
  then obtain n where "adds (a_block p (Bytes n s)) m F" "length s < n" by (auto simp: adds_block)
  then show "adds (a_text p s) m F" by (auto elim!: adds_mono simp: a_block_def a_text_def)
qed

lemma adds_no_texts: "adds (texts NULL []) m F \<longleftrightarrow> m = F"
  by (auto simp: adds_def texts_def slots_def)

lemma map_le_Some: "F \<subseteq>\<^sub>m m \<Longrightarrow> F p = Some b \<Longrightarrow> m p = Some b"
  by (metis domI map_le_def)

lemma list_all2_mono_elem:
  "list_all2 P xs ys \<Longrightarrow> (\<And>x y. x \<in> set xs \<Longrightarrow> P x y \<Longrightarrow> Q x y) \<Longrightarrow> list_all2 Q xs ys"
  by (simp add: list_all2_conv_all_nth)

section \<open>Reading, allocating, freeing\<close>

lemma alloc_adds:
  assumes "allocator malloc" "finite (dom m)"
  shows "\<exists>p m'. alloc malloc b m = (p, m') \<and> p \<noteq> NULL \<and> adds (a_block p b) m' m"
  using assms by (auto simp: alloc_def Let_def adds_block allocator_def fresh_def)

lemma strdup_adds:
  assumes "allocator malloc" "finite (dom m)"
  shows "\<exists>p m'. strdup malloc s m = (p, m') \<and> p \<noteq> NULL \<and> adds (a_text p s) m' m"
  using alloc_adds [OF assms, of "Bytes (length s + 1) s"] by (fastforce simp: strdup_def adds_block adds_text)

lemma copy_text_adds:
  assumes "allocator malloc" "finite (dom m)" "length s < n"
  shows "\<exists>p m'. copy_text malloc n s m = Some (p, m') \<and> p \<noteq> NULL \<and> adds (a_text p s) m' m"
  using alloc_adds [OF assms(1,2), of "Bytes n []"] assms(3)
  by (auto simp: copy_text_def adds_block adds_text split: prod.splits)

lemma free_text: "adds (a_text p s) m F \<Longrightarrow> free_block p m = Some F"
  by (auto simp: adds_text free_block_def intro: fun_upd_idem)

lemma text_at_adds: "adds (a_text p s) m F \<Longrightarrow> m \<subseteq>\<^sub>m m' \<Longrightarrow> text_at p m' = Some s"
proof -
  assume *: "adds (a_text p s) m F" "m \<subseteq>\<^sub>m m'"
  then obtain n where "p \<noteq> NULL" "length s < n" "m p = Some (Bytes n s)" by (auto simp: adds_text)
  then show "text_at p m' = Some s" using map_le_Some [OF *(2)] by (simp add: text_at_def)
qed

lemma slotsE:
  assumes "adds (slots arr ss rest) m F"
  obtains ps where "arr \<noteq> NULL" "F arr = None" "m arr = Some (Pointers (map Some ps @ rest))" "distinct (arr # ps)"
    "list_all2 (\<lambda>p s. p \<noteq> NULL \<and> F p = None \<and> (\<exists>n > length s. m p = Some (Bytes n s))) ps ss"
    "m |` (- insert arr (set ps)) = F"
proof -
  obtain X where X: "slots arr ss rest X" "dom X \<inter> dom F = {}" "m = F ++ X" using assms unfolding adds_def by auto
  obtain ps where ps: "arr \<noteq> NULL" "list_all2 (\<lambda>p s. p \<noteq> NULL \<and> (\<exists>n > length s. X p = Some (Bytes n s))) ps ss"
      "distinct (arr # ps)" "X arr = Some (Pointers (map Some ps @ rest))" "dom X = insert arr (set ps)"
    using X(1) unfolding slots_def by blast
  have "list_all2 (\<lambda>p s. p \<noteq> NULL \<and> F p = None \<and> (\<exists>n > length s. m p = Some (Bytes n s))) ps ss"
    using ps(2) by (rule list_all2_mono) (use X(2,3) in \<open>auto simp: domIff\<close>)
  moreover have "m |` (- insert arr (set ps)) = F"
  proof
    fix a
    have "a \<in> dom X \<Longrightarrow> F a = None" using X(2) by blast
    then show "(m |` (- insert arr (set ps))) a = F a"
      using X(3) ps(5) map_add_dom_app_simps(3) [of a X F] by (simp add: restrict_map_def)
  qed
  moreover have "F arr = None" using X(2) ps(4) by (auto simp: domIff)
  ultimately show ?thesis using that [of ps] ps X(3) by simp
qed

lemma slotsI:
  assumes "arr \<noteq> NULL" "F arr = None" "m arr = Some (Pointers (map Some ps @ rest))" "distinct (arr # ps)"
    "list_all2 (\<lambda>p s. p \<noteq> NULL \<and> F p = None \<and> (\<exists>n > length s. m p = Some (Bytes n s))) ps ss"
    "m |` (- insert arr (set ps)) = F"
  shows "adds (slots arr ss rest) m F"
proof -
  define X where "X = m |` insert arr (set ps)"
  have all: "\<forall>p\<in>set ps. F p = None \<and> m p \<noteq> None"
    using assms(5) by (fastforce simp: list_all2_conv_all_nth in_set_conv_nth)
  have dom: "dom X = insert arr (set ps)" using all assms(3) by (auto simp: X_def restrict_map_def split: if_splits)
  have "m = F ++ X"
  proof
    fix a show "m a = (F ++ X) a"
      using fun_cong [OF assms(6), of a] dom
      by (cases "a \<in> dom X") (auto simp: map_add_dom_app_simps X_def restrict_map_def domIff)
  qed
  moreover have "list_all2 (\<lambda>p s. p \<noteq> NULL \<and> (\<exists>n > length s. X p = Some (Bytes n s))) ps ss"
    using assms(5) unfolding list_all2_conv_all_nth by (simp add: X_def)
  then have "slots arr ss rest X" using assms(1,3,4) dom unfolding slots_def by (auto simp: X_def)
  moreover have "dom X \<inter> dom F = {}" using dom all assms(2) by auto
  moreover have "finite (dom X)" using dom by simp
  ultimately show ?thesis unfolding adds_def by blast
qed

lemma slot_text_adds:
  assumes "adds (slots arr ss rest) m F" "m \<subseteq>\<^sub>m m'" "i < length ss"
  shows "slot_text arr i m' = Some (ss ! i)"
proof -
  obtain ps where ps: "arr \<noteq> NULL" "m arr = Some (Pointers (map Some ps @ rest))"
      "list_all2 (\<lambda>p s. p \<noteq> NULL \<and> F p = None \<and> (\<exists>n > length s. m p = Some (Bytes n s))) ps ss"
    by (rule slotsE [OF assms(1)])
  then obtain n where n: "i < length ps" "ps ! i \<noteq> NULL" "length (ss ! i) < n" "m (ps ! i) = Some (Bytes n (ss ! i))"
    using assms(3) by (auto simp: list_all2_conv_all_nth)
  have "m' arr = Some (Pointers (map Some ps @ rest))" "m' (ps ! i) = Some (Bytes n (ss ! i))"
    using map_le_Some [OF assms(2)] ps(2) n(4) by simp_all
  then show ?thesis using ps(1) n by (simp add: slot_text_def get_slot_def text_at_def nth_append)
qed

text \<open>A string goes into the first free slot.\<close>

lemma set_slot_adds:
  assumes "adds (a_text p s) m G" "adds (slots arr ss (x # rest)) G F"
  shows "\<exists>m'. set_slot arr (length ss) p m = Some m' \<and> adds (slots arr (ss @ [s]) rest) m' F"
proof -
  obtain ps where ps: "arr \<noteq> NULL" "F arr = None" "G arr = Some (Pointers (map Some ps @ x # rest))" "distinct (arr # ps)"
      "list_all2 (\<lambda>p s. p \<noteq> NULL \<and> F p = None \<and> (\<exists>n > length s. G p = Some (Bytes n s))) ps ss"
      "G |` (- insert arr (set ps)) = F"
    by (rule slotsE [OF assms(2)])
  obtain n where p: "p \<noteq> NULL" "G p = None" "length s < n" "m = G(p \<mapsto> Bytes n s)" using assms(1) by (auto simp: adds_text)
  have len: "length ps = length ss" using ps(5) by (rule list_all2_lengthD)
  have "\<forall>q\<in>set ps. G q \<noteq> None" using ps(5) by (fastforce simp: list_all2_conv_all_nth in_set_conv_nth)
  then have new: "p \<notin> set ps" "p \<noteq> arr" using p(2) ps(3) by auto
  let ?m' = "m(arr \<mapsto> Pointers (map Some (ps @ [p]) @ rest))"
  have "set_slot arr (length ss) p m = Some ?m'"
    using ps(1,3) new len p(4) by (simp add: set_slot_def list_update_append)
  moreover have "adds (slots arr (ss @ [s]) rest) ?m' F"
  proof (rule slotsI [where ps = "ps @ [p]"])
    show "distinct (arr # ps @ [p])" using ps(4) new by simp
    have Fp: "F p = None" using fun_cong [OF ps(6), of p] p(2) by (simp add: restrict_map_def split: if_splits)
    show "list_all2 (\<lambda>p s. p \<noteq> NULL \<and> F p = None \<and> (\<exists>n > length s. ?m' p = Some (Bytes n s))) (ps @ [p]) (ss @ [s])"
    proof (rule list_all2_appendI)
      show "list_all2 (\<lambda>p s. p \<noteq> NULL \<and> F p = None \<and> (\<exists>n > length s. ?m' p = Some (Bytes n s))) ps ss"
        using ps(5) new ps(4) p(4) unfolding list_all2_conv_all_nth by (auto simp: in_set_conv_nth)
    qed (use Fp p new in auto)
    show "?m' |` (- insert arr (set (ps @ [p]))) = F"
      using ps(6) p(4) Fp by (auto simp: restrict_map_def fun_eq_iff split: if_splits)
  qed (use ps in simp_all)
  ultimately show ?thesis by blast
qed

lemma realloc_adds:
  assumes "allocator malloc" "finite (dom F)" "adds (texts arr ss) m F"
  shows "\<exists>q m'. realloc_slots malloc arr (length ss + 1) m = Some (q, m') \<and> q \<noteq> NULL \<and> adds (slots q ss [None]) m' F"
proof (cases "arr = NULL")
  case True
  then have e: "ss = []" "m = F" using assms(3) by (auto simp: adds_def texts_def slots_def)
  obtain q m' where q: "alloc malloc (Pointers [None]) m = (q, m')" "q \<noteq> NULL" "adds (a_block q (Pointers [None])) m' m"
    using alloc_adds [OF assms(1), of m "Pointers [None]"] assms(2) e by auto
  then have "adds (slots q [] [None]) m' F" using e by (auto elim!: adds_mono simp: a_block_def slots_def)
  then show ?thesis using True q e by (simp add: realloc_slots_def)
next
  case False
  then have "adds (slots arr ss []) m F" using assms(3) by (auto elim!: adds_mono simp: texts_def)
  then obtain ps where ps: "F arr = None" "m arr = Some (Pointers (map Some ps))" "distinct (arr # ps)"
      "list_all2 (\<lambda>p s. p \<noteq> NULL \<and> F p = None \<and> (\<exists>n > length s. m p = Some (Bytes n s))) ps ss"
      "m |` (- insert arr (set ps)) = F"
    by (rule slotsE) simp
  have len: "length ps = length ss" using ps(4) by (rule list_all2_lengthD)
  have "finite (dom (m(arr := None)))" using assms(2) adds_finite [OF assms(3)] by simp
  then obtain q m' where q: "alloc malloc (Pointers (map Some ps @ [None])) (m(arr := None)) = (q, m')" "q \<noteq> NULL"
      "(m(arr := None)) q = None" "m' = (m(arr := None))(q \<mapsto> Pointers (map Some ps @ [None]))"
    using alloc_adds [OF assms(1), of "m(arr := None)" "Pointers (map Some ps @ [None])"] by (auto simp: adds_block)
  have alive: "\<forall>r\<in>set ps. r \<noteq> arr \<and> m r \<noteq> None" using ps(3,4) by (fastforce simp: list_all2_conv_all_nth in_set_conv_nth)
  have new: "q \<notin> set ps"
  proof
    assume "q \<in> set ps"
    then have "q \<noteq> arr \<and> m q \<noteq> None" using alive by blast
    then show False using q(3) by simp
  qed
  have "adds (slots q ss [None]) m' F"
  proof (rule slotsI [where ps = ps])
    show "F q = None" using fun_cong [OF ps(5), of q] q(3) ps(1) new by (cases "q = arr") (auto simp: restrict_map_def)
    show "list_all2 (\<lambda>p s. p \<noteq> NULL \<and> F p = None \<and> (\<exists>n > length s. m' p = Some (Bytes n s))) ps ss"
      using ps(4)
    proof (rule list_all2_mono_elem)
      fix r s assume "r \<in> set ps" "r \<noteq> NULL \<and> F r = None \<and> (\<exists>n > length s. m r = Some (Bytes n s))"
      moreover from this have "r \<noteq> q" "r \<noteq> arr" using new alive by auto
      ultimately show "r \<noteq> NULL \<and> F r = None \<and> (\<exists>n > length s. m' r = Some (Bytes n s))" using q(4) by simp
    qed
    show "m' |` (- insert q (set ps)) = F"
    proof
      fix a show "(m' |` (- insert q (set ps))) a = F a"
        using fun_cong [OF ps(5), of a] ps(1) q(3,4) new by (cases "a = arr"; cases "a = q") (auto simp: restrict_map_def)
    qed
  qed (use q new ps(3) in simp_all)
  then show ?thesis using False ps(2) q(1,2) len by (simp add: realloc_slots_def)
qed

lemma free_slots_adds:
  assumes "m arr = Some (Pointers (map Some ps))" "arr \<noteq> NULL" "distinct (arr # ps)" "\<forall>p\<in>set (drop i ps). p \<noteq> NULL \<and> m p \<noteq> None"
  shows "free_slots arr (length ps) i m = Some (m |` (- set (drop i ps)))"
  using assms
proof (induction "length ps - i" arbitrary: i m)
  case 0
  then show ?case by (subst free_slots.simps) simp
next
  case (Suc n)
  then have i: "i < length ps" by simp
  then have d: "drop i ps = ps ! i # drop (i + 1) ps" by (simp add: Cons_nth_drop_Suc)
  then have p: "ps ! i \<noteq> NULL" "m (ps ! i) \<noteq> None" "ps ! i \<noteq> arr" using Suc.prems i by auto
  have nd: "ps ! i \<notin> set (drop (i + 1) ps)" using Suc.prems(3) d by (metis distinct.simps(2) distinct_drop)
  let ?m = "m(ps ! i := None)"
  have "free_slots arr (length ps) (i + 1) ?m = Some (?m |` (- set (drop (i + 1) ps)))"
    by (rule Suc.hyps(1)) (use Suc.hyps(2) Suc.prems p nd d in auto)
  moreover have "?m |` (- set (drop (i + 1) ps)) = m |` (- set (drop i ps))"
    unfolding d list.set by (rule restrict_free [OF nd])
  moreover have "free_block (ps ! i) m = Some ?m" using p by (auto simp: free_block_def)
  moreover have "get_slot arr i m = Some (ps ! i)" using Suc.prems(1,2) i by (simp add: get_slot_def)
  ultimately show ?case using i by (subst free_slots.simps) simp
qed

lemma free_split_adds:
  assumes "adds (texts arr ss) m F"
  shows "free_split_string arr (length ss) m = Some F"
proof (cases "arr = NULL")
  case True
  then show ?thesis using assms by (auto simp: free_split_string_def adds_def texts_def slots_def)
next
  case False
  then have "adds (slots arr ss []) m F" using assms by (auto elim!: adds_mono simp: texts_def)
  then obtain ps where ps: "m arr = Some (Pointers (map Some ps))" "distinct (arr # ps)"
      "list_all2 (\<lambda>p s. p \<noteq> NULL \<and> F p = None \<and> (\<exists>n > length s. m p = Some (Bytes n s))) ps ss"
      "m |` (- insert arr (set ps)) = F"
    by (rule slotsE) simp
  have "\<forall>p\<in>set (drop 0 ps). p \<noteq> NULL \<and> m p \<noteq> None"
    using ps(3) by (fastforce simp: list_all2_conv_all_nth in_set_conv_nth)
  then have "free_slots arr (length ss) 0 m = Some (m |` (- set ps))"
    using free_slots_adds [of m arr ps 0] ps(1,2) False list_all2_lengthD [OF ps(3)] by simp
  moreover have "free_block arr (m |` (- set ps)) = Some F"
  proof -
    have "(m |` (- set ps)) arr = Some (Pointers (map Some ps))" using ps(1,2) by simp
    moreover have "(m |` (- set ps))(arr := None) = F"
      unfolding ps(4) [symmetric] by (rule ext) (simp add: restrict_map_def)
    ultimately show ?thesis using False by (simp add: free_block_def)
  qed
  ultimately show ?thesis using False by (simp add: free_split_string_def)
qed

end
