(* ===== verification/Edit_Memory.thy ===== *)
theory Edit_Memory
  imports Text_Memory
begin

text \<open>
  The functions of \<open>Text_Memory\<close> do in memory what \<open>File_Parser\<close> and \<open>File_Ops\<close> say: splitters, joiners,
  one update, the queue of a session, the commit. Each lemma gives the strings the function returns and
  the memory it leaves: what was there before, and the result.
\<close>

section \<open>Splitters\<close>

lemma push_text_adds:
  assumes "allocator malloc" "finite (dom F)" "adds (texts arr ss) m F" "length s < n"
  shows "\<exists>arr' m'. push_text malloc n s (arr, length ss, m) = Some (arr', length (ss @ [s]), m') \<and>
    adds (texts arr' (ss @ [s])) m' F"
proof -
  obtain q m1 where 1: "realloc_slots malloc arr (length ss + 1) m = Some (q, m1)" "adds (slots q ss [None]) m1 F"
    using realloc_adds [OF assms(1-3)] by blast
  have "finite (dom m1)" using adds_finite [OF 1(2)] assms(2) by simp
  then obtain p m2 where 2: "copy_text malloc n s m1 = Some (p, m2)" "adds (a_text p s) m2 m1"
    using copy_text_adds [OF assms(1) _ assms(4)] by blast
  obtain m3 where 3: "set_slot q (length ss) p m2 = Some m3" "adds (slots q (ss @ [s]) []) m3 F"
    using set_slot_adds [OF 2(2) 1(2)] by blast
  from 3(2) have "adds (texts q (ss @ [s])) m3 F" by (elim adds_mono) (simp add: texts_def)
  then show ?thesis using 1 2 3 by (simp add: push_text_def)
qed

lemma push_substr_adds:
  assumes "allocator malloc" "finite (dom F)" "adds (texts arr ss) m F"
  shows "\<exists>arr' m'. push_text malloc (n + 1) (substr s start n) (arr, length ss, m) =
      Some (arr', length (ss @ [substr s start n]), m') \<and> adds (texts arr' (ss @ [substr s start n])) m' F"
  using assms by (rule push_text_adds) (simp add: substr_def)

lemma sis_loop_adds:
  assumes "allocator malloc" "finite (dom F)"
  shows "adds (texts arr ss) m F \<Longrightarrow> sis_loop content start p ss = (start', p', ss') \<Longrightarrow>
    \<exists>arr' m'. sis_loop_mem malloc content start p (arr, length ss, m) = Some (start', p', arr', length ss', m') \<and>
      adds (texts arr' ss') m' F"
proof (induction content start p ss arbitrary: arr m rule: sis_loop.induct)
  case (1 content start p sents)
  consider "\<not> p < length content" | "p < length content" "is_delimiter (content ! p)"
    | "p < length content" "\<not> is_delimiter (content ! p)" by blast
  then show ?case
  proof cases
    case 1
    then show ?thesis using "1.prems" by (subst sis_loop_mem.simps) (auto simp: sis_loop.simps)
  next
    case 2
    let ?s = "substr content start (p - start + 1)"
    obtain arr1 m1 where push: "push_text malloc (p - start + 1 + 1) ?s (arr, length sents, m) =
        Some (arr1, length (sents @ [?s]), m1)" "adds (texts arr1 (sents @ [?s])) m1 F"
      using push_substr_adds [OF assms "1.prems"(1)] by blast
    have "sis_loop content (skip_spaces content (p + 1)) (p + 1) (sents @ [?s]) = (start', p', ss')"
      using "1.prems"(2) 2 by (simp add: sis_loop.simps [of content start])
    then obtain arr' m' where "sis_loop_mem malloc content (skip_spaces content (p + 1)) (p + 1) (arr1, length (sents @ [?s]), m1) =
        Some (start', p', arr', length ss', m')" "adds (texts arr' ss') m' F"
      using "1.IH"(1) [OF 2 push(2)] by blast
    then show ?thesis using 2 push(1) by (subst sis_loop_mem.simps) (simp add: Let_def)
  next
    case 3
    then have "sis_loop content start (p + 1) sents = (start', p', ss')"
      using "1.prems"(2) by (simp add: sis_loop.simps [of content start])
    then show ?thesis using "1.IH"(2) [OF 3 "1.prems"(1)] 3 by (subst sis_loop_mem.simps) simp
  qed
qed

lemma split_sentences_adds:
  assumes "allocator malloc" "finite (dom m)"
  shows "\<exists>arr m'. split_into_sentences_mem malloc content m = Some (arr, length (split_into_sentences content), m') \<and>
    adds (texts arr (split_into_sentences content)) m' m"
proof -
  obtain start p ss where loop: "sis_loop content 0 0 [] = (start, p, ss)" by (metis prod.exhaust)
  obtain arr1 m1 where 1: "sis_loop_mem malloc content 0 0 (NULL, 0, m) = Some (start, p, arr1, length ss, m1)"
      "adds (texts arr1 ss) m1 m"
    using sis_loop_adds [OF assms(1,2) _ loop, of NULL m] by (auto simp: adds_no_texts)
  let ?s = "substr content start (p - start)"
  obtain arr2 m2 where 2: "push_text malloc (p - start + 1) ?s (arr1, length ss, m1) = Some (arr2, length (ss @ [?s]), m2)"
      "adds (texts arr2 (ss @ [?s])) m2 m"
    using push_substr_adds [OF assms 1(2)] by blast
  show ?thesis using 1 2 loop by (simp add: split_into_sentences_mem_def split_into_sentences_def Let_def)
qed

lemma siw_loop_adds:
  assumes "allocator malloc" "finite (dom F)"
  shows "adds (texts arr ws) m F \<Longrightarrow> siw_loop s start p in_word ws = (start', p', in_word', ws') \<Longrightarrow>
    \<exists>arr' m'. siw_loop_mem malloc s start p in_word (arr, length ws, m) =
        Some (start', p', in_word', arr', length ws', m') \<and> adds (texts arr' ws') m' F"
proof (induction s start p in_word ws arbitrary: arr m rule: siw_loop.induct)
  case (1 s start p in_word ws)
  let ?w = "substr s start (p - start)"
  let ?ws = "if in_word then ws @ [?w] else ws"
  obtain arr1 m1 where push: "(if in_word then push_text malloc (p - start + 1) ?w (arr, length ws, m)
      else Some (arr, length ws, m)) = Some (arr1, length ?ws, m1)" "adds (texts arr1 ?ws) m1 F"
  proof (cases in_word)
    case True
    obtain arr1 m1 where "push_text malloc (p - start + 1) ?w (arr, length ws, m) = Some (arr1, length (ws @ [?w]), m1)"
        "adds (texts arr1 (ws @ [?w])) m1 F"
      using push_substr_adds [OF assms "1.prems"(1)] by blast
    then show ?thesis using that True by simp
  qed (use that "1.prems"(1) in simp)
  consider "\<not> p < length s" | "p < length s" "isspace (s ! p)"
    | "p < length s" "\<not> isspace (s ! p)" "is_delimiter (s ! p)"
    | "p < length s" "\<not> isspace (s ! p)" "\<not> is_delimiter (s ! p)" by blast
  then show ?case
  proof cases
    case 1
    then show ?thesis using "1.prems" by (subst siw_loop_mem.simps) (auto simp: siw_loop.simps)
  next
    case 2
    then have "siw_loop s (p + 1) (p + 1) False ?ws = (start', p', in_word', ws')"
      using "1.prems"(2) by (simp add: siw_loop.simps [of s start])
    then obtain arr' m' where "siw_loop_mem malloc s (p + 1) (p + 1) False (arr1, length ?ws, m1) =
        Some (start', p', in_word', arr', length ws', m')" "adds (texts arr' ws') m' F"
      using "1.IH"(1) [OF 2 push(2)] by blast
    then show ?thesis using 2 push(1) by (subst siw_loop_mem.simps) simp
  next
    case 3
    obtain arr2 m2 where d: "push_text malloc 2 [s ! p] (arr1, length ?ws, m1) = Some (arr2, length (?ws @ [[s ! p]]), m2)"
        "adds (texts arr2 (?ws @ [[s ! p]])) m2 F"
      using push_text_adds [OF assms push(2), of "[s ! p]" 2] by auto
    have "siw_loop s (p + 1) (p + 1) False (?ws @ [[s ! p]]) = (start', p', in_word', ws')"
      using "1.prems"(2) 3 by (simp add: siw_loop.simps [of s start])
    then obtain arr' m' where "siw_loop_mem malloc s (p + 1) (p + 1) False (arr2, length (?ws @ [[s ! p]]), m2) =
        Some (start', p', in_word', arr', length ws', m')" "adds (texts arr' ws') m' F"
      using "1.IH"(2) [OF 3 d(2)] by blast
    then show ?thesis using 3 push(1) d(1) by (subst siw_loop_mem.simps) simp
  next
    case 4
    then have "siw_loop s start (p + 1) True ws = (start', p', in_word', ws')"
      using "1.prems"(2) by (simp add: siw_loop.simps [of s start])
    then show ?thesis using "1.IH"(3) [OF 4 "1.prems"(1)] 4 by (subst siw_loop_mem.simps) simp
  qed
qed

lemma split_words_adds:
  assumes "allocator malloc" "finite (dom m)"
  shows "\<exists>arr m'. split_into_words_mem malloc s m = Some (arr, length (split_into_words s), m') \<and>
    adds (texts arr (split_into_words s)) m' m"
proof -
  obtain start p in_word ws where loop: "siw_loop s 0 0 False [] = (start, p, in_word, ws)" by (metis prod.exhaust)
  obtain arr1 m1 where 1: "siw_loop_mem malloc s 0 0 False (NULL, 0, m) = Some (start, p, in_word, arr1, length ws, m1)"
      "adds (texts arr1 ws) m1 m"
    using siw_loop_adds [OF assms(1,2) _ loop, of NULL m] by (auto simp: adds_no_texts)
  let ?w = "substr s start (p - start)"
  obtain arr2 m2 where 2: "push_text malloc (p - start + 1) ?w (arr1, length ws, m1) = Some (arr2, length (ws @ [?w]), m2)"
      "adds (texts arr2 (ws @ [?w])) m2 m"
    using push_substr_adds [OF assms 1(2)] by blast
  show ?thesis using 1 2 loop by (simp add: split_into_words_mem_def split_into_words_def)
qed

lemma split_loop_adds:
  assumes "allocator malloc" "finite (dom F)"
  shows "adds (texts arr ss) m G \<Longrightarrow> adds (a_text copy str) G F \<Longrightarrow>
    \<exists>arr' m'. split_loop_mem malloc delim copy s arr (length ss) m = Some (arr', length (ss @ split_string delim s), m') \<and>
      adds (texts arr' (ss @ split_string delim s)) m' F"
proof (induction delim s arbitrary: arr ss m G rule: split_string.induct)
  case (1 delim s)
  let ?s = "dropWhile (\<lambda>c. c \<in> set delim) s"
  show ?case
  proof (cases "?s = []")
    case True
    obtain G' where G': "adds (a_text copy str) m G'" "adds (texts arr ss) G' F" using adds_swap [OF "1.prems"] by blast
    then show ?thesis using True free_text [OF G'(1)]
      by (subst split_loop_mem.simps) (simp add: split_string.simps [of delim s] Let_def)
  next
    case False
    let ?t = "takeWhile (\<lambda>c. c \<notin> set delim) ?s" let ?r = "drop 1 (dropWhile (\<lambda>c. c \<notin> set delim) ?s)"
    have fin: "finite (dom G)" using adds_finite [OF "1.prems"(2)] assms(2) by simp
    obtain q m1 where 1: "realloc_slots malloc arr (length ss + 1) m = Some (q, m1)" "q \<noteq> NULL" "adds (slots q ss [None]) m1 G"
      using realloc_adds [OF assms(1) fin "1.prems"(1)] by blast
    have "finite (dom m1)" using adds_finite [OF 1(3)] fin by simp
    then obtain t m2 where 2: "strdup malloc ?t m1 = (t, m2)" "adds (a_text t ?t) m2 m1"
      using strdup_adds [OF assms(1)] by blast
    obtain m3 where 3: "set_slot q (length ss) t m2 = Some m3" "adds (slots q (ss @ [?t]) []) m3 G"
      using set_slot_adds [OF 2(2) 1(3)] by blast
    from 3(2) have "adds (texts q (ss @ [?t])) m3 G" by (elim adds_mono) (simp add: texts_def)
    then obtain arr' m' where "split_loop_mem malloc delim copy ?r q (length (ss @ [?t])) m3 =
        Some (arr', length ((ss @ [?t]) @ split_string delim ?r), m')"
      "adds (texts arr' ((ss @ [?t]) @ split_string delim ?r)) m' F"
      using "1.IH" [OF refl False _ "1.prems"(2)] by blast
    moreover have "ss @ split_string delim s = (ss @ [?t]) @ split_string delim ?r"
      using False by (simp add: split_string.simps [of delim s] Let_def)
    ultimately show ?thesis using False 1 2 3 by (subst split_loop_mem.simps) (auto simp: Let_def)
  qed
qed

lemma split_string_adds:
  assumes "allocator malloc" "finite (dom m)"
  shows "\<exists>arr m'. split_string_mem malloc delim s m = Some (arr, length (split_string delim s), m') \<and>
    adds (texts arr (split_string delim s)) m' m"
proof -
  obtain copy m1 where 1: "strdup malloc s m = (copy, m1)" "copy \<noteq> NULL" "adds (a_text copy s) m1 m"
    using strdup_adds [OF assms] by blast
  then show ?thesis using split_loop_adds [OF assms(1,2), of NULL "[]" m1 m1 copy s delim s]
    by (auto simp: adds_no_texts split_string_mem_def)
qed

section \<open>Joiners\<close>

lemma texts_read:
  assumes "adds (texts arr ss) m F" "m \<subseteq>\<^sub>m m'" "i < length ss"
  shows "slot_text arr i m' = Some (ss ! i)"
proof -
  have "ss \<noteq> []" using assms(3) by auto
  then have "adds (slots arr ss []) m F" using assms(1) by (auto elim!: adds_mono simp: texts_def)
  then show ?thesis using assms(2,3) by (rule slot_text_adds)
qed

lemma total_len_adds:
  assumes "adds (texts arr ss) m F"
  shows "total_len_mem arr (length ss) i len m = Some (len + total_len (drop i ss))"
proof (induction "length ss - i" arbitrary: i len)
  case 0
  then show ?case by (subst total_len_mem.simps) (simp add: total_len_def)
next
  case (Suc n)
  then have i: "i < length ss" by simp
  have "total_len_mem arr (length ss) (i + 1) (len + (length (ss ! i) + 1)) m =
      Some (len + (length (ss ! i) + 1) + total_len (drop (i + 1) ss))"
    using Suc.hyps(2) by (intro Suc.hyps(1)) simp
  moreover have "total_len (drop i ss) = length (ss ! i) + 1 + total_len (drop (i + 1) ss)"
    using Cons_nth_drop_Suc [OF i] by (simp add: total_len_def flip: Cons_nth_drop_Suc [OF i])
  ultimately show ?case using texts_read [OF assms map_le_refl i] i by (subst total_len_mem.simps) simp
qed

fun join_by :: "(string \<Rightarrow> bool) \<Rightarrow> string list \<Rightarrow> string" where
  "join_by sep [] = []"
| "join_by sep [w] = w"
| "join_by sep (w # v # ws) = w @ (if sep v then '' '' else []) @ join_by sep (v # ws)"

lemma join_words_by: "join_words ws = join_by (\<lambda>v. \<not> is_delimiter (first_char v)) ws"
  by (induction ws rule: join_words.induct) simp_all

lemma join_sentences_by: "join_sentences ss = join_by (\<lambda>v. first_char v \<noteq> CHR '' '') ss"
  by (induction ss rule: join_sentences.induct) simp_all

lemma strcat_adds:
  assumes "adds (a_block p (Bytes n d)) m G" "length (d @ s) < n"
  shows "\<exists>m'. strcat_at p s m = Some m' \<and> adds (a_block p (Bytes n (d @ s))) m' G"
  using assms by (auto simp: adds_block strcat_at_def C_Strings.strcat_def)

lemma join_loop_adds:
  assumes "adds (texts arr ss) G F"
  shows "adds (a_block out (Bytes n d)) m G \<Longrightarrow> length (d @ join_by sep (drop i ss)) < n \<Longrightarrow>
    \<exists>m'. join_loop_mem sep arr (length ss) out i m = Some m' \<and>
      adds (a_block out (Bytes n (d @ join_by sep (drop i ss)))) m' G"
proof (induction "length ss - i" arbitrary: i d m)
  case 0
  then show ?case by (subst join_loop_mem.simps) simp
next
  case (Suc k)
  then have i: "i < length ss" by simp
  have d: "drop i ss = ss ! i # drop (i + 1) ss" using Cons_nth_drop_Suc [OF i] by simp
  have read: "\<And>j m'. j < length ss \<Longrightarrow> adds (a_block out b) m' G \<Longrightarrow> slot_text arr j m' = Some (ss ! j)" for b
    using texts_read [OF assms adds_le] .
  show ?case
  proof (cases "i < length ss - 1")
    case False
    then have last: "drop (i + 1) ss = []" by simp
    obtain m1 where 1: "strcat_at out (ss ! i) m = Some m1" "adds (a_block out (Bytes n (d @ ss ! i))) m1 G"
      using strcat_adds [OF Suc.prems(1)] Suc.prems(2) d last by auto
    have "join_loop_mem sep arr (length ss) out (i + 1) m1 = Some m1"
      using last by (subst join_loop_mem.simps) simp
    then show ?thesis using 1 read [OF i Suc.prems(1)] i False d last by (subst join_loop_mem.simps) simp
  next
    case True
    let ?v = "ss ! (i + 1)" let ?b = "if sep ?v then '' '' else []"
    have d': "drop (i + 1) ss = ?v # drop (i + 2) ss" using Cons_nth_drop_Suc [of "i + 1" ss] True by simp
    have joined: "join_by sep (drop i ss) = ss ! i @ ?b @ join_by sep (drop (i + 1) ss)" unfolding d d' by simp
    obtain m1 where 1: "strcat_at out (ss ! i) m = Some m1" "adds (a_block out (Bytes n (d @ ss ! i))) m1 G"
      using strcat_adds [OF Suc.prems(1), of "ss ! i"] Suc.prems(2) joined by auto
    obtain m2 where 2: "(if sep ?v then strcat_at out '' '' m1 else Some m1) = Some m2"
        "adds (a_block out (Bytes n (d @ ss ! i @ ?b))) m2 G"
      using strcat_adds [OF 1(2), of "'' ''"] Suc.prems(2) joined 1(2) by (cases "sep ?v") auto
    have "\<exists>m'. join_loop_mem sep arr (length ss) out (i + 1) m2 = Some m' \<and>
        adds (a_block out (Bytes n ((d @ ss ! i @ ?b) @ join_by sep (drop (i + 1) ss)))) m' G"
      by (rule Suc.hyps(1)) (use Suc.hyps(2) Suc.prems(2) 2(2) joined in simp_all)
    then obtain m' where m': "join_loop_mem sep arr (length ss) out (i + 1) m2 = Some m'"
        "adds (a_block out (Bytes n (d @ join_by sep (drop i ss)))) m' G"
      unfolding joined by auto
    have "slot_text arr (i + 1) m1 = Some ?v" using read [of "i + 1" "Bytes n (d @ ss ! i)" m1] 1(2) True by simp
    then show ?thesis using 1(1) 2(1) m' read [OF i Suc.prems(1)] i True by (subst join_loop_mem.simps) simp
  qed
qed

lemma join_mem_adds:
  assumes "allocator malloc" "finite (dom G)" "adds (texts arr ss) G F" "length (join_by sep ss) < n"
  shows "\<exists>p m1 m'. alloc malloc (Bytes n []) G = (p, m1) \<and> join_loop_mem sep arr (length ss) p 0 m1 = Some m' \<and>
    adds (a_text p (join_by sep ss)) m' G"
proof -
  obtain p m1 where 1: "alloc malloc (Bytes n []) G = (p, m1)" "adds (a_block p (Bytes n [])) m1 G"
    using alloc_adds [OF assms(1,2)] by blast
  obtain m' where "join_loop_mem sep arr (length ss) p 0 m1 = Some m'" "adds (a_block p (Bytes n (join_by sep ss))) m' G"
    using join_loop_adds [OF assms(3) 1(2), of sep 0] assms(4) by auto
  moreover from this(2) have "adds (a_text p (join_by sep ss)) m' G"
    using assms(4) by (auto simp: adds_block adds_text)
  ultimately show ?thesis using 1(1) by blast
qed

lemma join_words_adds:
  assumes "allocator malloc" "finite (dom G)" "adds (texts arr ws) G F"
  shows "\<exists>p m'. join_words_mem malloc arr (length ws) G = Some (p, m') \<and> adds (a_text p (join_words ws)) m' G"
proof (cases ws)
  case Nil
  then show ?thesis using strdup_adds [OF assms(1,2), of "[]"] by (auto simp: join_words_mem_def)
next
  case (Cons w ws')
  have "length (join_words ws) < total_len ws + 1" using length_join_words [of w ws'] Cons by simp
  then show ?thesis using join_mem_adds [OF assms] total_len_adds [OF assms(3), of 0 0] Cons
    unfolding join_words_by by (fastforce simp: join_words_mem_def)
qed

lemma join_sentences_adds:
  assumes "allocator malloc" "finite (dom G)" "adds (texts arr ss) G F"
  shows "\<exists>p m'. join_sentences_mem malloc arr (length ss) G = Some (p, m') \<and> adds (a_text p (join_sentences ss)) m' G"
proof (cases ss)
  case Nil
  then show ?thesis using strdup_adds [OF assms(1,2), of "[]"] by (auto simp: join_sentences_mem_def)
next
  case (Cons s ss')
  have "length (join_sentences ss) < total_len ss" using length_join_sentences [of s ss'] Cons by simp
  then show ?thesis using join_mem_adds [OF assms] total_len_adds [OF assms(3), of 0 0] Cons
    unfolding join_sentences_by by (fastforce simp: join_sentences_mem_def)
qed

section \<open>One update\<close>

lemma copy_slots_adds:
  assumes "allocator malloc" "\<And>i m'. i < length ws \<Longrightarrow> G \<subseteq>\<^sub>m m' \<Longrightarrow> slot_text arr i m' = Some (ws ! i)"
    and "finite (dom G)" "j \<le> length ws" "i \<le> j"
  shows "adds (slots final done (replicate (j - i + r) (Some NULL))) m G \<Longrightarrow>
    \<exists>m'. copy_slots malloc arr i j final (length done, m) = Some (length done + (j - i), m') \<and>
      adds (slots final (done @ take (j - i) (drop i ws)) (replicate r (Some NULL))) m' G"
  using assms(5)
proof (induction "j - i" arbitrary: i "done" m)
  case 0
  then show ?case by (subst copy_slots.simps) simp
next
  case (Suc n)
  then have i: "i < j" "i < length ws" using assms(4) by simp_all
  have read: "slot_text arr i m = Some (ws ! i)" using assms(2) [OF i(2) adds_le [OF Suc.prems(1)]] .
  have "finite (dom m)" using adds_finite [OF Suc.prems(1)] assms(3) by simp
  then obtain p m1 where 1: "strdup malloc (ws ! i) m = (p, m1)" "adds (a_text p (ws ! i)) m1 m"
    using strdup_adds [OF assms(1)] by blast
  have rep: "replicate (j - i + r) (Some NULL) = Some NULL # replicate (j - (i + 1) + r) (Some NULL)"
    using i(1) by (cases "j - i") simp_all
  obtain m2 where 2: "set_slot final (length done) p m1 = Some m2"
      "adds (slots final (done @ [ws ! i]) (replicate (j - (i + 1) + r) (Some NULL))) m2 G"
    using set_slot_adds [OF 1(2) Suc.prems(1) [unfolded rep]] by blast
  have "\<exists>m'. copy_slots malloc arr (i + 1) j final (length (done @ [ws ! i]), m2) =
        Some (length (done @ [ws ! i]) + (j - (i + 1)), m') \<and>
      adds (slots final ((done @ [ws ! i]) @ take (j - (i + 1)) (drop (i + 1) ws)) (replicate r (Some NULL))) m' G"
    by (rule Suc.hyps(1)) (use Suc.hyps(2) i 2(2) in simp_all)
  moreover have "take (j - i) (drop i ws) = ws ! i # take (j - (i + 1)) (drop (i + 1) ws)"
  proof -
    have "j - i = Suc (j - (i + 1))" using i(1) by simp
    then show ?thesis using Cons_nth_drop_Suc [OF i(2)] by (metis Suc_eq_plus1 take_Suc_Cons)
  qed
  ultimately show ?case using i read 1(1) 2(1) by (subst copy_slots.simps) (auto simp: Let_def)
qed

text \<open>An element is freed and another string takes its slot.\<close>

lemma replace_slot_adds:
  assumes "adds (a_text p s) m G" "adds (texts arr ss) G F" "i < length ss"
  shows "\<exists>old m1 m2. get_slot arr i m = Some old \<and> free_block old m = Some m1 \<and> set_slot arr i p m1 = Some m2 \<and>
    adds (texts arr (ss[i := s])) m2 F"
proof -
  have "ss \<noteq> []" using assms(3) by auto
  then have "adds (slots arr ss []) G F" using assms(2) by (auto elim!: adds_mono simp: texts_def)
  then obtain ps where ps: "arr \<noteq> NULL" "F arr = None" "G arr = Some (Pointers (map Some ps))" "distinct (arr # ps)"
      "list_all2 (\<lambda>p s. p \<noteq> NULL \<and> F p = None \<and> (\<exists>n > length s. G p = Some (Bytes n s))) ps ss"
      "G |` (- insert arr (set ps)) = F"
    by (rule slotsE) simp
  obtain n where p: "p \<noteq> NULL" "G p = None" "length s < n" "m = G(p \<mapsto> Bytes n s)" using assms(1) by (auto simp: adds_text)
  have len: "length ps = length ss" using ps(5) by (rule list_all2_lengthD)
  have "\<forall>q\<in>set ps. G q \<noteq> None" using ps(5) by (fastforce simp: list_all2_conv_all_nth in_set_conv_nth)
  then have new: "p \<notin> set ps" "p \<noteq> arr" using p(2) ps(3) by auto
  let ?old = "ps ! i" let ?m1 = "m(?old := None)" let ?ps = "ps[i := p]"
  have old: "?old \<noteq> NULL" "F ?old = None" "G ?old \<noteq> None" "?old \<in> set ps" "?old \<noteq> arr" "?old \<noteq> p"
    using ps(4,5) new assms(3) len by (auto simp: list_all2_conv_all_nth in_set_conv_nth)
  have Fp: "F p = None" using fun_cong [OF ps(6), of p] p(2) by (simp add: restrict_map_def split: if_splits)
  let ?m2 = "?m1(arr \<mapsto> Pointers (map Some ?ps @ []))"
  have steps: "get_slot arr i m = Some ?old" "free_block ?old m = Some ?m1" "set_slot arr i p ?m1 = Some ?m2"
    using ps(1,3) new p old len assms(3) by (auto simp: get_slot_def free_block_def set_slot_def map_update)
  have "adds (slots arr (ss[i := s]) []) ?m2 F"
  proof (rule slotsI [where ps = ?ps])
    show "distinct (arr # ?ps)" using ps(4) new assms(3) len
      by (auto simp: distinct_list_update dest: set_update_subset_insert [THEN subsetD])
    show "list_all2 (\<lambda>p s. p \<noteq> NULL \<and> F p = None \<and> (\<exists>n > length s. ?m2 p = Some (Bytes n s))) ?ps (ss[i := s])"
      unfolding list_all2_conv_all_nth
    proof (intro conjI allI impI)
      fix j assume j: "j < length ?ps"
      have "j \<noteq> i \<Longrightarrow> ps ! j \<noteq> ?old" using ps(4) j assms(3) len by (simp add: nth_eq_iff_index_eq)
      moreover have "ps ! j \<noteq> arr" "ps ! j \<noteq> p" using ps(4) new j by auto
      ultimately show "\<exists>n > length (ss[i := s] ! j). ?m2 (?ps ! j) = Some (Bytes n (ss[i := s] ! j))"
        and "?ps ! j \<noteq> NULL" and "F (?ps ! j) = None"
        using j len p new Fp old ps(5) assms(3) by (cases "j = i"; auto simp: list_all2_conv_all_nth)+
    qed (simp add: len)
    show "?m2 |` (- insert arr (set ?ps)) = F"
    proof
      fix a
      have "set ?ps = insert p (set ps - {?old})"
        using set_update_distinct [of ps i p] ps(4) assms(3) len by simp
      moreover have "a = arr \<or> a \<in> set ps \<Longrightarrow> F a = None" "a \<noteq> arr \<Longrightarrow> a \<notin> set ps \<Longrightarrow> F a = G a"
        using fun_cong [OF ps(6), of a] by (auto simp: restrict_map_def)
      moreover have "a \<noteq> arr \<Longrightarrow> a \<noteq> ?old \<Longrightarrow> a \<noteq> p \<Longrightarrow> ?m2 a = G a" "?m2 ?old = None" using p(4) old(5) by simp_all
      ultimately show "(?m2 |` (- insert arr (set ?ps))) a = F a"
        using Fp old(2) by (cases "a = arr"; cases "a = p"; cases "a = ?old"; cases "a \<in> set ps") (simp_all add: restrict_map_def)
    qed
  qed (use ps in simp_all)
  then have "adds (texts arr (ss[i := s])) ?m2 F" by (elim adds_mono) (simp add: texts_def)
  then show ?thesis using steps by blast
qed

lemma edit_words_adds:
  assumes "allocator malloc" "finite (dom F)" "adds (texts wa ws) m G" "adds (texts sa ss) G F"
    and "word_idx \<le> length ws" "sent < length ss" "\<And>m'. F \<subseteq>\<^sub>m m' \<Longrightarrow> text_at new_content m' = Some t"
  shows "\<exists>m'. edit_words_mem malloc wa (length ws) new_content word_idx sa sent m = Some m' \<and>
    adds (texts sa (ss[sent := join_words (take word_idx ws @ split_string '' '' t @ drop word_idx ws)])) m' F"
proof -
  let ?nw = "split_string '' '' t" let ?c = "length ws" let ?final = "take word_idx ws @ ?nw @ drop word_idx ws"
  have fin: "finite (dom G)" "finite (dom m)" using assms(2) adds_finite [OF assms(3)] adds_finite [OF assms(4)] by simp_all
  have "F \<subseteq>\<^sub>m m" using adds_le [OF assms(4)] adds_le [OF assms(3)] by (rule map_le_trans)
  then have new: "text_at new_content m = Some t" by (rule assms(7))
  obtain na m1 where 1: "split_string_mem malloc '' '' t m = Some (na, length ?nw, m1)" "adds (texts na ?nw) m1 m"
    using split_string_adds [OF assms(1) fin(2)] by blast
  have fin1: "finite (dom m1)" using adds_finite [OF 1(2)] fin(2) by simp
  let ?new = "Pointers (replicate (?c + length ?nw) (Some NULL))"
  obtain f m2 where 2: "alloc malloc ?new m1 = (f, m2)" "adds (a_block f ?new) m2 m1"
    using alloc_adds [OF assms(1) fin1] by blast
  from 2(2) have s0: "adds (slots f [] (replicate (word_idx - 0 + (?c + length ?nw - word_idx)) (Some NULL))) m2 m1"
    using assms(5) by (auto elim!: adds_mono simp: a_block_def slots_def)
  have readw: "\<And>i m'. i < length ws \<Longrightarrow> m1 \<subseteq>\<^sub>m m' \<Longrightarrow> slot_text wa i m' = Some (ws ! i)"
    using texts_read [OF assms(3)] adds_le [OF 1(2)] map_le_trans by blast
  have readn: "\<And>i m'. i < length ?nw \<Longrightarrow> m1 \<subseteq>\<^sub>m m' \<Longrightarrow> slot_text na i m' = Some (?nw ! i)"
    using texts_read [OF 1(2)] by blast
  obtain m3 where 3: "copy_slots malloc wa 0 word_idx f (0, m2) = Some (word_idx, m3)"
      "adds (slots f (take word_idx ws) (replicate (length ?nw - 0 + (?c - word_idx)) (Some NULL))) m3 m1"
    using copy_slots_adds [OF assms(1) readw fin1 assms(5) _ s0] assms(5) by (auto simp: add.commute)
  obtain m4 where 4: "copy_slots malloc na 0 (length ?nw) f (word_idx, m3) = Some (word_idx + length ?nw, m4)"
      "adds (slots f (take word_idx ws @ ?nw) (replicate (?c - word_idx + 0) (Some NULL))) m4 m1"
    using copy_slots_adds [OF assms(1) readn fin1 _ _ 3(2)] assms(5) by auto
  obtain m5 where 5: "copy_slots malloc wa word_idx ?c f (word_idx + length ?nw, m4) = Some (length ?final, m5)"
      "adds (slots f ?final []) m5 m1"
    using copy_slots_adds [OF assms(1) readw fin1 _ assms(5) 4(2)] assms(5) by auto
  from 5(2) have t5: "adds (texts f ?final) m5 m1" by (elim adds_mono) (simp add: texts_def)
  obtain G1 where G1: "adds (texts wa ws) m1 G1" "adds (texts na ?nw) G1 G" using adds_swap [OF 1(2) assms(3)] by blast
  obtain m6 where 6: "adds (texts wa ws) m5 m6" "adds (texts f ?final) m6 G1" using adds_swap [OF t5 G1(1)] by blast
  obtain m7 where 7: "adds (texts na ?nw) m6 m7" "adds (texts f ?final) m7 G" using adds_swap [OF 6(2) G1(2)] by blast
  have "finite (dom m7)" using adds_finite [OF 7(2)] fin(1) by simp
  then obtain s m8 where 8: "join_words_mem malloc f (length ?final) m7 = Some (s, m8)" "adds (a_text s (join_words ?final)) m8 m7"
    using join_words_adds [OF assms(1) _ 7(2)] by blast
  obtain m9 where 9: "adds (texts f ?final) m8 m9" "adds (a_text s (join_words ?final)) m9 G"
    using adds_swap [OF 8(2) 7(2)] by blast
  obtain old m10 m' where 10: "get_slot sa sent m9 = Some old" "free_block old m9 = Some m10" "set_slot sa sent s m10 = Some m'"
      "adds (texts sa (ss[sent := join_words ?final])) m' F"
    using replace_slot_adds [OF 9(2) assms(4,6)] by blast
  have "edit_words_mem malloc wa ?c new_content word_idx sa sent m = Some m'"
    using new 1(1) 2(1) 3(1) 4(1) 5(1) free_split_adds [OF 6(1)] free_split_adds [OF 7(1)] 8(1)
      free_split_adds [OF 9(1)] 10(1-3)
    by (simp add: edit_words_mem_def)
  then show ?thesis using 10(4) by blast
qed

lemma rerender_adds:
  assumes "allocator malloc" "finite (dom F)" "adds (texts sa ss) m F"
  shows "\<exists>p m'. rerender_mem malloc sa (length ss) m = Some (p, m') \<and>
    adds (a_text p (join_sentences (split_into_sentences (join_sentences ss)))) m' F"
proof -
  let ?c = "join_sentences ss" let ?fs = "split_into_sentences ?c"
  have "finite (dom m)" using adds_finite [OF assms(3)] assms(2) by simp
  then obtain c m1 where 1: "join_sentences_mem malloc sa (length ss) m = Some (c, m1)" "adds (a_text c ?c) m1 m"
    using join_sentences_adds [OF assms(1) _ assms(3)] by blast
  obtain m2 where 2: "adds (texts sa ss) m1 m2" "adds (a_text c ?c) m2 F" using adds_swap [OF 1(2) assms(3)] by blast
  have "finite (dom m2)" using adds_finite [OF 2(2)] assms(2) by simp
  then obtain fa m3 where 3: "split_into_sentences_mem malloc ?c m2 = Some (fa, length ?fs, m3)" "adds (texts fa ?fs) m3 m2"
    using split_sentences_adds [OF assms(1)] by blast
  obtain m4 where 4: "adds (a_text c ?c) m3 m4" "adds (texts fa ?fs) m4 F" using adds_swap [OF 3(2) 2(2)] by blast
  have "finite (dom m4)" using adds_finite [OF 4(2)] assms(2) by simp
  then obtain r m5 where 5: "join_sentences_mem malloc fa (length ?fs) m4 = Some (r, m5)"
      "adds (a_text r (join_sentences ?fs)) m5 m4"
    using join_sentences_adds [OF assms(1) _ 4(2)] by blast
  obtain m' where 6: "adds (texts fa ?fs) m5 m'" "adds (a_text r (join_sentences ?fs)) m' F"
    using adds_swap [OF 5(2) 4(2)] by blast
  have "rerender_mem malloc sa (length ss) m = Some (r, m')"
    using 1(1) free_split_adds [OF 2(1)] text_at_adds [OF 2(2) map_le_refl] 3(1) free_text [OF 4(1)] 5(1) free_split_adds [OF 6(1)]
    by (simp add: rerender_mem_def)
  then show ?thesis using 6(2) by blast
qed

lemma append_sentence_adds:
  assumes "allocator malloc" "finite (dom F)" "adds (texts arr ss) m F"
  shows "\<exists>q m1 p m2 m'. realloc_slots malloc arr (length ss + 1) m = Some (q, m1) \<and> strdup malloc [] m1 = (p, m2) \<and>
    set_slot q (length ss) p m2 = Some m' \<and> adds (texts q (ss @ [[]])) m' F"
proof -
  obtain q m1 where 1: "realloc_slots malloc arr (length ss + 1) m = Some (q, m1)" "adds (slots q ss [None]) m1 F"
    using realloc_adds [OF assms] by blast
  have "finite (dom m1)" using adds_finite [OF 1(2)] assms(2) by simp
  then obtain p m2 where 2: "strdup malloc [] m1 = (p, m2)" "adds (a_text p []) m2 m1"
    using strdup_adds [OF assms(1)] by blast
  obtain m' where 3: "set_slot q (length ss) p m2 = Some m'" "adds (slots q (ss @ [[]]) []) m' F"
    using set_slot_adds [OF 2(2) 1(2)] by blast
  from 3(2) have "adds (texts q (ss @ [[]])) m' F" by (elim adds_mono) (simp add: texts_def)
  then show ?thesis using 1 2 3 by blast
qed

lemma apply_single_update_adds:
  assumes "allocator malloc" "finite (dom F)"
    and "\<And>m'. F \<subseteq>\<^sub>m m' \<Longrightarrow> text_at current_content m' = Some content"
    and "\<And>m'. F \<subseteq>\<^sub>m m' \<Longrightarrow> text_at new_content m' = Some t"
  shows "case apply_single_update content sent_num word_idx t of
      None \<Rightarrow> apply_single_update_mem malloc current_content sent_num word_idx new_content F = Some (NULL, F)
    | Some r \<Rightarrow> \<exists>p m'. apply_single_update_mem malloc current_content sent_num word_idx new_content F = Some (p, m') \<and>
        adds (a_text p r) m' F"
proof -
  let ?ss = "split_into_sentences content" let ?n = "int (length ?ss)"
  obtain sa m1 where 1: "split_into_sentences_mem malloc content F = Some (sa, length ?ss, m1)" "adds (texts sa ?ss) m1 F"
    using split_sentences_adds [OF assms(1,2)] by blast
  have cur: "text_at current_content F = Some content" by (rule assms(3)) simp
  show ?thesis
  proof (cases "sent_num < 0 \<or> sent_num > ?n")
    case True
    then have "apply_single_update content sent_num word_idx t = None" by (simp add: apply_single_update_def Let_def)
    moreover have "apply_single_update_mem malloc current_content sent_num word_idx new_content F = Some (NULL, F)"
      using True cur 1(1) free_split_adds [OF 1(2)] by (simp add: apply_single_update_mem_def)
    ultimately show ?thesis by simp
  next
    case range: False
    let ?ts = "if sent_num = ?n then ?ss @ [[]] else ?ss" let ?i = "nat sent_num"
    have i: "?i < length ?ts" using range by auto
    let ?ws = "split_into_words (?ts ! ?i)"
    define app where "app = (if sent_num = ?n
          then do {
            (sents, m) \<leftarrow> realloc_slots malloc sa (length ?ss + 1) m1;
            let (empty, m) = strdup malloc [] m;
            m \<leftarrow> set_slot sents (length ?ss) empty m;
            Some (sents, length ?ss + 1, m) }
          else Some (sa, length ?ss, m1))"
    obtain ta m2 where 2: "app = Some (ta, length ?ts, m2)" "adds (texts ta ?ts) m2 F"
    proof (cases "sent_num = ?n")
      case True
      then show ?thesis using append_sentence_adds [OF assms(1,2) 1(2)] that by (fastforce simp: app_def)
    next
      case False
      then show ?thesis using 1(2) that by (simp add: app_def)
    qed
    have "finite (dom m2)" using adds_finite [OF 2(2)] assms(2) by simp
    then obtain wa m3 where 3: "split_into_words_mem malloc (?ts ! ?i) m2 = Some (wa, length ?ws, m3)" "adds (texts wa ?ws) m3 m2"
      using split_words_adds [OF assms(1)] by blast
    have code: "apply_single_update_mem malloc current_content sent_num word_idx new_content F =
      (if word_idx < 0 \<or> word_idx > int (length ?ws)
       then do { m \<leftarrow> free_split_string wa (length ?ws) m3; m \<leftarrow> free_split_string ta (length ?ts) m; Some (NULL, m) }
       else do { m \<leftarrow> edit_words_mem malloc wa (length ?ws) new_content (nat word_idx) ta ?i m3;
                 rerender_mem malloc ta (length ?ts) m })"
      using range cur 1(1) 2(1) [unfolded app_def] 3(1) texts_read [OF 2(2) map_le_refl i]
      by (simp add: apply_single_update_mem_def)
    show ?thesis
    proof (cases "word_idx < 0 \<or> word_idx > int (length ?ws)")
      case True
      then have "apply_single_update content sent_num word_idx t = None"
        using range by (simp add: apply_single_update_def Let_def)
      moreover have "apply_single_update_mem malloc current_content sent_num word_idx new_content F = Some (NULL, F)"
        using True code free_split_adds [OF 3(2)] free_split_adds [OF 2(2)] by simp
      ultimately show ?thesis by simp
    next
      case False
      let ?j = "join_words (take (nat word_idx) ?ws @ split_string '' '' t @ drop (nat word_idx) ?ws)"
      obtain m4 where 4: "edit_words_mem malloc wa (length ?ws) new_content (nat word_idx) ta ?i m3 = Some m4"
          "adds (texts ta (?ts[?i := ?j])) m4 F"
      proof -
        have "\<exists>m'. edit_words_mem malloc wa (length ?ws) new_content (nat word_idx) ta ?i m3 = Some m' \<and>
            adds (texts ta (?ts[?i := ?j])) m' F"
          by (rule edit_words_adds [OF assms(1,2) 3(2) 2(2) _ i]) (use False assms(4) in auto)
        then show ?thesis using that by blast
      qed
      obtain p m' where 5: "rerender_mem malloc ta (length (?ts[?i := ?j])) m4 = Some (p, m')"
          "adds (a_text p (join_sentences (split_into_sentences (join_sentences (?ts[?i := ?j]))))) m' F"
        using rerender_adds [OF assms(1,2) 4(2)] by blast
      have "apply_single_update content sent_num word_idx t =
          Some (join_sentences (split_into_sentences (join_sentences (?ts[?i := ?j]))))"
        using range False by (simp add: apply_single_update_def Let_def)
      moreover have "apply_single_update_mem malloc current_content sent_num word_idx new_content F = Some (p, m')"
        using False code 4(1) 5(1) by simp
      ultimately show ?thesis using 5(2) by simp
    qed
  qed
qed

text \<open>When there is no memory for the array, \<open>split_string\<close> cleans up and returns \<open>NULL\<close>, but leaves the count
  at one: a caller that checks the count alone reads through \<open>NULL\<close>.\<close>

theorem split_string_out_of_memory:
  assumes "fresh m (malloc m)" "malloc (m(malloc m \<mapsto> Bytes (length s + 1) s)) = NULL" "split_string delim s \<noteq> []"
  shows "split_string_mem malloc delim s m = Some (NULL, 1, m) \<and> get_slot NULL 0 m = None"
proof -
  let ?m = "m(malloc m \<mapsto> Bytes (length s + 1) s)"
  have tokens: "dropWhile (\<lambda>c. c \<in> set delim) s \<noteq> []"
    using assms(3) split_string_all_delims [of s delim] unfolding dropWhile_eq_Nil_conv by blast
  have "realloc_slots malloc NULL (0 + 1) ?m = Some (NULL, ?m)"
    using assms(2) by (simp add: realloc_slots_def alloc_def)
  moreover have "free_block (malloc m) ?m = Some m"
    using assms(1) by (auto simp: free_block_def fresh_def intro: fun_upd_idem)
  ultimately have "split_loop_mem malloc delim (malloc m) s NULL 0 ?m = Some (NULL, 1, m)"
    using tokens by (subst split_loop_mem.simps) (simp add: Let_def free_split_string_def)
  moreover have "strdup malloc s m = (malloc m, ?m)" "malloc m \<noteq> NULL"
    using assms(1) by (simp_all add: strdup_def alloc_def fresh_def Let_def)
  ultimately show ?thesis by (simp add: split_string_mem_def get_slot_def)
qed

theorem split_string_out_of_memory_witness:
  "split_string_mem (\<lambda>m. if m = Map.empty then 1 else NULL) '' '' ''READ f'' Map.empty = Some (NULL, 1, Map.empty)"
  using split_string_out_of_memory [of Map.empty "\<lambda>m. if m = Map.empty then 1 else NULL" "''READ f''" "'' ''"]
  by (simp add: fresh_def cstring_simps split_string.simps [of _ "''READ f''"] fun_upd_eqD)

end
