(* ===== verification/Session_Memory.thy ===== *)
theory Session_Memory
  imports Edit_Memory "HOL-Library.Multiset"
begin

text \<open>
  The memory of a whole WRITE session (\<^verbatim>\<open>file_ops.c\<close>): the check of the sentence index, the queue of updates
  with its two pointers, the commit and the release of the queue. On every path the session computes
  what \<open>File_Ops\<close> says and ends with the memory it began with.
\<close>

section \<open>Several owned parts\<close>

fun chain :: "(mem \<Rightarrow> bool) list \<Rightarrow> mem \<Rightarrow> mem \<Rightarrow> bool" where
  "chain [] m F \<longleftrightarrow> m = F"
| "chain (P # Ps) m F \<longleftrightarrow> (\<exists>G. adds P m G \<and> chain Ps G F)"

lemma chain_append: "chain (Ps @ Qs) m F \<longleftrightarrow> (\<exists>G. chain Ps m G \<and> chain Qs G F)"
  by (induction Ps arbitrary: m) auto

lemma chain_front: "chain Ps m F \<Longrightarrow> Q \<in> set Ps \<Longrightarrow> chain (Q # remove1 Q Ps) m F"
proof (induction Ps arbitrary: m)
  case (Cons P Ps)
  then obtain G where G: "adds P m G" "chain Ps G F" by auto
  show ?case
  proof (cases "P = Q")
    case True
    then show ?thesis using Cons.prems(1) by simp
  next
    case False
    then obtain H where "adds Q G H" "chain (remove1 Q Ps) H F" using Cons.IH [OF G(2)] Cons.prems(2) by auto
    then show ?thesis using adds_swap [OF G(1)] False by fastforce
  qed
qed simp

text \<open>The order of the parts does not matter.\<close>

lemma chain_perm: "chain Ps m F \<Longrightarrow> mset Ps = mset Qs \<Longrightarrow> chain Qs m F"
proof (induction Qs arbitrary: Ps m)
  case (Cons Q Qs)
  have "Q \<in> set Ps" using Cons.prems(2) by (metis list.set_intros(1) set_mset_mset)
  then obtain G where G: "adds Q m G" "chain (remove1 Q Ps) G F" using chain_front [OF Cons.prems(1)] by auto
  have "mset (remove1 Q Ps) = mset Qs" using Cons.prems(2) by simp
  then show ?case using Cons.IH [OF G(2)] G(1) by auto
qed simp

lemma chain_finite: "chain Ps m F \<Longrightarrow> finite (dom m) \<longleftrightarrow> finite (dom F)"
  by (induction Ps arbitrary: m) (auto dest: adds_finite)

lemma chain_le: "chain Ps m F \<Longrightarrow> F \<subseteq>\<^sub>m m"
  by (induction Ps arbitrary: m) (auto dest: adds_le intro: map_le_trans)

lemma chain_block:
  assumes "chain Ps m F" "a_block p b \<in> set Ps"
  shows "p \<noteq> NULL" "m p = Some b"
  using chain_front [OF assms] by (auto simp: adds_block)

lemma chain_text:
  assumes "chain Ps m F" "a_text p s \<in> set Ps" "m \<subseteq>\<^sub>m m'"
  shows "text_at p m' = Some s"
  using chain_front [OF assms(1,2)] text_at_adds [OF _ assms(3)] by auto

lemma chain_update: "chain (a_block p b # Ps) m F \<Longrightarrow> chain (a_block p b' # Ps) (m(p \<mapsto> b')) F"
  by (auto simp: adds_block)

lemma free_a_block: "adds (a_block p b) m F \<Longrightarrow> free_block p m = Some F"
  by (auto simp: adds_block free_block_def intro: fun_upd_idem)

section \<open>The queue\<close>

text \<open>The nodes from \<open>p\<close> on, up to the pointer \<open>e\<close>, and the queue with its tail.\<close>

fun queue_parts :: "addr \<Rightarrow> UpdateNode list \<Rightarrow> addr \<Rightarrow> (mem \<Rightarrow> bool) list \<Rightarrow> bool" where
  "queue_parts p [] e Ps \<longleftrightarrow> p = e \<and> Ps = []"
| "queue_parts p (u # us) e Ps \<longleftrightarrow> p \<noteq> NULL \<and>
     (\<exists>c nx Qs. Ps = a_block p (UpdateBlock (un_word_idx u) c nx) # a_text c (un_content u) # Qs \<and>
        queue_parts nx us e Qs)"

definition queue_with_tail :: "addr \<Rightarrow> addr \<Rightarrow> UpdateNode list \<Rightarrow> (mem \<Rightarrow> bool) list \<Rightarrow> bool" where
  "queue_with_tail head tail us Ps \<longleftrightarrow> us = [] \<and> head = NULL \<and> Ps = [] \<or>
     (\<exists>us' u c Qs. us = us' @ [u] \<and> tail \<noteq> NULL \<and> queue_parts head us' tail Qs \<and>
        Ps = a_block tail (UpdateBlock (un_word_idx u) c NULL) # a_text c (un_content u) # Qs)"

lemma queue_parts_snoc:
  "queue_parts p us t Ps \<Longrightarrow> t \<noteq> NULL \<Longrightarrow>
     queue_parts p (us @ [u]) e (Ps @ [a_block t (UpdateBlock (un_word_idx u) c e), a_text c (un_content u)])"
proof (induction us arbitrary: p Ps)
  case (Cons v us)
  then obtain d nx Qs where v: "p \<noteq> NULL" "Ps = a_block p (UpdateBlock (un_word_idx v) d nx) # a_text d (un_content v) # Qs"
    "queue_parts nx us t Qs" by auto
  then show ?case using Cons.IH [OF v(3) Cons.prems(2)] by auto
qed auto

lemma queue_head: "queue_parts p us e Ps \<Longrightarrow> e \<noteq> NULL \<Longrightarrow> p \<noteq> NULL"
  by (cases us) auto

lemma queue_of_tail:
  assumes "queue_with_tail head tail us Ps" "chain Ps m F"
  shows "\<exists>Qs. queue_parts head us NULL Qs \<and> chain Qs m F"
proof (cases "us = []")
  case True
  then show ?thesis using assms by (auto simp: queue_with_tail_def)
next
  case False
  then obtain us' u c Qs where q: "us = us' @ [u]" "tail \<noteq> NULL" "queue_parts head us' tail Qs"
      "Ps = a_block tail (UpdateBlock (un_word_idx u) c NULL) # a_text c (un_content u) # Qs"
    using assms(1) by (auto simp: queue_with_tail_def)
  have "chain (Qs @ [a_block tail (UpdateBlock (un_word_idx u) c NULL), a_text c (un_content u)]) m F"
    using assms(2) q(4) by (elim chain_perm) simp
  then show ?thesis using queue_parts_snoc [OF q(3,2), of u NULL c] q(1) by blast
qed

lemma free_queue_chain: "queue_parts p us NULL Ps \<Longrightarrow> chain Ps m F \<Longrightarrow> free_queue p m = Some F"
proof (induction us arbitrary: p Ps m)
  case Nil
  then show ?case by (subst free_queue.simps) simp
next
  case (Cons u us)
  then obtain c nx Qs where q: "p \<noteq> NULL" "Ps = a_block p (UpdateBlock (un_word_idx u) c nx) # a_text c (un_content u) # Qs"
      "queue_parts nx us NULL Qs" by auto
  have mp: "m p = Some (UpdateBlock (un_word_idx u) c nx)" using chain_block(2) [OF Cons.prems(2)] q(2) by auto
  have "chain (a_text c (un_content u) # a_block p (UpdateBlock (un_word_idx u) c nx) # Qs) m F"
    using Cons.prems(2) q(2) by (elim chain_perm) simp
  then obtain G H where G: "adds (a_text c (un_content u)) m G" "adds (a_block p (UpdateBlock (un_word_idx u) c nx)) G H"
      "chain Qs H F" by auto
  show ?case using q(1) mp free_text [OF G(1)] free_a_block [OF G(2)] Cons.IH [OF q(3) G(3)]
    by (subst free_queue.simps) simp
qed

text \<open>One more update behind the tail.\<close>

lemma queue_link:
  assumes "queue_with_tail head tail us Ps"
    and "chain (a_block node (UpdateBlock (un_word_idx u) c NULL) # a_text c (un_content u) # P # Ps) m F"
  shows "\<exists>m' head' Ps'. queue_append_mem head tail node m = Some (head', m') \<and>
    queue_with_tail head' node (us @ [u]) Ps' \<and> chain (P # Ps') m' F"
proof (cases "us = []")
  case True
  then have "head = NULL" "Ps = []" using assms(1) by (auto simp: queue_with_tail_def)
  moreover have "queue_with_tail node node [u] [a_block node (UpdateBlock (un_word_idx u) c NULL), a_text c (un_content u)]"
    using chain_block(1) [OF assms(2)] by (auto simp: queue_with_tail_def)
  moreover have "chain (P # [a_block node (UpdateBlock (un_word_idx u) c NULL), a_text c (un_content u)]) m F"
    using assms(2) \<open>Ps = []\<close> by (elim chain_perm) simp
  ultimately show ?thesis using True by (simp add: queue_append_mem_def del: chain.simps) blast
next
  case False
  then obtain us' v d Qs where q: "us = us' @ [v]" "tail \<noteq> NULL" "queue_parts head us' tail Qs"
      "Ps = a_block tail (UpdateBlock (un_word_idx v) d NULL) # a_text d (un_content v) # Qs"
    using assms(1) by (auto simp: queue_with_tail_def)
  have head: "head \<noteq> NULL" using queue_head [OF q(3,2)] .
  let ?nb = "a_block node (UpdateBlock (un_word_idx u) c NULL)" let ?b = "UpdateBlock (un_word_idx v) d node"
  have "m tail = Some (UpdateBlock (un_word_idx v) d NULL)" using chain_block(2) [OF assms(2)] q(4) by auto
  moreover have "chain (a_block tail (UpdateBlock (un_word_idx v) d NULL) #
      [?nb, a_text c (un_content u), P, a_text d (un_content v)] @ Qs) m F"
    using assms(2) q(4) by (elim chain_perm) simp
  then have "chain (a_block tail ?b # [?nb, a_text c (un_content u), P, a_text d (un_content v)] @ Qs) (m(tail \<mapsto> ?b)) F"
    by (rule chain_update)
  then have "chain (P # ?nb # a_text c (un_content u) # Qs @ [a_block tail ?b, a_text d (un_content v)]) (m(tail \<mapsto> ?b)) F"
    by (elim chain_perm) simp
  moreover have "queue_with_tail head node (us @ [u]) (?nb # a_text c (un_content u) # Qs @ [a_block tail ?b, a_text d (un_content v)])"
    using queue_parts_snoc [OF q(3,2), of v node d] q(1) chain_block(1) [OF assms(2)] unfolding queue_with_tail_def by auto
  ultimately show ?thesis using head by (simp add: queue_append_mem_def del: chain.simps) blast
qed

lemma queue_loop_adds:
  assumes "allocator malloc" "finite (dom F)"
  shows "queue_with_tail head tail us Ps \<Longrightarrow> chain Ps m F \<Longrightarrow>
    \<exists>head' tail' m' Ps'. queue_loop_mem malloc msgs (head, tail, m) = Some (head', tail', m') \<and>
      queue_with_tail head' tail' (write_recv_loop msgs us) Ps' \<and> chain Ps' m' F"
proof (induction msgs arbitrary: head tail us Ps m)
  case Nil
  then show ?case by auto
next
  case (Cons msg msgs)
  let ?buf = "cstr msg" let ?parts = "split_string '' '' (cstr msg)"
  show ?case
  proof (cases "msg = [] \<or> ?buf = ''ETIRW''")
    case True
    have "queue_loop_mem malloc (msg # msgs) (head, tail, m) = Some (head, tail, m)" using True by (auto simp: Let_def)
    moreover have "write_recv_loop (msg # msgs) us = us" using True by (auto simp: parse_write_line_def Let_def)
    ultimately show ?thesis using Cons.prems by metis
  next
    case go: False
    have "finite (dom m)" using chain_finite [OF Cons.prems(2)] assms(2) by simp
    then obtain pa m1 where 1: "split_string_mem malloc '' '' ?buf m = Some (pa, length ?parts, m1)" "adds (texts pa ?parts) m1 m"
      using split_string_adds [OF assms(1)] by blast
    show ?thesis
    proof (cases "length ?parts < 2")
      case True
      have "queue_loop_mem malloc (msg # msgs) (head, tail, m) = queue_loop_mem malloc msgs (head, tail, m)"
        using go True 1(1) free_split_adds [OF 1(2)] by (simp add: Let_def)
      moreover have "write_recv_loop (msg # msgs) us = write_recv_loop msgs us"
        using go True by (simp add: parse_write_line_def Let_def)
      ultimately show ?thesis using Cons.IH [OF Cons.prems] by simp
    next
      case False
      let ?u = "\<lparr>un_word_idx = atoi (?parts ! 0), un_content = drop 1 (dropWhile (\<lambda>c. c \<noteq> CHR '' '') ?buf)\<rparr>"
      have fin1: "finite (dom m1)" using adds_finite [OF 1(2)] \<open>finite (dom m)\<close> by simp
      obtain node m2 where 2: "alloc malloc (UpdateBlock 0 NULL NULL) m1 = (node, m2)" "node \<noteq> NULL"
          "adds (a_block node (UpdateBlock 0 NULL NULL)) m2 m1"
        using alloc_adds [OF assms(1) fin1] by blast
      have part: "slot_text pa 0 m2 = Some (?parts ! 0)" using texts_read [OF 1(2) adds_le [OF 2(3)], of 0] False by fastforce
      have "finite (dom m2)" using adds_finite [OF 2(3)] fin1 by simp
      then obtain c m3 where 3: "strdup malloc (un_content ?u) m2 = (c, m3)" "adds (a_text c (un_content ?u)) m3 m2"
        using strdup_adds [OF assms(1)] by blast
      let ?m4 = "m3(node \<mapsto> UpdateBlock (un_word_idx ?u) c NULL)"
      have "chain (a_text c (un_content ?u) # a_block node (UpdateBlock 0 NULL NULL) # texts pa ?parts # Ps) m3 F"
        using 1(2) 2(3) 3(2) Cons.prems(2) by auto
      then have "chain (a_block node (UpdateBlock 0 NULL NULL) # a_text c (un_content ?u) # texts pa ?parts # Ps) m3 F"
        by (elim chain_perm) simp
      then have "chain (a_block node (UpdateBlock (un_word_idx ?u) c NULL) # a_text c (un_content ?u) # texts pa ?parts # Ps) ?m4 F"
        by (rule chain_update)
      then obtain m5 head' Ps' where 5: "queue_append_mem head tail node ?m4 = Some (head', m5)"
          "queue_with_tail head' node (us @ [?u]) Ps'" "chain (texts pa ?parts # Ps') m5 F"
        using queue_link [OF Cons.prems(1)] by blast
      obtain m6 where 6: "adds (texts pa ?parts) m5 m6" "chain Ps' m6 F" using 5(3) by auto
      have "queue_loop_mem malloc (msg # msgs) (head, tail, m) = queue_loop_mem malloc msgs (head', node, m6)"
        using go False 1(1) 2(1,2) part 3(1) 5(1) free_split_adds [OF 6(1)] by (simp add: Let_def)
      moreover have "write_recv_loop (msg # msgs) us = write_recv_loop msgs (us @ [?u])"
        using go False by (simp add: parse_write_line_def Let_def)
      ultimately show ?thesis using Cons.IH [OF 5(2) 6(2)] by simp
    qed
  qed
qed

section \<open>The commit\<close>

lemma apply_loop_adds:
  assumes "allocator malloc"
  shows "queue_parts cur us NULL Ps \<Longrightarrow> set Ps \<subseteq> set Qs \<Longrightarrow> chain Qs G F \<Longrightarrow> finite (dom G) \<Longrightarrow>
    adds (a_text cc content) m G \<Longrightarrow>
    \<exists>cc' s m'. apply_loop_mem malloc rsn cur cc m = Some (apply_updates content rsn us = None, cc', m') \<and>
      adds (a_text cc' s) m' G \<and> (\<forall>r. apply_updates content rsn us = Some r \<longrightarrow> s = r)"
proof (induction us arbitrary: cur Ps cc content m)
  case Nil
  then show ?case by (subst apply_loop_mem.simps) auto
next
  case (Cons u us)
  then obtain c nx Ps' where q: "cur \<noteq> NULL" "Ps = a_block cur (UpdateBlock (un_word_idx u) c nx) # a_text c (un_content u) # Ps'"
      "queue_parts nx us NULL Ps'" by auto
  have node: "m cur = Some (UpdateBlock (un_word_idx u) c nx)"
    using chain_block(2) [OF Cons.prems(3)] map_le_Some [OF adds_le [OF Cons.prems(5)]] q(2) Cons.prems(2) by simp
  have upd: "\<And>m'. m \<subseteq>\<^sub>m m' \<Longrightarrow> text_at c m' = Some (un_content u)"
    using chain_text [OF Cons.prems(3)] map_le_trans [OF adds_le [OF Cons.prems(5)]] q(2) Cons.prems(2) by simp
  have "finite (dom m)" using adds_finite [OF Cons.prems(5)] Cons.prems(4) by simp
  note one = apply_single_update_adds [OF assms this text_at_adds [OF Cons.prems(5)] upd,
      of rsn "un_word_idx u"]
  show ?case
  proof (cases "apply_single_update content rsn (un_word_idx u) (un_content u)")
    case None
    then have "apply_loop_mem malloc rsn cur cc m = Some (True, cc, m)"
      using one q(1) node by (subst apply_loop_mem.simps) simp
    then show ?thesis using None Cons.prems(5) by auto
  next
    case (Some r)
    then obtain p m1 where 1: "apply_single_update_mem malloc cc rsn (un_word_idx u) c m = Some (p, m1)"
        "adds (a_text p r) m1 m"
      using one by auto
    obtain m2 where 2: "adds (a_text cc content) m1 m2" "adds (a_text p r) m2 G" using adds_swap [OF 1(2) Cons.prems(5)] by blast
    have "p \<noteq> NULL" using 1(2) by (simp add: adds_text)
    then have "apply_loop_mem malloc rsn cur cc m = apply_loop_mem malloc rsn nx p m2"
      using q(1) node 1(1) free_text [OF 2(1)] by (subst apply_loop_mem.simps) simp
    moreover have "set Ps' \<subseteq> set Qs" using Cons.prems(2) q(2) by simp
    ultimately show ?thesis using Cons.IH [OF q(3) _ Cons.prems(3,4) 2(2)] Some by simp
  qed
qed

text \<open>What \<open>get_file_content\<close> gives for a file that is there, or not.\<close>

definition content_of :: "string option \<Rightarrow> string" where
  "content_of file = (case file of None \<Rightarrow> [] | Some bytes \<Rightarrow> cstr bytes)"

lemma read_content_adds:
  assumes "allocator malloc" "finite (dom m)"
  shows "\<exists>p m'. read_content_mem malloc file m = (p, m') \<and> adds (a_text p (content_of file)) m' m"
proof (cases "file")
  case None
  then show ?thesis using strdup_adds [OF assms, of "[]"] by (fastforce simp: read_content_mem_def content_of_def)
next
  case (Some bytes)
  have "length (cstr bytes) < length bytes + 1" by (simp add: cstr_def length_takeWhile_le le_imp_less_Suc)
  then show ?thesis using alloc_adds [OF assms, of "Bytes (length bytes + 1) (cstr bytes)"] Some
    by (fastforce simp: read_content_mem_def content_of_def adds_block adds_text)
qed

lemma count_sentences:
  assumes "allocator malloc" "finite (dom G)" "adds (a_text p s) m G"
  shows "\<exists>sa m'. text_at p m = Some s \<and> split_into_sentences_mem malloc s m = Some (sa, length (split_into_sentences s), m') \<and>
    adds (texts sa (split_into_sentences s)) m' m"
proof -
  have "finite (dom m)" using adds_finite [OF assms(3)] assms(2) by simp
  then show ?thesis using split_sentences_adds [OF assms(1)] text_at_adds [OF assms(3) map_le_refl] by blast
qed

lemma write_check_eq:
  assumes "allocator malloc" "finite (dom m)"
  shows "write_check_mem malloc file sent_num m =
    Some (\<not> (sent_num < 0 \<or> sent_num > max_valid_index (content_of file)), m)"
proof -
  let ?ss = "split_into_sentences (content_of file)"
  obtain p m1 where 1: "read_content_mem malloc file m = (p, m1)" "adds (a_text p (content_of file)) m1 m"
    using read_content_adds [OF assms] by blast
  obtain sa m2 where 2: "text_at p m1 = Some (content_of file)"
      "split_into_sentences_mem malloc (content_of file) m1 = Some (sa, length ?ss, m2)" "adds (texts sa ?ss) m2 m1"
    using count_sentences [OF assms 1(2)] by blast
  have last: "?ss \<noteq> [] \<Longrightarrow> slot_text sa (length ?ss - 1) m2 = Some (last ?ss)"
    using texts_read [OF 2(3) map_le_refl, of "length ?ss - 1"] by (simp add: last_conv_nth)
  show ?thesis
    using 1(1) 2(1,2) last free_split_adds [OF 2(3)] free_text [OF 1(2)]
    by (cases "?ss = []") (simp_all add: write_check_mem_def max_valid_index_def Let_def)
qed

lemma commit_mem_eq:
  assumes "allocator malloc" "finite (dom G)" "queue_parts cur us NULL Ps" "chain Ps G F"
  shows "commit_mem malloc file writable rsn cur G =
    Some (case apply_updates (content_of file) rsn us of
        None \<Rightarrow> None
      | Some r \<Rightarrow> if writable
          then Some (r, length (split_into_sentences (content_of file)), length (split_into_sentences r)) else None, G)"
proof -
  let ?s = "content_of file" let ?u = "apply_updates ?s rsn us"
  obtain p m1 where 1: "read_content_mem malloc file G = (p, m1)" "adds (a_text p ?s) m1 G"
    using read_content_adds [OF assms(1,2)] by blast
  obtain sa m2 where 2: "text_at p m1 = Some ?s"
      "split_into_sentences_mem malloc ?s m1 = Some (sa, length (split_into_sentences ?s), m2)"
      "adds (texts sa (split_into_sentences ?s)) m2 m1"
    using count_sentences [OF assms(1,2) 1(2)] by blast
  obtain cc s m3 where 3: "apply_loop_mem malloc rsn cur p m1 = Some (?u = None, cc, m3)" "adds (a_text cc s) m3 G"
      "\<forall>r. ?u = Some r \<longrightarrow> s = r"
    using apply_loop_adds [OF assms(1,3) subset_refl assms(4,2) 1(2)] by blast
  obtain sb m4 where 4: "text_at cc m3 = Some s"
      "split_into_sentences_mem malloc s m3 = Some (sb, length (split_into_sentences s), m4)"
      "adds (texts sb (split_into_sentences s)) m4 m3"
    using count_sentences [OF assms(1,2) 3(2)] by blast
  show ?thesis
    using 1(1) 2(1,2) 3(1,3) 4(1,2) free_split_adds [OF 2(3)] free_split_adds [OF 4(3)] free_text [OF 3(2)]
    by (cases ?u) (auto simp: commit_mem_def)
qed

section \<open>The session\<close>



end
