(* ===== verification/Spec2Isabelle.thy ===== *)
theory Spec2Isabelle
  imports Client_Sessions Commit_Crash NM_Interleaving Startup Memory_Release Session_Memory
begin

text \<open>
  A concurrent distributed file system in C: one name server, storage servers and clients that
  exchange text messages over TCP. Paths below are relative to \<^verbatim>\<open>src/src\<close> of the repository.

  \<^bold>\<open>The program.\<close> The name server (\<^verbatim>\<open>name_server/\<close>) knows which file is on which storage server,
  who owns it and who may read or write it. A client (\<^verbatim>\<open>client/\<close>) sends it every command; it
  answers VIEW, INFO, LIST, ADDACCESS, REMACCESS and EXEC itself, passes CREATE and DELETE on to a
  storage server, and for READ, WRITE, STREAM and UNDO answers with the address of the storage
  server, which the client then connects to. A storage server (\<^verbatim>\<open>storage_server/\<close>) keeps the
  files in one directory and lets several clients edit one file at the same time, sentence by
  sentence: a WRITE session locks a sentence number, queues updates, and commits them under the
  mutex of the file; a log of the commits tells a session by how much its sentence has moved. It
  reports the new size of a file to the name server.

  \<^bold>\<open>The theories.\<close>

  \<^item> \<open>Prelude\<close>: the constants of \<^verbatim>\<open>include/common.h\<close>, C integers, list lemmas, the collection
    \<open>list_node_simps\<close>. \<open>C_Strings\<close>: the string functions of \<^verbatim>\<open>common/common.c\<close> and of the C
    library (\<open>strtok_r\<close>, \<open>strncpy\<close>, \<open>snprintf\<close>, \<open>atoi\<close>), with the round trips of numbers and
    separated fields.
  \<^item> \<open>File_Parser\<close>: \<^verbatim>\<open>storage_server/file_parser.c\<close>, its pointer loops. \<open>Text_Splitting\<close>: the
    interface \<open>text_splitter\<close> between a splitter and its joiner, with both pairs as instances.
    \<open>File_Update\<close>: what \<open>apply_single_update\<close> promises: the words inserted, the other sentences
    untouched, exactly when it refuses. \<open>Sentence_Count\<close>: a commit never lowers the number of
    sentences.
  \<^item> \<open>Undo_Handler\<close>: a file system and \<^verbatim>\<open>undo_handler.c\<close>, with the interface \<open>undo_store\<close>.
    \<open>Storage_Locks\<close>: the state of \<^verbatim>\<open>storage_server.c\<close> (locks, modification log) with the
    interface \<open>sentence_lock_table\<close>. \<open>File_Ops\<close>: the handlers of \<^verbatim>\<open>file_ops.c\<close> and the listener
    of the name server's commands. \<open>Storage_Server\<close>: what each request achieves, the invariant
    \<open>ss_inv\<close> and the interface \<open>server_step\<close> of a run of requests.
  \<^item> \<open>Write_Session\<close>: WRITE sessions interleaved (\<open>session_step\<close>, \<open>ws_step\<close>, \<open>reachable\<close>):
    mutual exclusion, no deadlock, termination, and that the handler is a session that runs alone.
    \<open>Commit_Index\<close>: which sentence a commit edits when other commits came before it.
    \<open>Commit_Crash\<close>: what is on disk between the system calls of a commit, for a crash and for
    readers that take no mutex.
  \<^item> \<open>Access_List\<close>, \<open>Hash_Table\<close>, \<open>Tries\<close>: \<^verbatim>\<open>common/data_structures.c\<close>, each against an
    interface (\<open>access_control\<close>, \<open>file_map\<close>, \<open>name_index\<close>) that the name server's proofs use.
  \<^item> \<open>Name_Server\<close>: the state of \<^verbatim>\<open>include/name_server.h\<close> and its lists (\<open>conn_list\<close>).
    \<open>NM_Persistence\<close>: \<^verbatim>\<open>name_server/persistence.c\<close>, saving, loading and the round trip.
    \<open>NM_Handlers\<close>: \<^verbatim>\<open>client_handler.c\<close>, \<^verbatim>\<open>exec_handler.c\<close>, \<^verbatim>\<open>ss_handler.c\<close> and the first
    message of a connection (\<^verbatim>\<open>name_server.c\<close>). \<open>NM_Laws\<close>: the invariant \<open>nm_inv\<close>, ownership
    as the interface \<open>guarded_store\<close>, and that the disk follows the table. \<open>NM_Commands\<close>: what
    single commands achieve, and recovery. \<open>NM_Connections\<close>: everything that reaches the name
    server, storage servers included, as one event relation. \<open>NM_Interleaving\<close>: CREATE, DELETE,
    ADDACCESS and REMACCESS of several clients cut between the locked operations.
  \<^item> \<open>Sockets\<close>: \<open>send_message\<close> and \<open>recv_message\<close> over a stream of bytes (\<open>byte_stream\<close>).
    \<open>Client\<close>: the client program. \<open>SS_Startup\<close>: the directory scan and the registration of a
    storage server. \<open>Listeners\<close>: \<open>main\<close>, the listeners and the accept loops of the three programs
    over a table of descriptors; \<open>Startup\<close>: what a start that succeeds, or fails, leaves behind.
  \<^item> \<open>Linked_Lists\<close>: the pointer loops of the lists over a heap, with the interface \<open>linked_list\<close>
    (a call in memory does what the call on Isabelle lists does, and touches nothing else).
    \<open>List_Memory\<close>: its seven instances, the lists of \<^verbatim>\<open>data_structures.c\<close>, \<^verbatim>\<open>client_handler.c\<close>,
    \<^verbatim>\<open>ss_handler.c\<close> and \<^verbatim>\<open>storage_server.c\<close>. \<open>Table_Memory\<close>: the file table over nodes, metadata
    and access lists in memory, which refines \<open>Hash_Table\<close>. \<open>Memory_Release\<close>: \<open>ht_free\<close>, \<open>trie_free\<close>
    and \<open>nm_free\<close> free everything once.
  \<^item> \<open>Text_Memory\<close>: the strings and arrays that the parser, \<open>split_string\<close> and a WRITE session allocate and
    free, over blocks with sizes, and the parts of memory a function owns (\<open>adds\<close>).
    \<open>Edit_Memory\<close>: the parser in memory refines \<open>File_Parser\<close>. \<open>Session_Memory\<close>: a session ends with the
    memory it began with (\<open>chain\<close> for several owned parts).
  \<^item> \<open>Distributed_System\<close>: name server and storage server together, and a race between a DELETE and
    a WRITE. \<open>Client_Sessions\<close>: client, name server and storage server under one command, from the
    typed line to the bytes on disk.

  \<^bold>\<open>Conventions.\<close> A C struct is a record with the code's field names under a prefix, a linked list
  is a list with its head first, a C string is the list of its bytes before the terminator. A
  handler takes the state and the messages it receives and returns the state and the messages it
  sends, with the socket or the peer each goes to. \<open>None\<close> is undefined behaviour of the C code: a
  buffer written past its end, a name without terminator, freed memory. Where the program can
  instead fail, the failure is a value (an answer, a Boolean, an \<open>option\<close> in the result).
  Buffers have the sizes of the code: 4096 bytes for a message, 256 for a name (255 bytes and
  more are cut, or left unterminated in a \<open>malloc\<close>ed node), 16 for an IP address. \<open>int\<close> and
  \<open>long\<close> are integers; ranges and wrap-around are written where the code converts
  (\<open>atoi\<close>, \<open>get_char_count\<close>, the 64-bit hash); counters such as log ids, sentence and word
  numbers are not wrapped: files and logs have fewer than \<open>2 ^ 31\<close> entries.
  No function of the model needs fuel: every loop of the code that reads its input to the end is a
  recursion over that input, the loops that wait for messages are recursions over the
  messages that come, and the accept loops over the connections that come. The pointer loops
  are partial functions whose \<open>None\<close> is an invalid access or a loop that does not end; on a list
  that is well formed they are shown to return. The sessions are shown to end with the measure
  \<open>sessions_left\<close>.

  \<^bold>\<open>Two levels of lists.\<close> The handlers use Isabelle lists, as \<open>Name_Server\<close>, \<open>Storage_Locks\<close>,
  \<open>Access_List\<close> and \<open>Hash_Table\<close> define them; the theories of memory prove that the pointer code
  implements these operations. A list in memory is described by \<open>owns\<close>, the addresses and
  contents of its nodes, so the refinement holds for any two lists in one heap.

  \<^bold>\<open>Atomicity.\<close> In \<open>File_Ops\<close> and \<open>NM_Handlers\<close> a handler runs alone. \<open>Write_Session\<close>
  interleaves WRITE sessions, UNDO and the name server's commands, with a commit as one step;
  \<open>Commit_Crash\<close> opens that step for readers and crashes. \<open>NM_Interleaving\<close> interleaves CREATE,
  DELETE, ADDACCESS and REMACCESS down to the single locked operation and the single \<^verbatim>\<open>write\<close> of a save, with
  the messages of storage servers as changes of metadata in place; the remaining commands change only the
  time of the last access. In both, a lemma ties the steps to the handler.
  Messages arrive as they were sent, except in \<open>Sockets\<close>, where the network cuts the
  stream where it likes, and in the theorems of \<open>Client_Sessions\<close> that say so.

  \<^bold>\<open>The environment.\<close> \<open>Env\<close> gives the clock, the text of \<open>strftime\<close>, and for EXEC the connection and
  the shell; \<open>ClientEnv\<close> answers for the servers in \<open>Client\<close>, and \<open>world\<close> in \<open>Client_Sessions\<close>
  fills it with the models of the two servers. \<open>FileSystem\<close> is the disk: \<open>fopen\<close> may fail, a
  \<open>write\<close> to an open file does not. \<open>System\<close> in \<open>Listeners\<close> decides which system calls on sockets
  succeed; \<open>Process\<close> is the descriptor table with a trace of what the program did. An
  \<open>allocator\<close> returns unused addresses.

  \<^bold>\<open>What the theorems show.\<close> From the outside: a user who may write a file gets the edited text on
  disk and the success on the screen, a user who may read it gets its bytes, a user who may not is
  stopped at the name server. On a storage server: the outcomes of a WRITE, all or nothing in the
  file, UNDO as its inverse, mutual exclusion, progress and termination of sessions, the edited
  sentence found after other commits, no text lost in a crash. On the name server: files change only by
  their owner, permissions are what was granted, the table is what it was after a restart. Of the
  start: a storage server listens at the port it announces, and a name server that can not listen
  leaves its files as it found them. Of the memory: the lists refine their models, a DELETE frees
  one file and nothing else, \<open>nm_free\<close> and a WRITE session leak nothing. Of the
  parts: the parser equals a reference definition and round-trips, the hash table is a map, the
  joiners stay in their buffers. Several theorems are about behaviour that looks unintended: they
  state the condition under which a sentence is edited that was not locked, an end mark
  becomes text, a deleted file or a revoked permission comes back, a file is lost by a restart, the
  storage server chosen for a new file is read after it was freed.

  \<^bold>\<open>Not modelled.\<close> The texts of \<^verbatim>\<open>log_message\<close>, \<^verbatim>\<open>perror\<close> and \<^verbatim>\<open>printf\<close> on the servers' consoles.
  The frees of the arguments of a thread, and of the parts of a command in the handlers other than WRITE
  (the same \<^verbatim>\<open>split_string\<close> and \<^verbatim>\<open>free_split_string\<close>). Failed allocations, except in
  \<^verbatim>\<open>ht_insert\<close> and \<^verbatim>\<open>split_string\<close>, which check. The empty stubs \<^verbatim>\<open>trie_get_all\<close> and \<^verbatim>\<open>ht_get_all_files\<close>.
  The threads that \<open>Listeners\<close> starts are events of the trace; what they do is in the
  theories of the handlers. Unsynchronised accesses to the trie (nothing reads it), to \<open>nm_sock\<close> and
  to the fields of metadata that other commands hold by pointer.

  \<^bold>\<open>Still to do.\<close> Sessions and name server commands interleaved inside a commit.
\<close>

end
